(* ===== verification/Go_Prelude.thy ===== *)
theory Go_Prelude
  imports Complex_Main "HOL-Library.AList" "HOL-Library.Word" "HOL-Library.Sublist"
begin

text \<open>
  What every component of the model shares: the collections of rewrite rules, Go's time values,
  and the parts of Go's standard library on strings that the balancer calls. A Go \<open>string\<close> is
  a sequence of bytes and is modelled by \<^typ>\<open>string\<close>, whose characters are bytes as well, so
  \<open>length\<close> is Go's \<open>len\<close>.
\<close>

named_theorems frame_simps \<open>fields and addresses an operation leaves as they were\<close>
named_theorems wf_intros \<open>well-formedness preserved by an operation\<close>

subsection \<open>Time\<close>

text \<open>
  A \<open>time.Time\<close> read from \<open>time.Now\<close> is a number of nanoseconds on the monotonic clock;
  a \<open>time.Duration\<close> is a 64-bit number of nanoseconds. \<open>Time.Sub\<close> saturates at the ends
  of the range of durations. The zero time, which the code tests with \<open>IsZero\<close>, is no reading of
  the clock: a field that may hold it is a \<^typ>\<open>int option\<close>.
\<close>

type_synonym time = int
type_synonym duration = int

definition nanos_per_second :: int where "nanos_per_second = 1000000000"

definition min_duration :: duration where "min_duration = - (2 ^ 63)"

definition max_duration :: duration where "max_duration = 2 ^ 63 - 1"

definition time_sub :: "time \<Rightarrow> time \<Rightarrow> duration" where
  "time_sub t u = max min_duration (min max_duration (t - u))"

lemma time_sub_nonneg: "u \<le> t \<Longrightarrow> 0 \<le> time_sub t u"
  by (simp add: time_sub_def max_duration_def)

lemma time_sub_mono: "t \<le> t' \<Longrightarrow> time_sub t u \<le> time_sub t' u"
  by (auto simp: time_sub_def)

lemma time_sub_self [simp]: "time_sub t t = 0"
  by (simp add: time_sub_def max_duration_def min_duration_def)

subsection \<open>Truncated division\<close>

text \<open>Go's \<open>/\<close> and \<open>%\<close> on signed integers truncate towards zero.\<close>

definition go_div :: "int \<Rightarrow> int \<Rightarrow> int" where
  "go_div a b = sgn a * sgn b * (\<bar>a\<bar> div \<bar>b\<bar>)"

definition go_mod :: "int \<Rightarrow> int \<Rightarrow> int" where
  "go_mod a b = a - b * go_div a b"

lemma go_div_nonneg: "0 \<le> a \<Longrightarrow> 0 < b \<Longrightarrow> go_div a b = a div b"
  by (cases "a = 0") (auto simp: go_div_def)

lemma go_mod_nonneg: "0 \<le> a \<Longrightarrow> 0 < b \<Longrightarrow> go_mod a b = a mod b"
  by (simp add: go_mod_def go_div_nonneg minus_mult_div_eq_mod)

text \<open>What the 64-bit signed operations make of a result that does not fit.\<close>

definition wrap64 :: "int \<Rightarrow> int" where
  "wrap64 x = (x + 2 ^ 63) mod 2 ^ 64 - 2 ^ 63"

lemma wrap64_id: "- (2 ^ 63) \<le> x \<Longrightarrow> x < 2 ^ 63 \<Longrightarrow> wrap64 x = x"
  by (simp add: wrap64_def)

subsection \<open>Collecting problems\<close>

definition add_if :: "bool \<Rightarrow> 'p \<Rightarrow> 'p list" where
  "add_if b p = (if b then [p] else [])"

lemma set_add_if [simp]: "set (add_if b p) = (if b then {p} else {})"
  by (simp add: add_if_def)

lemma add_if_Nil [simp]: "add_if b p = [] \<longleftrightarrow> \<not> b"
  by (simp add: add_if_def)

subsection \<open>Strings\<close>

definition index_byte :: "string \<Rightarrow> char \<Rightarrow> nat option" where
  "index_byte s c = (if c \<in> set s then Some (length (takeWhile (\<lambda>x. x \<noteq> c) s)) else None)"

definition last_index_byte :: "string \<Rightarrow> char \<Rightarrow> nat option" where
  "last_index_byte s c =
     (if c \<in> set s then Some (length s - 1 - length (takeWhile (\<lambda>x. x \<noteq> c) (rev s))) else None)"

text \<open>\<open>strings.CutPrefix\<close>, \<open>strings.CutSuffix\<close>, and \<open>strings.Cut\<close> at a single byte.\<close>

definition cut_prefix :: "string \<Rightarrow> string \<Rightarrow> string option" where
  "cut_prefix s p = (if prefix p s then Some (drop (length p) s) else None)"

definition cut_suffix :: "string \<Rightarrow> string \<Rightarrow> string option" where
  "cut_suffix s p = (if suffix p s then Some (take (length s - length p) s) else None)"

definition cut :: "string \<Rightarrow> char \<Rightarrow> string \<times> string \<times> bool" where
  "cut s c = (if c \<in> set s
     then (takeWhile (\<lambda>x. x \<noteq> c) s, tl (dropWhile (\<lambda>x. x \<noteq> c) s), True)
     else (s, [], False))"

lemma cut_prefix_append [simp]: "cut_prefix (p @ s) p = Some s"
  by (simp add: cut_prefix_def)

lemma cut_prefix_Some: "cut_prefix s p = Some t \<longleftrightarrow> s = p @ t"
  by (auto simp: cut_prefix_def elim: prefixE)

text \<open>\<open>strings.Split\<close> at a single byte, and \<open>strings.Join\<close>.\<close>

fun split_byte :: "char \<Rightarrow> string \<Rightarrow> string list" where
  "split_byte c [] = [[]]"
| "split_byte c (x # xs) =
     (if x = c then [] # split_byte c xs
      else (case split_byte c xs of [] \<Rightarrow> [[x]] | y # ys \<Rightarrow> (x # y) # ys))"

fun join :: "string \<Rightarrow> string list \<Rightarrow> string" where
  "join sep [] = []"
| "join sep [s] = s"
| "join sep (s # t # ss) = s @ sep @ join sep (t # ss)"

lemma split_byte_nonempty [simp]: "split_byte c s \<noteq> []"
  by (induction s) (auto split: list.splits)

lemma split_byte_no_sep: "t \<in> set (split_byte c s) \<Longrightarrow> c \<notin> set t"
  by (induction s arbitrary: t) (auto split: list.splits if_splits)

lemma split_byte_clean: "c \<notin> set s \<Longrightarrow> split_byte c s = [s]"
  by (induction s) auto

lemma split_byte_append: "c \<notin> set s \<Longrightarrow> split_byte c (s @ c # t) = s # split_byte c t"
  by (induction s) auto

lemma join_Cons: "ss \<noteq> [] \<Longrightarrow> join sep (s # ss) = s @ sep @ join sep ss"
  by (cases ss) auto

lemma split_byte_join: "ss \<noteq> [] \<Longrightarrow> (\<And>s. s \<in> set ss \<Longrightarrow> c \<notin> set s) \<Longrightarrow> split_byte c (join [c] ss) = ss"
  by (induction "[c]" ss rule: join.induct) (auto simp: split_byte_clean split_byte_append)

lemma join_split_byte: "join [c] (split_byte c s) = s"
proof (induction s)
  case Nil
  then show ?case by simp
next
  case (Cons x s)
  obtain y ys where ys: "split_byte c s = y # ys"
    by (cases "split_byte c s") auto
  show ?case
  proof (cases "x = c")
    case True
    with Cons show ?thesis by (simp add: join_Cons)
  next
    case False
    with Cons ys show ?thesis by (cases ys) auto
  qed
qed

text \<open>
  \<open>strings.TrimSpace\<close> removes the characters \<open>unicode.IsSpace\<close> accepts from both ends;
  here they are, as the bytes UTF-8 encodes them by.
\<close>

definition go_spaces :: "string list" where
  "go_spaces =
     [[CHR 0x09], [CHR 0x0A], [CHR 0x0B], [CHR 0x0C], [CHR 0x0D], [CHR 0x20],
      [CHR 0xC2, CHR 0x85], [CHR 0xC2, CHR 0xA0], [CHR 0xE1, CHR 0x9A, CHR 0x80],
      [CHR 0xE2, CHR 0x80, CHR 0x80], [CHR 0xE2, CHR 0x80, CHR 0x81],
      [CHR 0xE2, CHR 0x80, CHR 0x82], [CHR 0xE2, CHR 0x80, CHR 0x83],
      [CHR 0xE2, CHR 0x80, CHR 0x84], [CHR 0xE2, CHR 0x80, CHR 0x85],
      [CHR 0xE2, CHR 0x80, CHR 0x86], [CHR 0xE2, CHR 0x80, CHR 0x87],
      [CHR 0xE2, CHR 0x80, CHR 0x88], [CHR 0xE2, CHR 0x80, CHR 0x89],
      [CHR 0xE2, CHR 0x80, CHR 0x8A], [CHR 0xE2, CHR 0x80, CHR 0xA8],
      [CHR 0xE2, CHR 0x80, CHR 0xA9], [CHR 0xE2, CHR 0x80, CHR 0xAF],
      [CHR 0xE2, CHR 0x81, CHR 0x9F], [CHR 0xE3, CHR 0x80, CHR 0x80]]"

lemma go_spaces_nonempty: "p \<in> set go_spaces \<Longrightarrow> p \<noteq> []"
  by (auto simp: go_spaces_def)

definition leading_space :: "string \<Rightarrow> string option" where
  "leading_space s = find (\<lambda>p. prefix p s) go_spaces"

definition trailing_space :: "string \<Rightarrow> string option" where
  "trailing_space s = find (\<lambda>p. suffix p s) go_spaces"

lemma find_SomeD: "find P xs = Some x \<Longrightarrow> x \<in> set xs \<and> P x"
  by (induction xs) (auto split: if_splits)

lemma leading_spaceD: "leading_space s = Some p \<Longrightarrow> p \<noteq> [] \<and> prefix p s"
  using go_spaces_nonempty by (auto simp: leading_space_def dest: find_SomeD)

lemma trailing_spaceD: "trailing_space s = Some p \<Longrightarrow> p \<noteq> [] \<and> suffix p s"
  using go_spaces_nonempty by (auto simp: trailing_space_def dest: find_SomeD)

lemma leading_space_shorter: "leading_space s = Some p \<Longrightarrow> length (drop (length p) s) < length s"
  using leading_spaceD [of s p] by (auto elim!: prefixE)

lemma trailing_space_shorter:
  "trailing_space s = Some p \<Longrightarrow> length (take (length s - length p) s) < length s"
  using trailing_spaceD [of s p] by (auto elim!: suffixE)

function trim_left :: "string \<Rightarrow> string" where
  "trim_left s = (case leading_space s of None \<Rightarrow> s | Some p \<Rightarrow> trim_left (drop (length p) s))"
  by pat_completeness auto
termination
  by (relation "measure length") (use leading_space_shorter in auto)

function trim_right :: "string \<Rightarrow> string" where
  "trim_right s =
     (case trailing_space s of None \<Rightarrow> s
      | Some p \<Rightarrow> trim_right (take (length s - length p) s))"
  by pat_completeness auto
termination
  by (relation "measure length") (use trailing_space_shorter in auto)

declare trim_left.simps [simp del] trim_right.simps [simp del]

definition trim_space :: "string \<Rightarrow> string" where
  "trim_space s = trim_right (trim_left s)"

lemma set_trim_left: "set (trim_left s) \<subseteq> set s"
proof (induction s rule: trim_left.induct)
  case (1 s)
  then show ?case
    by (subst trim_left.simps) (auto split: option.splits dest!: in_set_dropD subsetD)
qed

lemma set_trim_right: "set (trim_right s) \<subseteq> set s"
proof (induction s rule: trim_right.induct)
  case (1 s)
  then show ?case
    by (subst trim_right.simps) (auto split: option.splits dest!: in_set_takeD subsetD)
qed

lemma set_trim_space: "set (trim_space s) \<subseteq> set s"
  unfolding trim_space_def using set_trim_left set_trim_right by blast

lemma trim_left_no_leading: "leading_space (trim_left s) = None"
proof (induction s rule: trim_left.induct)
  case (1 s)
  then show ?case
    by (subst trim_left.simps) (auto split: option.splits)
qed

lemma trim_right_no_trailing: "trailing_space (trim_right s) = None"
proof (induction s rule: trim_right.induct)
  case (1 s)
  then show ?case
    by (subst trim_right.simps) (auto split: option.splits)
qed

lemma prefix_trim_right: "prefix (trim_right s) s"
proof (induction s rule: trim_right.induct)
  case (1 s)
  show ?case
  proof (cases "trailing_space s")
    case None
    then show ?thesis by (subst trim_right.simps) simp
  next
    case (Some p)
    have "prefix (take (length s - length p) s) s" by (rule take_is_prefix)
    with 1 Some show ?thesis
      by (subst trim_right.simps) (auto intro: prefix_order.trans)
  qed
qed

lemma trim_right_id: "trailing_space s = None \<Longrightarrow> trim_right s = s"
  by (subst trim_right.simps) simp

lemma trim_left_id: "leading_space s = None \<Longrightarrow> trim_left s = s"
  by (subst trim_left.simps) simp

lemma leading_space_prefix:
  "leading_space s = None \<Longrightarrow> prefix t s \<Longrightarrow> leading_space t = None"
  by (auto simp: leading_space_def find_None_iff dest: prefix_order.trans)

lemma trim_space_idem [simp]: "trim_space (trim_space s) = trim_space s"
proof -
  have "leading_space (trim_right (trim_left s)) = None"
    by (rule leading_space_prefix [OF trim_left_no_leading prefix_trim_right])
  then show ?thesis
    by (simp add: trim_space_def trim_left_id trim_right_id trim_right_no_trailing)
qed

subsection \<open>Splitting an address\<close>

text \<open>
  \<open>net.SplitHostPort\<close>: the host and the port of an address, or \<open>None\<close> for the errors it
  reports (no port, too many colons, unbalanced brackets).
\<close>

definition split_host_port :: "string \<Rightarrow> (string \<times> string) option" where
  "split_host_port s =
     (case last_index_byte s CHR '':'' of
        None \<Rightarrow> None
      | Some i \<Rightarrow>
          (let bracketed = (s \<noteq> [] \<and> hd s = CHR ''['');
               host =
                 (if bracketed
                  then (case index_byte s CHR '']'' of
                          None \<Rightarrow> None
                        | Some e \<Rightarrow> if e + 1 = i then Some (take (e - 1) (drop 1 s), 1, e + 1) else None)
                  else (if CHR '':'' \<in> set (take i s) then None else Some (take i s, 0, 0)))
           in case host of
                None \<Rightarrow> None
              | Some (h, j, k) \<Rightarrow>
                  if CHR ''['' \<in> set (drop j s) \<or> CHR '']'' \<in> set (drop k s) then None
                  else Some (h, drop (i + 1) s)))"

lemma last_index_byte_append:
  "c \<notin> set t \<Longrightarrow> last_index_byte (s @ c # t) c = Some (length s)"
  by (simp add: last_index_byte_def takeWhile_append)

text \<open>A plain \<open>host:port\<close> splits at its colon.\<close>

lemma split_host_port_plain:
  assumes "set h \<inter> {CHR '':'', CHR ''['', CHR '']''} = {}"
    and "set p \<inter> {CHR '':'', CHR ''['', CHR '']''} = {}"
  shows "split_host_port (h @ CHR '':'' # p) = Some (h, p)"
proof -
  have i: "last_index_byte (h @ CHR '':'' # p) CHR '':'' = Some (length h)"
    using assms(2) by (intro last_index_byte_append) auto
  have b: "hd (h @ CHR '':'' # p) \<noteq> CHR ''[''"
    using assms(1) by (cases h) auto
  show ?thesis
    unfolding split_host_port_def i using assms b by auto
qed

subsection \<open>Lists updated by index\<close>

lemma sum_list_update_int:
  fixes f :: "'a \<Rightarrow> int"
  shows "i < length xs \<Longrightarrow> (\<Sum>x\<leftarrow>xs[i := y]. f x) = (\<Sum>x\<leftarrow>xs. f x) - f (xs ! i) + f y"
proof (induction xs arbitrary: i)
  case Nil
  then show ?case by simp
next
  case (Cons x xs)
  then show ?case by (cases i) auto
qed

lemma sum_list_one_change:
  fixes f g :: "'a \<Rightarrow> int"
  assumes "distinct xs" "x \<in> set xs" "\<And>y. y \<noteq> x \<Longrightarrow> g y = f y"
  shows "(\<Sum>y\<leftarrow>xs. g y) = (\<Sum>y\<leftarrow>xs. f y) + (g x - f x)"
  using assms
proof (induction xs)
  case Nil
  then show ?case by simp
next
  case (Cons z zs)
  show ?case
  proof (cases "z = x")
    case True
    with Cons.prems have "(\<Sum>y\<leftarrow>zs. g y) = (\<Sum>y\<leftarrow>zs. f y)"
      by (intro arg_cong [of _ _ sum_list] map_cong) (metis distinct.simps(2))+
    with True show ?thesis by simp
  next
    case False
    with Cons show ?thesis by simp
  qed
qed

lemma sum_list_pos_ex:
  fixes f :: "'a \<Rightarrow> int"
  shows "0 < (\<Sum>x\<leftarrow>xs. f x) \<Longrightarrow> \<exists>x\<in>set xs. 0 < f x"
  by (induction xs) (auto, force)

lemma sum_list_ge_one:
  fixes f :: "'a \<Rightarrow> int"
  assumes "\<And>x. x \<in> set xs \<Longrightarrow> 0 \<le> f x" "x \<in> set xs"
  shows "f x \<le> (\<Sum>x\<leftarrow>xs. f x)"
  using assms
proof (induction xs)
  case Nil
  then show ?case by simp
next
  case (Cons y ys)
  have "0 \<le> (\<Sum>x\<leftarrow>ys. f x)" using Cons.prems by (intro sum_list_nonneg) auto
  with Cons show ?case by force
qed

end
