(* ===== verification/Float64.thy ===== *)
theory Float64
  imports Go_Prelude "HOL-Library.Log_Nat"
begin

text \<open>
  Go's \<open>float64\<close>: IEEE 754 binary64. A finite value is the rational number it stands for, and
  every operation of the code is the exact operation followed by \<open>f64\<close>, which rounds to the
  nearest binary64 number, ties to even, gradual underflow included. Not modelled: the sign of zero
  (the one place where it matters, the score of consistent hashing, says so), and overflow of the
  rational operations to infinity, which needs a magnitude of \<open>2 ^ 1024\<close> that no quantity of the
  balancer reaches. The values that a configuration file can hold (\<open>.nan\<close>, \<open>.inf\<close>) are the
  datatype \<open>float64\<close>.

  The laws the components rely on (rounding is monotone and leaves the integers up to
  \<open>2 ^ 53\<close> alone) are the locale \<open>rounding\<close>; \<open>f64\<close> is its interpretation.
\<close>

subsection \<open>Rounding to an integer, ties to even\<close>

definition rne :: "rat \<Rightarrow> int" where
  "rne x = (let f = \<lfloor>x\<rfloor>; d = x - of_int f
            in if d < 1/2 then f else if 1/2 < d then f + 1 else if even f then f else f + 1)"

lemma rne_of_int [simp]: "rne (of_int n) = n"
  by (simp add: rne_def)

lemma rne_0 [simp]: "rne 0 = 0"
  by (simp add: rne_def)

lemma rne_bounds: "\<lfloor>x\<rfloor> \<le> rne x \<and> rne x \<le> \<lfloor>x\<rfloor> + 1"
  by (simp add: rne_def Let_def)

lemma rne_mono: "x \<le> y \<Longrightarrow> rne x \<le> rne y"
proof -
  assume xy: "x \<le> y"
  then have le: "\<lfloor>x\<rfloor> \<le> \<lfloor>y\<rfloor>" by (rule floor_mono)
  show ?thesis
  proof (cases "\<lfloor>x\<rfloor> = \<lfloor>y\<rfloor>")
    case True
    with xy show ?thesis by (simp add: rne_def Let_def)
  next
    case False
    with le have "\<lfloor>x\<rfloor> + 1 \<le> \<lfloor>y\<rfloor>" by simp
    with rne_bounds [of x] rne_bounds [of y] show ?thesis by linarith
  qed
qed

lemma rne_error: "\<bar>of_int (rne x) - x\<bar> \<le> 1/2"
proof -
  have "of_int \<lfloor>x\<rfloor> \<le> x" "x < of_int \<lfloor>x\<rfloor> + 1" by linarith+
  then have d: "0 \<le> x - of_int \<lfloor>x\<rfloor>" "x - of_int \<lfloor>x\<rfloor> < 1" by linarith+
  have "rne x = \<lfloor>x\<rfloor> \<and> x - of_int \<lfloor>x\<rfloor> \<le> 1/2 \<or> rne x = \<lfloor>x\<rfloor> + 1 \<and> 1/2 \<le> x - of_int \<lfloor>x\<rfloor>"
    unfolding rne_def Let_def by (simp add: not_less)
  then show ?thesis using d by (elim disjE conjE) (simp_all add: abs_le_iff)
qed

lemma rne_minus: "rne (- x) = - rne x"
proof (cases "x = of_int \<lfloor>x\<rfloor>")
  case True
  then show ?thesis by (metis of_int_minus rne_of_int)
next
  case False
  then have "\<lfloor>- x\<rfloor> = - \<lfloor>x\<rfloor> - 1"
    by (simp add: floor_eq_iff) linarith
  then show ?thesis by (auto simp: rne_def Let_def)
qed

subsection \<open>The binary exponent of a positive rational\<close>

definition blog :: "rat \<Rightarrow> int" where
  "blog x = (let (n, d) = quotient_of x;
                 k = int (floorlog 2 (nat n)) - int (floorlog 2 (nat d))
             in if 2 powi k \<le> x then k else k - 1)"

lemma powi_le_cancel: "(2::rat) powi a \<le> 2 powi b \<longleftrightarrow> a \<le> b"
  using power_int_strict_increasing [of b a "2::rat"] power_int_increasing [of a b "2::rat"]
  by (cases "a \<le> b") auto

lemma powi_less_cancel: "(2::rat) powi a < 2 powi b \<longleftrightarrow> a < b"
  using powi_le_cancel [of b a] by linarith

lemma floorlog_int_bounds:
  assumes "0 < n"
  shows "(2::rat) powi (int (floorlog 2 (nat n)) - 1) \<le> of_int n
       \<and> of_int n < (2::rat) powi int (floorlog 2 (nat n))"
proof -
  define l where "l = floorlog 2 (nat n)"
  have b: "2 ^ (l - 1) \<le> nat n \<and> nat n < 2 ^ l"
    unfolding l_def using assms by (intro floorlog_bounds) auto
  have l: "0 < l" using assms b by (cases l) auto
  have "(2::rat) powi (int l - 1) = of_nat (2 ^ (l - 1))"
    using l by (simp add: power_int_def nat_diff_distrib')
  moreover have "(2::rat) powi int l = of_nat (2 ^ l)" by simp
  moreover have "(of_int n :: rat) = of_nat (nat n)" using assms by simp
  ultimately show ?thesis using b by (simp only: of_nat_le_iff of_nat_less_iff l_def)
qed

lemma blog_bounds:
  assumes "0 < x"
  shows "2 powi blog x \<le> x" and "x < 2 powi (blog x + 1)"
proof -
  obtain n d where q: "quotient_of x = (n, d)" by fastforce
  have d: "0 < d" using q by (rule quotient_of_denom_pos)
  have x: "x = of_int n / of_int d" using q by (rule quotient_of_div)
  have n: "0 < n" using assms d x by (simp add: zero_less_divide_iff)
  define a where "a = int (floorlog 2 (nat n))"
  define b where "b = int (floorlog 2 (nat d))"
  have nb: "(2::rat) powi (a - 1) \<le> of_int n" "of_int n < (2::rat) powi a"
    using floorlog_int_bounds [OF n] by (simp_all add: a_def)
  have db: "(2::rat) powi (b - 1) \<le> of_int d" "of_int d < (2::rat) powi b"
    using floorlog_int_bounds [OF d] by (simp_all add: b_def)
  have "x < 2 powi a / 2 powi (b - 1)"
    unfolding x using nb(2) db(1) n d by (intro frac_less) auto
  then have up: "x < 2 powi (a - b + 1)"
    by (simp add: power_int_diff [symmetric] algebra_simps)
  have "2 powi (a - 1) / 2 powi b \<le> x"
    unfolding x using nb(1) db(2) n d by (intro frac_le) auto
  then have lo: "2 powi (a - b - 1) \<le> x"
    by (simp add: power_int_diff [symmetric] algebra_simps)
  have def: "blog x = (if 2 powi (a - b) \<le> x then a - b else a - b - 1)"
    by (simp add: blog_def q a_def b_def)
  show "2 powi blog x \<le> x" "x < 2 powi (blog x + 1)"
    using up lo by (auto simp: def not_le)
qed

lemma blog_mono: "0 < x \<Longrightarrow> x \<le> y \<Longrightarrow> blog x \<le> blog y"
  using blog_bounds [of x] blog_bounds [of y] powi_less_cancel [of "blog x" "blog y + 1"]
  by linarith

lemma blog_less: "0 < x \<Longrightarrow> x < 2 powi k \<Longrightarrow> blog x < k"
  using blog_bounds(1) [of x] powi_less_cancel [of "blog x" k] by linarith

subsection \<open>Rounding to binary64\<close>

definition fexp :: "rat \<Rightarrow> int" where
  "fexp x = max (blog \<bar>x\<bar> - 52) (- 1074)"

definition f64 :: "rat \<Rightarrow> rat" where
  "f64 x = (if x = 0 then 0 else of_int (rne (x / 2 powi fexp x)) * 2 powi fexp x)"

lemma f64_0 [simp]: "f64 0 = 0"
  by (simp add: f64_def)

lemma f64_minus: "f64 (- x) = - f64 x"
  by (simp add: f64_def fexp_def rne_minus)

lemma f64_nonneg: "0 \<le> x \<Longrightarrow> 0 \<le> f64 x"
proof -
  assume "0 \<le> x"
  then have "rne 0 \<le> rne (x / 2 powi fexp x)" by (intro rne_mono) simp
  then show ?thesis by (simp add: f64_def)
qed

lemma powi_as_int: "0 \<le> k \<Longrightarrow> (2::rat) powi k = of_int (2 ^ nat k)"
  by (simp add: power_int_def)

lemma f64_mono_pos:
  assumes "0 < x" "x \<le> y"
  shows "f64 x \<le> f64 y"
proof -
  have y: "0 < y" using assms by simp
  have fe: "fexp x \<le> fexp y"
    using blog_mono [OF assms] assms y by (simp add: fexp_def)
  show ?thesis
  proof (cases "fexp x = fexp y")
    case True
    have "rne (x / 2 powi fexp x) \<le> rne (y / 2 powi fexp x)"
      using assms by (intro rne_mono divide_right_mono) auto
    then show ?thesis using assms y True by (simp add: f64_def mult_right_mono)
  next
    case False
    with fe have lt: "fexp x < fexp y" by simp
    then have ey: "fexp y = blog y - 52" using y by (auto simp: fexp_def max_def split: if_splits)
    have bxy: "blog x < blog y"
      using lt assms y by (auto simp: fexp_def max_def split: if_splits)
    define B :: rat where "B = 2 powi blog y"
    have "x < 2 powi (blog x + 1)" using assms by (intro blog_bounds)
    also have "\<dots> \<le> B" unfolding B_def powi_le_cancel using bxy by simp
    finally have xB: "x \<le> B" by simp
    have Bx: "B / 2 powi fexp x = of_int (2 ^ nat (blog y - fexp x))"
      using lt ey by (subst powi_as_int [symmetric]) (auto simp: B_def power_int_diff)
    have "rne (x / 2 powi fexp x) \<le> rne (B / 2 powi fexp x)"
      using xB by (intro rne_mono divide_right_mono) auto
    then have "rne (x / 2 powi fexp x) \<le> 2 ^ nat (blog y - fexp x)"
      unfolding Bx rne_of_int .
    then have "(of_int (rne (x / 2 powi fexp x)) :: rat) \<le> B / 2 powi fexp x"
      unfolding Bx of_int_le_iff .
    then have "of_int (rne (x / 2 powi fexp x)) * 2 powi fexp x \<le> B"
      by (simp add: pos_le_divide_eq)
    then have 1: "f64 x \<le> B" using assms by (simp add: f64_def)
    have By: "B / 2 powi fexp y = of_int (2 ^ 52)"
      by (simp add: B_def ey power_int_diff)
    have "rne (B / 2 powi fexp y) \<le> rne (y / 2 powi fexp y)"
      using blog_bounds(1) [OF y] by (intro rne_mono divide_right_mono) (auto simp: B_def)
    then have "2 ^ 52 \<le> rne (y / 2 powi fexp y)" unfolding By rne_of_int .
    then have "B / 2 powi fexp y \<le> of_int (rne (y / 2 powi fexp y))"
      unfolding By of_int_le_iff .
    then have "B \<le> of_int (rne (y / 2 powi fexp y)) * 2 powi fexp y"
      by (simp add: pos_divide_le_eq)
    then have 2: "B \<le> f64 y" using y by (simp add: f64_def)
    from 1 2 show ?thesis by simp
  qed
qed

lemma f64_nonpos: "x \<le> 0 \<Longrightarrow> f64 x \<le> 0"
  using f64_nonneg [of "- x"] by (simp add: f64_minus)

lemma f64_mono: "x \<le> y \<Longrightarrow> f64 x \<le> f64 y"
proof -
  assume xy: "x \<le> y"
  consider "0 < x" | "x \<le> 0" "0 \<le> y" | "y < 0" by linarith
  then show ?thesis
  proof cases
    case 1
    then show ?thesis using xy by (rule f64_mono_pos)
  next
    case 2
    then show ?thesis using f64_nonpos [of x] f64_nonneg [of y] by simp
  next
    case 3
    then have "f64 (- y) \<le> f64 (- x)" using xy by (intro f64_mono_pos) auto
    then show ?thesis by (simp add: f64_minus)
  qed
qed

lemma f64_exact_less:
  assumes "\<bar>m\<bar> < 2 ^ 53" "- 1074 \<le> e"
  shows "f64 (of_int m * 2 powi e) = of_int m * 2 powi e"
proof (cases "m = 0")
  case False
  define x where "x = of_int m * (2::rat) powi e"
  have x0: "x \<noteq> 0" using False by (simp add: x_def)
  have ax: "\<bar>x\<bar> = of_int \<bar>m\<bar> * 2 powi e" by (simp add: x_def abs_mult)
  have "\<bar>x\<bar> < of_int (2 ^ 53) * 2 powi e"
    unfolding ax using assms(1) by (intro mult_strict_right_mono) (simp_all only: of_int_less_iff, simp)
  also have "\<dots> = 2 powi (e + 53)" by (simp add: power_int_add)
  finally have "blog \<bar>x\<bar> < e + 53" using x0 by (intro blog_less) auto
  then have le: "fexp x \<le> e" using assms(2) by (simp add: fexp_def)
  have "x / 2 powi fexp x = of_int m * 2 powi (e - fexp x)"
    by (simp add: x_def power_int_diff)
  also have "\<dots> = of_int (m * 2 ^ nat (e - fexp x))"
    using le by (simp add: powi_as_int)
  finally have q: "x / 2 powi fexp x = of_int (m * 2 ^ nat (e - fexp x))" .
  have "f64 x = (x / 2 powi fexp x) * 2 powi fexp x"
    using x0 unfolding f64_def q rne_of_int by simp
  then show ?thesis by (simp add: x_def)
qed simp

lemma f64_exact:
  assumes "\<bar>m\<bar> \<le> 2 ^ 53" "- 1074 \<le> e"
  shows "f64 (of_int m * 2 powi e) = of_int m * 2 powi e"
proof (cases "\<bar>m\<bar> = 2 ^ 53")
  case True
  define h :: int where "h = sgn m * 2 ^ 52"
  have "m = 2 ^ 53 \<or> m = - (2 ^ 53)" using True by linarith
  then have m: "m = 2 * h" by (elim disjE) (simp_all add: h_def)
  have "f64 (of_int h * 2 powi (e + 1)) = of_int h * 2 powi (e + 1)"
    using assms(2) by (intro f64_exact_less) (auto simp: h_def sgn_if)
  then show ?thesis by (simp add: m power_int_add algebra_simps)
next
  case False
  with assms show ?thesis by (intro f64_exact_less) auto
qed

lemma f64_of_int: "\<bar>n\<bar> \<le> 2 ^ 53 \<Longrightarrow> f64 (of_int n) = of_int n"
  using f64_exact [of n 0] by simp

lemma f64_error_exp: "\<bar>f64 x - x\<bar> \<le> 2 powi fexp x / 2"
proof (cases "x = 0")
  case False
  let ?u = "(2::rat) powi fexp x"
  have "f64 x - x = (of_int (rne (x / ?u)) - x / ?u) * ?u"
    using False by (simp add: f64_def algebra_simps)
  then have "\<bar>f64 x - x\<bar> = \<bar>of_int (rne (x / ?u)) - x / ?u\<bar> * ?u"
    by (simp add: abs_mult)
  also have "\<dots> \<le> 1/2 * ?u" by (intro mult_right_mono rne_error) simp
  finally show ?thesis by simp
qed simp

lemma f64_error:
  assumes "2 powi (- 1022) \<le> \<bar>x\<bar>"
  shows "\<bar>f64 x - x\<bar> \<le> \<bar>x\<bar> / 2 ^ 53"
proof -
  have x: "0 < \<bar>x\<bar>" using assms by (rule less_le_trans [rotated]) simp
  have "(2::rat) powi (- 1022) < 2 powi (blog \<bar>x\<bar> + 1)"
    using assms blog_bounds(2) [OF x] by (rule le_less_trans)
  then have "- 1022 < blog \<bar>x\<bar> + 1" unfolding powi_less_cancel .
  then have e: "fexp x = blog \<bar>x\<bar> - 52" by (simp add: fexp_def)
  have "\<bar>f64 x - x\<bar> \<le> 2 powi (blog \<bar>x\<bar> - 52) / 2" using f64_error_exp [of x] by (simp add: e)
  also have "\<dots> = 2 powi blog \<bar>x\<bar> / 2 ^ 53" by (simp add: power_int_diff)
  also have "\<dots> \<le> \<bar>x\<bar> / 2 ^ 53" using blog_bounds(1) [OF x] by (intro divide_right_mono) auto
  finally show ?thesis .
qed

lemma f64_idem [simp]: "f64 (f64 x) = f64 x"
proof (cases "x = 0")
  case False
  let ?u = "(2::rat) powi fexp x"
  have "\<bar>x\<bar> < 2 powi (blog \<bar>x\<bar> + 1)" using False by (intro blog_bounds) simp
  also have "\<dots> \<le> 2 powi (fexp x + 53)" unfolding powi_le_cancel by (simp add: fexp_def)
  finally have "\<bar>x\<bar> / ?u \<le> of_int (2 ^ 53)" by (simp add: pos_divide_le_eq power_int_add)
  then have b: "\<bar>x / ?u\<bar> \<le> of_int (2 ^ 53)" by (simp add: abs_divide)
  have "rne (x / ?u) \<le> rne (of_int (2 ^ 53))" using b by (intro rne_mono) linarith
  moreover have "rne (of_int (- (2 ^ 53))) \<le> rne (x / ?u)" using b by (intro rne_mono) linarith
  ultimately have "\<bar>rne (x / ?u)\<bar> \<le> 2 ^ 53" unfolding rne_of_int by linarith
  then have "f64 (of_int (rne (x / ?u)) * ?u) = of_int (rne (x / ?u)) * ?u"
    by (rule f64_exact) (simp add: fexp_def)
  with False show ?thesis by (simp add: f64_def)
qed simp

subsection \<open>What the components rely on\<close>

locale rounding =
  fixes rnd :: "rat \<Rightarrow> rat"
  assumes rnd_mono: "x \<le> y \<Longrightarrow> rnd x \<le> rnd y"
    and rnd_of_int: "\<bar>n\<bar> \<le> 2 ^ 53 \<Longrightarrow> rnd (of_int n) = of_int n"
    and rnd_idem: "rnd (rnd x) = rnd x"
begin

lemma rnd_0: "rnd 0 = 0"
  using rnd_of_int [of 0] by simp

lemma rnd_1: "rnd 1 = 1"
  using rnd_of_int [of 1] by simp

lemma rnd_nonneg: "0 \<le> x \<Longrightarrow> 0 \<le> rnd x"
  using rnd_mono [of 0 x] by (simp add: rnd_0)

text \<open>Scaling by a factor of at most one does not go up, and by at least one not down.\<close>

lemma rnd_share_le: "0 \<le> y \<Longrightarrow> p \<le> 1 \<Longrightarrow> rnd (p * rnd y) \<le> rnd y"
  using rnd_mono [of "p * rnd y" "rnd y"] rnd_nonneg [of y] mult_right_mono [of p 1 "rnd y"]
  by (simp add: rnd_idem)

lemma rnd_scale_ge: "0 \<le> y \<Longrightarrow> 1 \<le> p \<Longrightarrow> rnd y \<le> rnd (p * rnd y)"
  using rnd_mono [of "rnd y" "p * rnd y"] rnd_nonneg [of y] mult_right_mono [of 1 p "rnd y"]
  by (simp add: rnd_idem)

text \<open>A quotient of at least one stays at least one, and of at most one at most one.\<close>

lemma rnd_ge_1: "1 \<le> x \<Longrightarrow> 1 \<le> rnd x"
  using rnd_mono [of 1 x] by (simp add: rnd_1)

lemma rnd_le_1: "x \<le> 1 \<Longrightarrow> rnd x \<le> 1"
  using rnd_mono [of x 1] by (simp add: rnd_1)

lemma rnd_between_ints:
  "\<bar>m\<bar> \<le> 2 ^ 53 \<Longrightarrow> of_int m \<le> x \<Longrightarrow> of_int m \<le> rnd x"
  using rnd_mono [of "of_int m" x] by (simp add: rnd_of_int)

end

interpretation fl: rounding f64
  by unfold_locales (auto intro: f64_mono f64_of_int)

text \<open>
  An exact quotient of integers whose product with the divisor stays below \<open>2 ^ 53\<close> keeps its
  ceiling when it is rounded: the distance from a non-integer quotient down to the next integer is
  at least one over the divisor, more than the rounding error.
\<close>

lemma f64_quotient_above:
  fixes a b k :: int
  assumes ab: "0 < b" "b \<le> 2 ^ 53" "0 < a" "a < 2 ^ 53"
    and k: "of_int k < (of_int a / of_int b :: rat)"
  shows "(of_int k :: rat) < f64 (of_int a / of_int b)"
proof -
  define q :: rat where "q = of_int a / of_int b"
  have q0: "0 < q" using ab by (simp add: q_def)
  have "of_int (k * b) < (of_int a :: rat)" using k ab by (simp add: less_divide_eq)
  then have "k * b + 1 \<le> a" unfolding of_int_less_iff by simp
  then have "(of_int (k * b + 1) :: rat) \<le> of_int a" unfolding of_int_le_iff .
  then have "of_int (k * b + 1) / of_int b \<le> q"
    unfolding q_def using ab(1) by (intro divide_right_mono) auto
  then have gap: "of_int k + 1 / of_int b \<le> q" using ab(1) by (simp add: add_divide_distrib)
  have "(of_int b :: rat) \<le> of_int (2 ^ 53)" using ab(2) unfolding of_int_le_iff .
  then have "1 / of_int (2 ^ 53) \<le> 1 / (of_int b :: rat)"
    using ab(1) by (intro divide_left_mono) auto
  also have "\<dots> \<le> q" unfolding q_def using ab(1,3) by (intro divide_right_mono) auto
  finally have q53: "1 / of_int (2 ^ 53) \<le> \<bar>q\<bar>" using q0 by simp
  have "- 1022 \<le> (- 53 :: int)" by simp
  then have "(2::rat) powi (- 1022) \<le> 2 powi (- 53)" unfolding powi_le_cancel .
  also have "\<dots> = 1 / of_int (2 ^ 53)" by (simp add: power_int_minus inverse_eq_divide)
  also note q53
  finally have "2 powi (- 1022) \<le> \<bar>q\<bar>" .
  then have err: "\<bar>f64 q - q\<bar> \<le> \<bar>q\<bar> / 2 ^ 53" by (rule f64_error)
  have "(of_int a :: rat) < of_int (2 ^ 53)" using ab(4) unfolding of_int_less_iff .
  then have "q / 2 ^ 53 < 1 / of_int b" using ab(1) by (simp add: q_def field_simps)
  with err gap q0 have "of_int k < f64 q" by (simp only: abs_of_pos abs_le_iff) linarith
  then show ?thesis unfolding q_def .
qed

text \<open>Hence rounding such a quotient does not lower its ceiling.\<close>

lemma f64_quotient_ceiling:
  fixes a b :: int
  assumes "0 < b" "b \<le> 2 ^ 53" "0 < a" "a < 2 ^ 53"
  shows "\<lceil>of_int a / of_int b :: rat\<rceil> \<le> \<lceil>f64 (of_int a / of_int b)\<rceil>"
proof -
  let ?c = "\<lceil>of_int a / of_int b :: rat\<rceil>"
  have "of_int (?c - 1) < (of_int a / of_int b :: rat)" by linarith
  then have "(of_int (?c - 1) :: rat) < f64 (of_int a / of_int b)"
    using assms by (intro f64_quotient_above)
  then show ?thesis by linarith
qed

subsection \<open>All of binary64, for values read from a file\<close>

datatype float64 = Fin rat | PosInf | NegInf | NaN

fun flt :: "float64 \<Rightarrow> float64 \<Rightarrow> bool" where
  "flt (Fin x) (Fin y) = (x < y)"
| "flt (Fin x) PosInf = True"
| "flt NegInf (Fin y) = True"
| "flt NegInf PosInf = True"
| "flt _ _ = False"

fun feq :: "float64 \<Rightarrow> float64 \<Rightarrow> bool" where
  "feq (Fin x) (Fin y) = (x = y)"
| "feq PosInf PosInf = True"
| "feq NegInf NegInf = True"
| "feq _ _ = False"

definition fle :: "float64 \<Rightarrow> float64 \<Rightarrow> bool" where
  "fle x y = (flt x y \<or> feq x y)"

lemma flt_Fin_NegInf [simp]: "\<not> flt x NegInf"
  by (cases x) auto

lemma flt_PosInf [simp]: "\<not> flt PosInf x"
  by (cases x) auto

lemma flt_irrefl [simp]: "\<not> flt x x"
  by (cases x) auto

lemma flt_trans: "flt x y \<Longrightarrow> flt y z \<Longrightarrow> flt x z"
  by (cases x; cases y; cases z) auto

lemma flt_linear: "x \<noteq> NaN \<Longrightarrow> y \<noteq> NaN \<Longrightarrow> flt x y \<or> x = y \<or> flt y x"
  by (cases x; cases y) auto

text \<open>Arithmetic: a finite result that is too large is an infinity.\<close>

definition pack :: "rat \<Rightarrow> float64" where
  "pack x = (let y = f64 x in if 2 ^ 1024 \<le> y then PosInf else if y \<le> - (2 ^ 1024) then NegInf else Fin y)"

fun fadd :: "float64 \<Rightarrow> float64 \<Rightarrow> float64" where
  "fadd (Fin x) (Fin y) = pack (x + y)"
| "fadd NaN y = NaN"
| "fadd x NaN = NaN"
| "fadd PosInf NegInf = NaN"
| "fadd NegInf PosInf = NaN"
| "fadd PosInf y = PosInf"
| "fadd NegInf y = NegInf"
| "fadd x PosInf = PosInf"
| "fadd x NegInf = NegInf"

definition fsign :: "float64 \<Rightarrow> rat" where
  "fsign x = (case x of Fin r \<Rightarrow> sgn r | PosInf \<Rightarrow> 1 | NegInf \<Rightarrow> - 1 | NaN \<Rightarrow> 0)"

definition fmul :: "float64 \<Rightarrow> float64 \<Rightarrow> float64" where
  "fmul x y =
     (case (x, y) of
        (Fin a, Fin b) \<Rightarrow> pack (a * b)
      | _ \<Rightarrow> if fsign x * fsign y = 0 then NaN else if fsign x * fsign y > 0 then PosInf else NegInf)"

instantiation float64 :: "{zero, one, plus, times}"
begin

definition zero_float64 :: float64 where "zero_float64 = Fin 0"

definition one_float64 :: float64 where "one_float64 = Fin 1"

definition plus_float64 :: "float64 \<Rightarrow> float64 \<Rightarrow> float64" where "plus_float64 = fadd"

definition times_float64 :: "float64 \<Rightarrow> float64 \<Rightarrow> float64" where "times_float64 = fmul"

instance ..

end

lemmas float64_arith = zero_float64_def one_float64_def plus_float64_def times_float64_def

lemma fadd_NaN [simp]: "NaN + x = NaN" "x + NaN = NaN"
  by (cases x; simp add: plus_float64_def)+

lemma pack_small: "\<bar>f64 x\<bar> < 2 ^ 1024 \<Longrightarrow> pack x = Fin (f64 x)"
  by (simp add: pack_def Let_def abs_less_iff)

lemma one_times: "\<bar>x\<bar> < 2 ^ 1024 \<Longrightarrow> f64 x = x \<Longrightarrow> 1 * Fin x = Fin x"
  by (simp add: float64_arith fmul_def pack_small)

text \<open>
  \<open>int64(f)\<close> drops the fraction. Go leaves the result for a value that does not fit to the
  processor; amd64 gives the smallest integer, and so does the model.
\<close>

definition trunc :: "rat \<Rightarrow> int" where
  "trunc x = (if 0 \<le> x then \<lfloor>x\<rfloor> else \<lceil>x\<rceil>)"

definition int64_of_rat :: "rat \<Rightarrow> int" where
  "int64_of_rat x = (let n = trunc x in if - (2 ^ 63) \<le> n \<and> n < 2 ^ 63 then n else - (2 ^ 63))"

fun int64_of_float :: "float64 \<Rightarrow> int" where
  "int64_of_float (Fin x) = int64_of_rat x"
| "int64_of_float _ = - (2 ^ 63)"

lemma trunc_of_int [simp]: "trunc (of_int n) = n"
  by (simp add: trunc_def)

lemma trunc_nonneg: "0 \<le> x \<Longrightarrow> 0 \<le> trunc x"
  by (simp add: trunc_def)

lemma trunc_le: "0 \<le> x \<Longrightarrow> of_int (trunc x) \<le> x"
  by (simp add: trunc_def)

text \<open>\<open>float64(n)\<close> for an integer, and \<open>Duration.Seconds\<close>.\<close>

definition float_of_int :: "int \<Rightarrow> rat" where
  "float_of_int n = f64 (of_int n)"

definition seconds :: "duration \<Rightarrow> rat" where
  "seconds d = f64 (float_of_int (go_div d nanos_per_second)
                    + f64 (float_of_int (go_mod d nanos_per_second) / of_int nanos_per_second))"

lemma seconds_0 [simp]: "seconds 0 = 0"
  by (simp add: seconds_def float_of_int_def go_div_def go_mod_def)

lemma seconds_nonneg: "0 \<le> d \<Longrightarrow> 0 \<le> seconds d"
  by (simp add: seconds_def float_of_int_def go_div_nonneg go_mod_nonneg nanos_per_second_def
      f64_nonneg pos_imp_zdiv_nonneg_iff)

lemma seconds_ge_whole:
  assumes "0 \<le> k" "k \<le> 2 ^ 53" "k * nanos_per_second \<le> d"
  shows "of_int k \<le> seconds d"
proof -
  have d: "0 \<le> d" using assms by (smt (verit) mult_nonneg_nonneg nanos_per_second_def)
  have "k \<le> d div nanos_per_second"
    using assms(3) by (simp add: nanos_per_second_def le_div_geq zdiv_mono1 [of "k * 1000000000", simplified])
  then have "(of_int k :: rat) \<le> of_int (d div nanos_per_second)" by simp
  then have "(of_int k :: rat) \<le> float_of_int (d div nanos_per_second)"
    unfolding float_of_int_def using assms by (intro fl.rnd_between_ints) auto
  moreover have "0 \<le> f64 (float_of_int (d mod nanos_per_second) / of_int nanos_per_second)"
    by (simp add: float_of_int_def nanos_per_second_def f64_nonneg)
  ultimately show ?thesis
    unfolding seconds_def using assms d
    by (intro fl.rnd_between_ints) (auto simp: go_div_nonneg go_mod_nonneg nanos_per_second_def)
qed

end
