(* ===== verification/Configuration.thy ===== *)
theory Configuration
  imports Float64
begin

text \<open>
  \<open>internal/config\<close>: the configuration, the defaults of its omitted fields, its validation, what a
  reload cannot change, and the warnings. A configuration is the record the YAML decoder fills; the
  decoder itself (\<open>gopkg.in/yaml.v3\<close>) is a parameter of \<open>Load\<close>. A problem, which the code
  reports as a formatted error, is a constructor carrying the values the message is formatted from.
  \<open>violates\<close> states each documented constraint on its own; the lemmas show that validation
  reports exactly the constraints violated, that it accepts exactly the well-formed configurations,
  and that what \<open>Load\<close> returns is well-formed, all with one exception, which is the code's: a retry
  budget that is not a number is outside its documented range and is accepted.
\<close>

subsection \<open>The settings\<close>

type_synonym Algorithm = string
type_synonym FailurePolicy = string
type_synonym StickyMode = string

definition RoundRobin :: Algorithm where "RoundRobin = ''round_robin''"
definition LeastConnections :: Algorithm where "LeastConnections = ''least_connections''"
definition WeightedRoundRobin :: Algorithm where "WeightedRoundRobin = ''weighted_round_robin''"
definition ConsistentHashing :: Algorithm where "ConsistentHashing = ''consistent_hash''"

definition RetryNextBackend :: FailurePolicy where "RetryNextBackend = ''retry_next_backend''"
definition FailFast :: FailurePolicy where "FailFast = ''fail_fast''"
definition CircuitBreakerPolicy :: FailurePolicy where "CircuitBreakerPolicy = ''circuit_breaker''"

definition StickyNone :: StickyMode where "StickyNone = ''none''"
definition StickyCookie :: StickyMode where "StickyCookie = ''cookie''"
definition DefaultStickyCookie :: string where "DefaultStickyCookie = ''lb_backend''"

definition LevelDebug :: string where "LevelDebug = ''debug''"
definition LevelInfo :: string where "LevelInfo = ''info''"
definition LevelWarn :: string where "LevelWarn = ''warn''"
definition LevelError :: string where "LevelError = ''error''"
definition FormatJSON :: string where "FormatJSON = ''json''"
definition FormatText :: string where "FormatText = ''text''"

lemmas constant_defs =
  RoundRobin_def LeastConnections_def WeightedRoundRobin_def ConsistentHashing_def
  RetryNextBackend_def FailFast_def CircuitBreakerPolicy_def StickyNone_def StickyCookie_def
  DefaultStickyCookie_def LevelDebug_def LevelInfo_def LevelWarn_def LevelError_def
  FormatJSON_def FormatText_def

record ConsistentHash =
  ch_key :: string
  ch_balance_factor :: int

record Sticky =
  sk_mode :: StickyMode
  sk_cookie :: string
  sk_max_age :: duration
  sk_secure :: bool

record Retry =
  rt_max_retries :: int
  rt_budget_percent :: float64
  rt_min_retry_concurrency :: int

record CircuitBreaker =
  cb_failure_threshold :: int
  cb_open_duration :: duration

record Backend =
  bc_addr :: string
  bc_weight :: int

record HealthCheck =
  hc_path :: string
  hc_interval :: duration
  hc_timeout :: duration
  hc_healthy_threshold :: int
  hc_unhealthy_threshold :: int

record Timeouts =
  to_connect :: duration
  to_response :: duration
  to_read :: duration
  to_write :: duration
  to_idle :: duration

record Limits =
  li_max_connections :: int
  li_max_request_body_bytes :: int
  li_rate_limit_per_ip :: int

record Logging =
  lg_level :: string
  lg_format :: string

record Config =
  c_listen_addr :: string
  c_metrics_addr :: string
  c_enable_pprof :: bool
  c_algorithm :: Algorithm
  c_consistent_hash :: ConsistentHash
  c_sticky :: Sticky
  c_failure_policy :: FailurePolicy
  c_retry_on_5xx :: bool
  c_retry :: Retry
  c_circuit_breaker :: CircuitBreaker
  c_backends :: "Backend list"
  c_health_check :: HealthCheck
  c_timeouts :: Timeouts
  c_limits :: Limits
  c_logging :: Logging

definition KeyClientIP :: string where "KeyClientIP = ''client_ip''"

definition Header :: "ConsistentHash \<Rightarrow> string option" where
  "Header h = cut_prefix (ch_key h) ''header:''"

subsection \<open>Defaults\<close>

definition default_retry :: "Retry \<Rightarrow> Retry" where
  "default_retry r =
     r\<lparr>rt_budget_percent :=
         (if feq (rt_budget_percent r) (Fin 0) then Fin 20 else rt_budget_percent r),
       rt_min_retry_concurrency :=
         (if rt_min_retry_concurrency r = 0 then 3 else rt_min_retry_concurrency r)\<rparr>"

definition default_timeouts :: "Timeouts \<Rightarrow> Timeouts" where
  "default_timeouts t =
     t\<lparr>to_response := (if to_response t = 0 then to_read t else to_response t)\<rparr>"

definition default_sticky :: "Sticky \<Rightarrow> Sticky" where
  "default_sticky s =
     s\<lparr>sk_mode := (if sk_mode s = [] then StickyNone else sk_mode s),
       sk_cookie := (if sk_cookie s = [] then DefaultStickyCookie else sk_cookie s)\<rparr>"

definition default_logging :: "Logging \<Rightarrow> Logging" where
  "default_logging l =
     l\<lparr>lg_level := (if lg_level l = [] then LevelInfo else lg_level l),
       lg_format := (if lg_format l = [] then FormatJSON else lg_format l)\<rparr>"

definition default_backend :: "Backend \<Rightarrow> Backend" where
  "default_backend b = b\<lparr>bc_weight := (if bc_weight b = 0 then 1 else bc_weight b)\<rparr>"

definition applyDefaults :: "Config \<Rightarrow> Config" where
  "applyDefaults c =
     c\<lparr>c_metrics_addr := (if c_metrics_addr c = [] then '':8081'' else c_metrics_addr c),
       c_retry := default_retry (c_retry c),
       c_timeouts := default_timeouts (c_timeouts c),
       c_sticky := default_sticky (c_sticky c),
       c_logging := default_logging (c_logging c),
       c_backends := map default_backend (c_backends c)\<rparr>"

lemmas default_defs =
  default_retry_def default_timeouts_def default_sticky_def default_logging_def
  default_backend_def applyDefaults_def

subsection \<open>Validation\<close>

datatype problem =
    ListenAddrRequired | ListenAddrInvalid string
  | MetricsAddrInvalid string
  | AlgorithmRequired | AlgorithmUnknown string
  | HashKeyRequired | HashKeyUnknown string | BalanceFactorInvalid
  | StickyModeUnknown string | StickyCookieInvalid string | StickyMaxAgeNegative
  | FailurePolicyRequired | FailurePolicyUnknown string
  | MaxRetriesNegative | MaxRetriesZero | BudgetPercentInvalid | MinRetryConcurrencyInvalid
  | FailureThresholdInvalid | OpenDurationInvalid
  | NoBackends
  | BackendAddrRequired nat | BackendAddrInvalid nat string
  | BackendDuplicate nat string nat | BackendWeightNegative nat
  | HealthPathInvalid string | HealthIntervalInvalid | HealthTimeoutInvalid
  | HealthTimeoutNotShorter duration duration
  | HealthyThresholdInvalid | UnhealthyThresholdInvalid
  | TimeoutInvalid string
  | MaxConnectionsInvalid | MaxRequestBodyInvalid | RateLimitNegative
  | LogLevelUnknown string | LogFormatUnknown string

definition token_specials :: "char set" where
  "token_specials = set ''!#$%&*+-.^_|~'' \<union> {CHR 0x27, CHR 0x60}"

definition is_token_char :: "char \<Rightarrow> bool" where
  "is_token_char r =
     (let n = of_char r :: nat
      in 97 \<le> n \<and> n \<le> 122 \<or> 65 \<le> n \<and> n \<le> 90 \<or> 48 \<le> n \<and> n \<le> 57 \<or> r \<in> token_specials)"

definition isToken :: "string \<Rightarrow> bool" where
  "isToken s = (s \<noteq> [] \<and> list_all is_token_char s)"

definition validateConsistentHash :: "Config \<Rightarrow> problem list" where
  "validateConsistentHash c =
     (let hash = c_consistent_hash c
      in add_if (ch_key hash = [] \<and> c_algorithm c = ConsistentHashing) HashKeyRequired
       @ add_if (ch_key hash \<noteq> [] \<and> ch_key hash \<noteq> KeyClientIP
                 \<and> (case Header hash of None \<Rightarrow> True | Some name \<Rightarrow> \<not> isToken name))
                (HashKeyUnknown (ch_key hash))
       @ add_if (ch_balance_factor hash \<noteq> 0 \<and> ch_balance_factor hash < 100) BalanceFactorInvalid)"

definition validateSticky :: "Config \<Rightarrow> problem list" where
  "validateSticky c =
     (let s = c_sticky c
      in add_if (sk_mode s \<notin> {StickyNone, StickyCookie}) (StickyModeUnknown (sk_mode s))
       @ add_if (\<not> isToken (sk_cookie s)) (StickyCookieInvalid (sk_cookie s))
       @ add_if (sk_max_age s < 0) StickyMaxAgeNegative)"

text \<open>The loop over the backends; \<open>seen\<close> holds the first index of every address so far.\<close>

fun validate_backends_from :: "nat \<Rightarrow> (string \<rightharpoonup> nat) \<Rightarrow> Backend list \<Rightarrow> problem list" where
  "validate_backends_from i seen [] = []"
| "validate_backends_from i seen (b # bs) =
     (if bc_addr b = []
      then add_if True (BackendAddrRequired i)
      else add_if (split_host_port (bc_addr b) = None) (BackendAddrInvalid i (bc_addr b))
         @ (case seen (bc_addr b) of
              Some first \<Rightarrow> [BackendDuplicate i (bc_addr b) first]
            | None \<Rightarrow> []))
     @ add_if (bc_weight b < 0) (BackendWeightNegative i)
     @ validate_backends_from (Suc i)
         (if bc_addr b \<noteq> [] \<and> seen (bc_addr b) = None then seen(bc_addr b \<mapsto> i) else seen) bs"

definition validateBackends :: "Config \<Rightarrow> problem list" where
  "validateBackends c =
     (if c_backends c = [] then [NoBackends]
      else validate_backends_from 0 Map.empty (c_backends c))"

definition validateHealthCheck :: "Config \<Rightarrow> problem list" where
  "validateHealthCheck c =
     (let hc = c_health_check c
      in add_if (\<not> prefix ''/'' (hc_path hc)) (HealthPathInvalid (hc_path hc))
       @ add_if (hc_interval hc \<le> 0) HealthIntervalInvalid
       @ add_if (hc_timeout hc \<le> 0) HealthTimeoutInvalid
       @ add_if (hc_interval hc > 0 \<and> hc_timeout hc > 0 \<and> hc_timeout hc \<ge> hc_interval hc)
                (HealthTimeoutNotShorter (hc_timeout hc) (hc_interval hc))
       @ add_if (hc_healthy_threshold hc < 1) HealthyThresholdInvalid
       @ add_if (hc_unhealthy_threshold hc < 1) UnhealthyThresholdInvalid)"

definition timeout_fields :: "Timeouts \<Rightarrow> (string \<times> duration) list" where
  "timeout_fields t =
     [(''connect_timeout'', to_connect t), (''response_timeout'', to_response t),
      (''read_timeout'', to_read t), (''write_timeout'', to_write t), (''idle_timeout'', to_idle t)]"

definition validateTimeouts :: "Config \<Rightarrow> problem list" where
  "validateTimeouts c =
     concat (map (\<lambda>(name, value). add_if (value \<le> 0) (TimeoutInvalid name))
                 (timeout_fields (c_timeouts c)))"

definition validateLimits :: "Config \<Rightarrow> problem list" where
  "validateLimits c =
     (let l = c_limits c
      in add_if (li_max_connections l < 1) MaxConnectionsInvalid
       @ add_if (li_max_request_body_bytes l < 1) MaxRequestBodyInvalid
       @ add_if (li_rate_limit_per_ip l < 0) RateLimitNegative)"

definition validateLogging :: "Config \<Rightarrow> problem list" where
  "validateLogging c =
     (let l = c_logging c
      in add_if (lg_level l \<notin> {LevelDebug, LevelInfo, LevelWarn, LevelError})
                (LogLevelUnknown (lg_level l))
       @ add_if (lg_format l \<notin> {FormatJSON, FormatText}) (LogFormatUnknown (lg_format l)))"

text \<open>The checks \<open>validate\<close> makes itself, in its order, and the whole of it.\<close>

definition validate_addrs :: "Config \<Rightarrow> problem list" where
  "validate_addrs c =
     (if c_listen_addr c = [] then [ListenAddrRequired]
      else add_if (split_host_port (c_listen_addr c) = None) (ListenAddrInvalid (c_listen_addr c)))
   @ add_if (split_host_port (c_metrics_addr c) = None) (MetricsAddrInvalid (c_metrics_addr c))"

definition validate_algorithm :: "Config \<Rightarrow> problem list" where
  "validate_algorithm c =
     (if c_algorithm c \<in> {RoundRobin, LeastConnections, WeightedRoundRobin, ConsistentHashing}
      then []
      else if c_algorithm c = [] then [AlgorithmRequired]
      else [AlgorithmUnknown (c_algorithm c)])"

definition validate_policy :: "Config \<Rightarrow> problem list" where
  "validate_policy c =
     (if c_failure_policy c \<in> {RetryNextBackend, FailFast, CircuitBreakerPolicy} then []
      else if c_failure_policy c = [] then [FailurePolicyRequired]
      else [FailurePolicyUnknown (c_failure_policy c)])"

definition validate_retry :: "Config \<Rightarrow> problem list" where
  "validate_retry c =
     (let r = c_retry c
      in add_if (rt_max_retries r < 0) MaxRetriesNegative
       @ add_if (c_failure_policy c = RetryNextBackend \<and> rt_max_retries r = 0) MaxRetriesZero
       @ add_if (fle (rt_budget_percent r) (Fin 0) \<or> flt (Fin 100) (rt_budget_percent r))
                BudgetPercentInvalid
       @ add_if (rt_min_retry_concurrency r < 1) MinRetryConcurrencyInvalid)"

definition validate_breaker :: "Config \<Rightarrow> problem list" where
  "validate_breaker c =
     (if c_failure_policy c = CircuitBreakerPolicy
      then add_if (cb_failure_threshold (c_circuit_breaker c) < 1) FailureThresholdInvalid
         @ add_if (cb_open_duration (c_circuit_breaker c) \<le> 0) OpenDurationInvalid
      else [])"

definition validate :: "Config \<Rightarrow> problem list" where
  "validate c =
     validate_addrs c @ validate_algorithm c @ validateConsistentHash c @ validateSticky c
   @ validate_policy c @ validate_retry c @ validate_breaker c
   @ validateBackends c @ validateHealthCheck c @ validateTimeouts c @ validateLimits c
   @ validateLogging c"

subsection \<open>Loading, reloading, warnings\<close>

datatype load_error = OpenFailed | ParseFailed | Invalid "problem list"

text \<open>
  \<open>Load\<close>. The file's bytes are \<open>None\<close> when it cannot be opened; \<open>decode\<close> is the YAML
  decoder with unknown fields refused.
\<close>

definition Load :: "(string \<Rightarrow> Config option) \<Rightarrow> string option \<Rightarrow> load_error + Config" where
  "Load decode file =
     (case file of
        None \<Rightarrow> Inl OpenFailed
      | Some text \<Rightarrow>
          (case decode text of
             None \<Rightarrow> Inl ParseFailed
           | Some cfg \<Rightarrow>
               (let c = applyDefaults cfg
                in if validate c = [] then Inr c else Inl (Invalid (validate c)))))"

datatype restart_field = FListenAddr | FMetricsAddr | FEnablePprof | FMaxConnections | FTimeouts

definition RequiresRestart :: "Config \<Rightarrow> Config \<Rightarrow> restart_field list" where
  "RequiresRestart c next =
     (if c_listen_addr c \<noteq> c_listen_addr next then [FListenAddr] else [])
   @ (if c_metrics_addr c \<noteq> c_metrics_addr next then [FMetricsAddr] else [])
   @ (if c_enable_pprof c \<noteq> c_enable_pprof next then [FEnablePprof] else [])
   @ (if li_max_connections (c_limits c) \<noteq> li_max_connections (c_limits next)
      then [FMaxConnections] else [])
   @ (if c_timeouts c \<noteq> c_timeouts next then [FTimeouts] else [])"

definition Warnings :: "Config \<Rightarrow> (duration \<times> duration) list" where
  "Warnings c =
     (let response = to_response (c_timeouts c); write = to_write (c_timeouts c)
      in if write > 0 \<and> response \<ge> write then [(response, write)] else [])"

subsection \<open>What each problem means\<close>

definition first_at :: "Backend list \<Rightarrow> string \<Rightarrow> nat \<Rightarrow> bool" where
  "first_at bs a j \<longleftrightarrow> j < length bs \<and> bc_addr (bs ! j) = a \<and> (\<forall>m<j. bc_addr (bs ! m) \<noteq> a)"

fun backend_problem :: "Backend list \<Rightarrow> nat \<Rightarrow> problem \<Rightarrow> bool" where
  "backend_problem bs k (BackendAddrRequired i) = (i = k \<and> bc_addr (bs ! k) = [])"
| "backend_problem bs k (BackendAddrInvalid i a) =
     (i = k \<and> bc_addr (bs ! k) = a \<and> a \<noteq> [] \<and> split_host_port a = None)"
| "backend_problem bs k (BackendDuplicate i a j) =
     (i = k \<and> bc_addr (bs ! k) = a \<and> a \<noteq> [] \<and> j < k \<and> first_at bs a j)"
| "backend_problem bs k (BackendWeightNegative i) = (i = k \<and> bc_weight (bs ! k) < 0)"
| "backend_problem bs k _ = False"

definition budget_ok :: "Config \<Rightarrow> bool" where
  "budget_ok c = (case rt_budget_percent (c_retry c) of Fin x \<Rightarrow> 0 < x \<and> x \<le> 100 | _ \<Rightarrow> False)"

fun violates :: "Config \<Rightarrow> problem \<Rightarrow> bool" where
  "violates c ListenAddrRequired = (c_listen_addr c = [])"
| "violates c (ListenAddrInvalid a) =
     (a = c_listen_addr c \<and> a \<noteq> [] \<and> split_host_port a = None)"
| "violates c (MetricsAddrInvalid a) = (a = c_metrics_addr c \<and> split_host_port a = None)"
| "violates c AlgorithmRequired = (c_algorithm c = [])"
| "violates c (AlgorithmUnknown a) =
     (a = c_algorithm c \<and> a \<noteq> []
      \<and> a \<notin> {RoundRobin, LeastConnections, WeightedRoundRobin, ConsistentHashing})"
| "violates c HashKeyRequired =
     (ch_key (c_consistent_hash c) = [] \<and> c_algorithm c = ConsistentHashing)"
| "violates c (HashKeyUnknown k) =
     (k = ch_key (c_consistent_hash c) \<and> k \<noteq> [] \<and> k \<noteq> KeyClientIP
      \<and> \<not> (\<exists>name. k = ''header:'' @ name \<and> isToken name))"
| "violates c BalanceFactorInvalid =
     (ch_balance_factor (c_consistent_hash c) \<noteq> 0 \<and> ch_balance_factor (c_consistent_hash c) < 100)"
| "violates c (StickyModeUnknown m) =
     (m = sk_mode (c_sticky c) \<and> m \<noteq> StickyNone \<and> m \<noteq> StickyCookie)"
| "violates c (StickyCookieInvalid n) = (n = sk_cookie (c_sticky c) \<and> \<not> isToken n)"
| "violates c StickyMaxAgeNegative = (sk_max_age (c_sticky c) < 0)"
| "violates c FailurePolicyRequired = (c_failure_policy c = [])"
| "violates c (FailurePolicyUnknown p) =
     (p = c_failure_policy c \<and> p \<noteq> [] \<and> p \<notin> {RetryNextBackend, FailFast, CircuitBreakerPolicy})"
| "violates c MaxRetriesNegative = (rt_max_retries (c_retry c) < 0)"
| "violates c MaxRetriesZero =
     (c_failure_policy c = RetryNextBackend \<and> rt_max_retries (c_retry c) = 0)"
| "violates c BudgetPercentInvalid = (\<not> budget_ok c)"
| "violates c MinRetryConcurrencyInvalid = (rt_min_retry_concurrency (c_retry c) < 1)"
| "violates c FailureThresholdInvalid =
     (c_failure_policy c = CircuitBreakerPolicy \<and> cb_failure_threshold (c_circuit_breaker c) < 1)"
| "violates c OpenDurationInvalid =
     (c_failure_policy c = CircuitBreakerPolicy \<and> cb_open_duration (c_circuit_breaker c) \<le> 0)"
| "violates c NoBackends = (c_backends c = [])"
| "violates c (HealthPathInvalid p) = (p = hc_path (c_health_check c) \<and> \<not> prefix ''/'' p)"
| "violates c HealthIntervalInvalid = (hc_interval (c_health_check c) \<le> 0)"
| "violates c HealthTimeoutInvalid = (hc_timeout (c_health_check c) \<le> 0)"
| "violates c (HealthTimeoutNotShorter t i) =
     (t = hc_timeout (c_health_check c) \<and> i = hc_interval (c_health_check c)
      \<and> 0 < i \<and> 0 < t \<and> i \<le> t)"
| "violates c HealthyThresholdInvalid = (hc_healthy_threshold (c_health_check c) < 1)"
| "violates c UnhealthyThresholdInvalid = (hc_unhealthy_threshold (c_health_check c) < 1)"
| "violates c (TimeoutInvalid n) = (\<exists>v \<le> 0. (n, v) \<in> set (timeout_fields (c_timeouts c)))"
| "violates c MaxConnectionsInvalid = (li_max_connections (c_limits c) < 1)"
| "violates c MaxRequestBodyInvalid = (li_max_request_body_bytes (c_limits c) < 1)"
| "violates c RateLimitNegative = (li_rate_limit_per_ip (c_limits c) < 0)"
| "violates c (LogLevelUnknown l) =
     (l = lg_level (c_logging c) \<and> l \<notin> {LevelDebug, LevelInfo, LevelWarn, LevelError})"
| "violates c (LogFormatUnknown f) = (f = lg_format (c_logging c) \<and> f \<notin> {FormatJSON, FormatText})"
| "violates c p = (\<exists>k < length (c_backends c). backend_problem (c_backends c) k p)"

lemma first_at_append:
  "first_at (pre @ [b]) a j \<longleftrightarrow>
     first_at pre a j \<or> j = length pre \<and> bc_addr b = a \<and> (\<forall>m<length pre. bc_addr (pre ! m) \<noteq> a)"
proof (cases "j < length pre")
  case True
  then have "(\<forall>m<j. bc_addr ((pre @ [b]) ! m) \<noteq> a) \<longleftrightarrow> (\<forall>m<j. bc_addr (pre ! m) \<noteq> a)"
    by (auto simp: nth_append)
  with True show ?thesis by (simp add: first_at_def nth_append del: nth_append_length)
next
  case False
  have "(\<forall>m<length pre. bc_addr ((pre @ [b]) ! m) \<noteq> a) \<longleftrightarrow> (\<forall>m<length pre. bc_addr (pre ! m) \<noteq> a)"
    by (auto simp: nth_append)
  with False show ?thesis by (cases "j = length pre") (simp_all add: first_at_def)
qed

lemma first_at_ex: "(\<exists>j. first_at bs a j) \<longleftrightarrow> a \<in> bc_addr ` set bs"
proof
  assume "a \<in> bc_addr ` set bs"
  then have ex: "\<exists>j. j < length bs \<and> bc_addr (bs ! j) = a" by (auto simp: in_set_conv_nth)
  define j where "j = (LEAST j. j < length bs \<and> bc_addr (bs ! j) = a)"
  have j: "j < length bs \<and> bc_addr (bs ! j) = a" unfolding j_def by (rule LeastI_ex [OF ex])
  have "bc_addr (bs ! m) \<noteq> a" if "m < j" for m
    using not_less_Least [of m "\<lambda>j. j < length bs \<and> bc_addr (bs ! j) = a"] that j
    unfolding j_def [symmetric] by simp
  with j have "first_at bs a j" by (simp add: first_at_def)
  then show "\<exists>j. first_at bs a j" ..
qed (auto simp: first_at_def)

lemma first_at_prefix:
  "j < length pre \<Longrightarrow> first_at (pre @ bs) a j \<longleftrightarrow> first_at pre a j"
  by (auto simp: first_at_def nth_append)

lemma first_at_unique: "first_at bs a i \<Longrightarrow> first_at bs a j \<Longrightarrow> i = j"
  by (auto simp: first_at_def) (metis linorder_neqE_nat)

definition seen_inv :: "Backend list \<Rightarrow> (string \<rightharpoonup> nat) \<Rightarrow> bool" where
  "seen_inv pre seen \<longleftrightarrow> (\<forall>a j. seen a = Some j \<longleftrightarrow> a \<noteq> [] \<and> first_at pre a j)"

lemma seen_inv_None:
  assumes "seen_inv pre seen"
  shows "seen a = None \<longleftrightarrow> a = [] \<or> (\<forall>m<length pre. bc_addr (pre ! m) \<noteq> a)"
proof -
  have "seen a = None \<longleftrightarrow> \<not> (\<exists>j. seen a = Some j)" by auto
  also have "\<dots> \<longleftrightarrow> a = [] \<or> \<not> (\<exists>j. first_at pre a j)"
    using assms by (auto simp: seen_inv_def)
  also have "\<dots> \<longleftrightarrow> a = [] \<or> (\<forall>m<length pre. bc_addr (pre ! m) \<noteq> a)"
    unfolding first_at_ex by (force simp: in_set_conv_nth)
  finally show ?thesis .
qed

lemma seen_inv_step:
  assumes "seen_inv pre seen"
  shows "seen_inv (pre @ [b])
    (if bc_addr b \<noteq> [] \<and> seen (bc_addr b) = None then seen(bc_addr b \<mapsto> length pre) else seen)"
  using assms seen_inv_None [OF assms, of "bc_addr b"]
  unfolding seen_inv_def first_at_append by (auto simp: first_at_def)

text \<open>What the body of the loop reports for one backend.\<close>

lemma backend_problem_here:
  assumes "seen_inv pre seen"
  shows "backend_problem (pre @ b # bs) (length pre) p \<longleftrightarrow>
      p \<in> set (if bc_addr b = [] then add_if True (BackendAddrRequired (length pre))
        else add_if (split_host_port (bc_addr b) = None) (BackendAddrInvalid (length pre) (bc_addr b))
           @ (case seen (bc_addr b) of
                Some first \<Rightarrow> [BackendDuplicate (length pre) (bc_addr b) first] | None \<Rightarrow> []))
      \<or> p \<in> set (add_if (bc_weight b < 0) (BackendWeightNegative (length pre)))"
proof -
  have dup: "seen a = Some j \<longleftrightarrow> a \<noteq> [] \<and> j < length pre \<and> first_at (pre @ b # bs) a j" for a j
    using assms first_at_prefix [of j pre "b # bs" a]
    by (auto simp: seen_inv_def first_at_def)
  show ?thesis
  proof (cases p)
    case (BackendDuplicate i a j)
    then show ?thesis using dup [of a j] by (auto split: option.splits)
  qed (auto split: option.splits)
qed

lemma ex_from_split:
  fixes n m :: nat
  shows "(\<exists>k. n \<le> k \<and> k < n + Suc m \<and> Q k) \<longleftrightarrow>
     Q n \<or> (\<exists>k. Suc n \<le> k \<and> k < Suc (n + m) \<and> Q k)" (is "?l \<longleftrightarrow> ?r")
proof
  assume ?l
  then obtain k where k: "n \<le> k" "k < n + Suc m" "Q k" by blast
  show ?r
  proof (cases "k = n")
    case True
    with k show ?thesis by blast
  next
    case False
    with k have "Suc n \<le> k" "k < Suc (n + m)" by simp_all
    with k show ?thesis by blast
  qed
next
  assume ?r
  then show ?l
  proof
    assume "Q n"
    moreover have "n \<le> n" "n < n + Suc m" by simp_all
    ultimately show ?l by blast
  next
    assume "\<exists>k. Suc n \<le> k \<and> k < Suc (n + m) \<and> Q k"
    then obtain k where "Suc n \<le> k" "k < Suc (n + m)" "Q k" by blast
    moreover from this have "n \<le> k" "k < n + Suc m" by simp_all
    ultimately show ?l by blast
  qed
qed

lemma validate_backends_from_iff:
  "seen_inv pre seen \<Longrightarrow>
     p \<in> set (validate_backends_from (length pre) seen bs) \<longleftrightarrow>
     (\<exists>k. length pre \<le> k \<and> k < length pre + length bs \<and> backend_problem (pre @ bs) k p)"
proof (induction bs arbitrary: pre seen)
  case Nil
  then show ?case by auto
next
  case (Cons b bs)
  let ?seen = "if bc_addr b \<noteq> [] \<and> seen (bc_addr b) = None
    then seen(bc_addr b \<mapsto> length pre) else seen"
  have IH: "p \<in> set (validate_backends_from (Suc (length pre)) ?seen bs) \<longleftrightarrow>
      (\<exists>k. Suc (length pre) \<le> k \<and> k < Suc (length pre + length bs)
           \<and> backend_problem (pre @ b # bs) k p)"
    using Cons.IH [OF seen_inv_step [OF Cons.prems], of b] by simp
  have split: "(\<exists>k. length pre \<le> k \<and> k < length pre + length (b # bs) \<and> Q k) \<longleftrightarrow>
      Q (length pre) \<or> (\<exists>k. Suc (length pre) \<le> k \<and> k < Suc (length pre + length bs) \<and> Q k)" for Q
    using ex_from_split [of "length pre" "length bs" Q] by simp
  show ?case unfolding split backend_problem_here [OF Cons.prems] using IH by auto
qed

lemma validateBackends_iff:
  "p \<in> set (validateBackends c) \<longleftrightarrow>
     c_backends c = [] \<and> p = NoBackends
     \<or> (\<exists>k < length (c_backends c). backend_problem (c_backends c) k p)"
  using validate_backends_from_iff [of "[]" Map.empty p "c_backends c"]
  by (auto simp: validateBackends_def seen_inv_def first_at_def)

lemma Header_token_iff:
  "(case Header h of None \<Rightarrow> True | Some name \<Rightarrow> \<not> isToken name) \<longleftrightarrow>
     \<not> (\<exists>name. ch_key h = ''header:'' @ name \<and> isToken name)"
  unfolding Header_def cut_prefix_Some [symmetric] by (auto split: option.split)

lemma constants_nonempty [simp]:
  "RoundRobin \<noteq> []" "LeastConnections \<noteq> []" "WeightedRoundRobin \<noteq> []" "ConsistentHashing \<noteq> []"
  "RetryNextBackend \<noteq> []" "FailFast \<noteq> []" "CircuitBreakerPolicy \<noteq> []"
  by (simp_all add: constant_defs)

lemmas constants_nonempty_sym [simp] = constants_nonempty [THEN not_sym]

lemma validateConsistentHash_iff:
  "p \<in> set (validateConsistentHash c) \<longleftrightarrow>
     p \<in> {HashKeyRequired, HashKeyUnknown (ch_key (c_consistent_hash c)), BalanceFactorInvalid}
     \<and> violates c p"
  by (auto simp: validateConsistentHash_def Let_def Header_token_iff)

lemma validateSticky_iff:
  "p \<in> set (validateSticky c) \<longleftrightarrow>
     p \<in> {StickyModeUnknown (sk_mode (c_sticky c)), StickyCookieInvalid (sk_cookie (c_sticky c)),
          StickyMaxAgeNegative}
     \<and> violates c p"
  by (auto simp: validateSticky_def Let_def)

lemma validateHealthCheck_iff:
  "p \<in> set (validateHealthCheck c) \<longleftrightarrow>
     p \<in> {HealthPathInvalid (hc_path (c_health_check c)), HealthIntervalInvalid, HealthTimeoutInvalid,
          HealthTimeoutNotShorter (hc_timeout (c_health_check c)) (hc_interval (c_health_check c)),
          HealthyThresholdInvalid, UnhealthyThresholdInvalid}
     \<and> violates c p"
  by (auto simp: validateHealthCheck_def Let_def)

lemma validateTimeouts_iff:
  "p \<in> set (validateTimeouts c) \<longleftrightarrow>
     (\<exists>n v. p = TimeoutInvalid n \<and> v \<le> 0 \<and> (n, v) \<in> set (timeout_fields (c_timeouts c)))"
  by (auto simp: validateTimeouts_def split: if_splits)

lemma validateLimits_iff:
  "p \<in> set (validateLimits c) \<longleftrightarrow>
     p \<in> {MaxConnectionsInvalid, MaxRequestBodyInvalid, RateLimitNegative} \<and> violates c p"
  by (auto simp: validateLimits_def Let_def)

lemma validateLogging_iff:
  "p \<in> set (validateLogging c) \<longleftrightarrow>
     p \<in> {LogLevelUnknown (lg_level (c_logging c)), LogFormatUnknown (lg_format (c_logging c))}
     \<and> violates c p"
  by (auto simp: validateLogging_def Let_def)

lemma validate_addrs_iff:
  "p \<in> set (validate_addrs c) \<longleftrightarrow>
     p \<in> {ListenAddrRequired, ListenAddrInvalid (c_listen_addr c), MetricsAddrInvalid (c_metrics_addr c)}
     \<and> violates c p"
  by (auto simp: validate_addrs_def)

lemma validate_algorithm_iff:
  "p \<in> set (validate_algorithm c) \<longleftrightarrow>
     p \<in> {AlgorithmRequired, AlgorithmUnknown (c_algorithm c)} \<and> violates c p"
  by (auto simp: validate_algorithm_def)

lemma validate_policy_iff:
  "p \<in> set (validate_policy c) \<longleftrightarrow>
     p \<in> {FailurePolicyRequired, FailurePolicyUnknown (c_failure_policy c)} \<and> violates c p"
  by (auto simp: validate_policy_def)

lemma budget_cases:
  "\<not> (fle (rt_budget_percent (c_retry c)) (Fin 0) \<or> flt (Fin 100) (rt_budget_percent (c_retry c)))
     \<longleftrightarrow> budget_ok c \<or> rt_budget_percent (c_retry c) = NaN"
  by (cases "rt_budget_percent (c_retry c)") (auto simp: fle_def budget_ok_def)

lemma validate_retry_iff:
  "p \<in> set (validate_retry c) \<longleftrightarrow>
     p \<in> {MaxRetriesNegative, MaxRetriesZero, BudgetPercentInvalid, MinRetryConcurrencyInvalid}
     \<and> violates c p \<and> (p = BudgetPercentInvalid \<longrightarrow> rt_budget_percent (c_retry c) \<noteq> NaN)"
  using budget_cases [of c] by (auto simp: validate_retry_def Let_def)

lemma validate_breaker_iff:
  "p \<in> set (validate_breaker c) \<longleftrightarrow>
     p \<in> {FailureThresholdInvalid, OpenDurationInvalid} \<and> violates c p"
  by (auto simp: validate_breaker_def)

lemmas validate_iffs =
  validate_addrs_iff validate_algorithm_iff validateConsistentHash_iff validateSticky_iff
  validate_policy_iff validate_retry_iff validate_breaker_iff validateBackends_iff
  validateHealthCheck_iff validateTimeouts_iff validateLimits_iff validateLogging_iff

lemma validate_iff_violates:
  "p \<in> set (validate c) \<longleftrightarrow>
     violates c p \<and> \<not> (p = BudgetPercentInvalid \<and> rt_budget_percent (c_retry c) = NaN)"
  unfolding validate_def set_append Un_iff validate_iffs
  by (cases p) auto

subsection \<open>Well-formed configurations\<close>

definition backends_ok :: "Backend list \<Rightarrow> bool" where
  "backends_ok bs \<longleftrightarrow> bs \<noteq> [] \<and> distinct (map bc_addr bs)
     \<and> (\<forall>b\<in>set bs. bc_addr b \<noteq> [] \<and> split_host_port (bc_addr b) \<noteq> None \<and> 0 \<le> bc_weight b)"

definition hash_ok :: "Config \<Rightarrow> bool" where
  "hash_ok c \<longleftrightarrow>
     (let k = ch_key (c_consistent_hash c); f = ch_balance_factor (c_consistent_hash c)
      in (k = KeyClientIP \<or> (\<exists>name. k = ''header:'' @ name \<and> isToken name)
          \<or> k = [] \<and> c_algorithm c \<noteq> ConsistentHashing)
       \<and> (f = 0 \<or> 100 \<le> f))"

definition retry_ok :: "Config \<Rightarrow> bool" where
  "retry_ok c \<longleftrightarrow>
     (let r = c_retry c
      in 0 \<le> rt_max_retries r \<and> (c_failure_policy c = RetryNextBackend \<longrightarrow> 1 \<le> rt_max_retries r)
       \<and> 1 \<le> rt_min_retry_concurrency r)"

definition health_ok :: "HealthCheck \<Rightarrow> bool" where
  "health_ok h \<longleftrightarrow> prefix ''/'' (hc_path h) \<and> 0 < hc_timeout h \<and> hc_timeout h < hc_interval h
     \<and> 1 \<le> hc_healthy_threshold h \<and> 1 \<le> hc_unhealthy_threshold h"

definition rest_ok :: "Config \<Rightarrow> bool" where
  "rest_ok c \<longleftrightarrow>
     c_listen_addr c \<noteq> [] \<and> split_host_port (c_listen_addr c) \<noteq> None
   \<and> split_host_port (c_metrics_addr c) \<noteq> None
   \<and> c_algorithm c \<in> {RoundRobin, LeastConnections, WeightedRoundRobin, ConsistentHashing}
   \<and> hash_ok c
   \<and> sk_mode (c_sticky c) \<in> {StickyNone, StickyCookie} \<and> isToken (sk_cookie (c_sticky c))
   \<and> 0 \<le> sk_max_age (c_sticky c)
   \<and> c_failure_policy c \<in> {RetryNextBackend, FailFast, CircuitBreakerPolicy}
   \<and> retry_ok c
   \<and> (c_failure_policy c = CircuitBreakerPolicy \<longrightarrow>
        1 \<le> cb_failure_threshold (c_circuit_breaker c) \<and> 0 < cb_open_duration (c_circuit_breaker c))
   \<and> backends_ok (c_backends c)
   \<and> health_ok (c_health_check c)
   \<and> (\<forall>(name, value)\<in>set (timeout_fields (c_timeouts c)). 0 < value)
   \<and> 1 \<le> li_max_connections (c_limits c) \<and> 1 \<le> li_max_request_body_bytes (c_limits c)
   \<and> 0 \<le> li_rate_limit_per_ip (c_limits c)
   \<and> lg_level (c_logging c) \<in> {LevelDebug, LevelInfo, LevelWarn, LevelError}
   \<and> lg_format (c_logging c) \<in> {FormatJSON, FormatText}"

definition well_formed :: "Config \<Rightarrow> bool" where
  "well_formed c \<longleftrightarrow> rest_ok c \<and> budget_ok c"

lemma duplicate_reported:
  assumes "\<not> distinct (map bc_addr bs)" "\<forall>b\<in>set bs. bc_addr b \<noteq> []"
  shows "\<exists>k p. k < length bs \<and> backend_problem bs k p"
proof -
  from assms(1) obtain i k where ik: "i < length bs" "k < length bs" "i \<noteq> k"
      "bc_addr (bs ! i) = bc_addr (bs ! k)"
    by (auto simp: distinct_conv_nth)
  define l where "l = max i k"
  define a where "a = bc_addr (bs ! l)"
  have l: "l < length bs" "bc_addr (bs ! l) = a" using ik by (auto simp: l_def a_def max_def)
  have "a \<in> bc_addr ` set bs" using l by auto
  then obtain j where j: "first_at bs a j" using first_at_ex by metis
  have "bc_addr (bs ! min i k) = a" "min i k < l"
    using ik by (auto simp: l_def a_def max_def min_def)
  then have "j < l" using j by (auto simp: first_at_def) (metis linorder_less_linear order.strict_trans)
  moreover have "a \<noteq> []" using assms(2) l by auto
  ultimately have "backend_problem bs l (BackendDuplicate l a j)" using l j by simp
  with l show ?thesis by blast
qed

lemma validateBackends_Nil: "validateBackends c = [] \<longleftrightarrow> backends_ok (c_backends c)"
proof -
  let ?bs = "c_backends c"
  have "validateBackends c = [] \<longleftrightarrow> ?bs \<noteq> [] \<and> (\<forall>k p. k < length ?bs \<longrightarrow> \<not> backend_problem ?bs k p)"
    using validateBackends_iff [of _ c] by (metis empty_iff empty_set length_pos_if_in_set list.set_intros(1) neq_Nil_conv)
  also have "\<dots> \<longleftrightarrow> backends_ok ?bs"
  proof
    assume l: "?bs \<noteq> [] \<and> (\<forall>k p. k < length ?bs \<longrightarrow> \<not> backend_problem ?bs k p)"
    have each: "bc_addr b \<noteq> [] \<and> split_host_port (bc_addr b) \<noteq> None \<and> 0 \<le> bc_weight b"
      if "b \<in> set ?bs" for b
    proof -
      from that obtain k where k: "k < length ?bs" "?bs ! k = b" by (auto simp: in_set_conv_nth)
      from l k have n: "\<not> backend_problem ?bs k p" for p by blast
      from n [of "BackendAddrRequired k"] n [of "BackendAddrInvalid k (bc_addr b)"]
        n [of "BackendWeightNegative k"] k show ?thesis by auto
    qed
    with l duplicate_reported [of ?bs] show "backends_ok ?bs" by (auto simp: backends_ok_def)
  next
    assume r: "backends_ok ?bs"
    have "\<not> backend_problem ?bs k p" if "k < length ?bs" for k p
    proof -
      have k: "?bs ! k \<in> set ?bs" using that by simp
      have d: "bc_addr (?bs ! j) \<noteq> bc_addr (?bs ! k)" if "j < k" for j
        using r that \<open>k < length ?bs\<close> by (auto simp: backends_ok_def distinct_conv_nth)
      show ?thesis
      proof (cases p)
        case (BackendDuplicate i a j)
        then show ?thesis using d [of j] by (auto simp: first_at_def)
      qed (use r k in \<open>auto simp: backends_ok_def\<close>)
    qed
    with r show "?bs \<noteq> [] \<and> (\<forall>k p. k < length ?bs \<longrightarrow> \<not> backend_problem ?bs k p)"
      by (simp add: backends_ok_def)
  qed
  finally show ?thesis .
qed

lemma validate_Nil_iff:
  "validate c = [] \<longleftrightarrow> rest_ok c \<and> (budget_ok c \<or> rt_budget_percent (c_retry c) = NaN)"
proof -
  have "validate_addrs c = [] \<longleftrightarrow> c_listen_addr c \<noteq> [] \<and> split_host_port (c_listen_addr c) \<noteq> None
      \<and> split_host_port (c_metrics_addr c) \<noteq> None"
    by (auto simp: validate_addrs_def)
  moreover have "validate_algorithm c = [] \<longleftrightarrow>
      c_algorithm c \<in> {RoundRobin, LeastConnections, WeightedRoundRobin, ConsistentHashing}"
    by (simp add: validate_algorithm_def)
  moreover have "validateConsistentHash c = [] \<longleftrightarrow> hash_ok c"
    by (auto simp: validateConsistentHash_def hash_ok_def Let_def Header_token_iff KeyClientIP_def
        simp del: append_Cons append_Nil)
  moreover have "validateSticky c = [] \<longleftrightarrow> sk_mode (c_sticky c) \<in> {StickyNone, StickyCookie}
      \<and> isToken (sk_cookie (c_sticky c)) \<and> 0 \<le> sk_max_age (c_sticky c)"
    by (auto simp: validateSticky_def Let_def)
  moreover have "validate_policy c = [] \<longleftrightarrow>
      c_failure_policy c \<in> {RetryNextBackend, FailFast, CircuitBreakerPolicy}"
    by (simp add: validate_policy_def)
  moreover have "validate_retry c = [] \<longleftrightarrow>
      retry_ok c \<and> (budget_ok c \<or> rt_budget_percent (c_retry c) = NaN)"
    unfolding validate_retry_def retry_ok_def Let_def append_is_Nil_conv add_if_Nil budget_cases
    by auto
  moreover have "validate_breaker c = [] \<longleftrightarrow> (c_failure_policy c = CircuitBreakerPolicy \<longrightarrow>
      1 \<le> cb_failure_threshold (c_circuit_breaker c) \<and> 0 < cb_open_duration (c_circuit_breaker c))"
    by (auto simp: validate_breaker_def)
  moreover have "validateHealthCheck c = [] \<longleftrightarrow> health_ok (c_health_check c)"
    by (auto simp: validateHealthCheck_def health_ok_def Let_def)
  moreover have "validateTimeouts c = [] \<longleftrightarrow>
      (\<forall>(name, value)\<in>set (timeout_fields (c_timeouts c)). 0 < value)"
    by (auto simp: validateTimeouts_def not_le split: prod.splits)
  moreover have "validateLimits c = [] \<longleftrightarrow> 1 \<le> li_max_connections (c_limits c)
      \<and> 1 \<le> li_max_request_body_bytes (c_limits c) \<and> 0 \<le> li_rate_limit_per_ip (c_limits c)"
    by (auto simp: validateLimits_def Let_def)
  moreover have "validateLogging c = [] \<longleftrightarrow>
      lg_level (c_logging c) \<in> {LevelDebug, LevelInfo, LevelWarn, LevelError}
      \<and> lg_format (c_logging c) \<in> {FormatJSON, FormatText}"
    by (auto simp: validateLogging_def Let_def)
  ultimately show ?thesis
    unfolding validate_def rest_ok_def append_is_Nil_conv validateBackends_Nil by (simp only: conj_ac)
qed

lemma applyDefaults_idem: "applyDefaults (applyDefaults c) = applyDefaults c"
  by (simp add: default_defs constant_defs o_def)

lemma Load_Inr:
  "Load decode file = Inr c \<Longrightarrow>
     \<exists>text cfg. file = Some text \<and> decode text = Some cfg \<and> c = applyDefaults cfg \<and> validate c = []"
  by (auto simp: Load_def Let_def split: option.splits if_splits)

subsection \<open>Properties\<close>

definition ex_file_config :: Config where
  "ex_file_config =
     \<lparr>c_listen_addr = '':8080'', c_metrics_addr = [], c_enable_pprof = False,
      c_algorithm = ConsistentHashing,
      c_consistent_hash = \<lparr>ch_key = ''header:X-Tenant'', ch_balance_factor = 125\<rparr>,
      c_sticky = \<lparr>sk_mode = [], sk_cookie = [], sk_max_age = 0, sk_secure = False\<rparr>,
      c_failure_policy = RetryNextBackend, c_retry_on_5xx = True,
      c_retry = \<lparr>rt_max_retries = 2, rt_budget_percent = Fin 0, rt_min_retry_concurrency = 0\<rparr>,
      c_circuit_breaker = \<lparr>cb_failure_threshold = 0, cb_open_duration = 0\<rparr>,
      c_backends = [\<lparr>bc_addr = ''a:1'', bc_weight = 0\<rparr>, \<lparr>bc_addr = ''b:2'', bc_weight = 3\<rparr>],
      c_health_check = \<lparr>hc_path = ''/health'', hc_interval = 5000000000, hc_timeout = 2000000000,
                        hc_healthy_threshold = 2, hc_unhealthy_threshold = 3\<rparr>,
      c_timeouts = \<lparr>to_connect = 2000000000, to_response = 0, to_read = 5000000000,
                    to_write = 10000000000, to_idle = 60000000000\<rparr>,
      c_limits = \<lparr>li_max_connections = 1024, li_max_request_body_bytes = 10485760,
                  li_rate_limit_per_ip = 0\<rparr>,
      c_logging = \<lparr>lg_level = [], lg_format = []\<rparr>\<rparr>"

text \<open>
  C13: A configuration that \<open>Load\<close> returns meets every documented constraint, its defaults are
  filled in, and every backend weighs at least one, whatever the decoder does and the file holds; the
  one constraint it may break is the range of \<open>retry.budget_percent\<close>, and only with a value that is not a
  number.
\<close>

lemma Load_valid:
  assumes "Load decode file = Inr c"
  shows "rest_ok c \<and> (rt_budget_percent (c_retry c) = NaN \<or> well_formed c)
     \<and> applyDefaults c = c \<and> (\<forall>b\<in>set (c_backends c). 1 \<le> bc_weight b)"
proof -
  from Load_Inr [OF assms] obtain cfg where cfg: "c = applyDefaults cfg" "rest_ok c"
      "budget_ok c \<or> rt_budget_percent (c_retry c) = NaN"
    by (auto simp: validate_Nil_iff)
  have "1 \<le> bc_weight b" if "b \<in> set (c_backends c)" for b
  proof -
    have "0 \<le> bc_weight b" using cfg(2) that by (auto simp: rest_ok_def backends_ok_def)
    moreover from cfg(1) that obtain b' where "b = default_backend b'" by (auto simp: applyDefaults_def)
    then have "bc_weight b \<noteq> 0" by (simp add: default_backend_def)
    ultimately show ?thesis by simp
  qed
  then show ?thesis using cfg applyDefaults_idem by (auto simp: well_formed_def)
qed

lemma ex_hostports:
  "split_host_port '':8080'' \<noteq> None" "split_host_port '':8081'' \<noteq> None"
  "split_host_port ''a:1'' \<noteq> None" "split_host_port ''b:2'' \<noteq> None"
  by code_simp+

lemma ex_file_validates: "validate (applyDefaults ex_file_config) = []"
  unfolding validate_Nil_iff using ex_hostports
  by (simp add: rest_ok_def budget_ok_def ex_file_config_def default_defs constant_defs hash_ok_def retry_ok_def
      backends_ok_def health_ok_def timeout_fields_def isToken_def is_token_char_def token_specials_def
      KeyClientIP_def)

lemma Load_valid_witness:
  "rest_ok (applyDefaults ex_file_config) \<and> well_formed (applyDefaults ex_file_config)
   \<and> applyDefaults (applyDefaults ex_file_config) = applyDefaults ex_file_config
   \<and> 1 \<le> bc_weight (hd (c_backends (applyDefaults ex_file_config)))"
proof -
  let ?c = "applyDefaults ex_file_config"
  have "Load (\<lambda>_. Some ex_file_config) (Some []) = Inr ?c" by (simp add: Load_def ex_file_validates)
  note valid = Load_valid [OF this]
  have "rt_budget_percent (c_retry ?c) \<noteq> NaN" by (simp add: ex_file_config_def default_defs constant_defs)
  moreover have "hd (c_backends ?c) \<in> set (c_backends ?c)"
    by (rule hd_in_set) (simp add: ex_file_config_def applyDefaults_def)
  ultimately show ?thesis using valid by blast
qed

text \<open>
  C14: \<open>validate\<close> reports a problem exactly when the documented constraint it names is violated: it
  stops at no problem, misses none and invents none, but for one: a retry budget that is not a number,
  which is outside the documented range, is not reported.
\<close>

lemma validate_reports_exactly:
  "set (validate c) =
     {p. violates c p} - (if rt_budget_percent (c_retry c) = NaN then {BudgetPercentInvalid} else {})"
  using validate_iff_violates [of _ c] by auto

definition ex_nan_config :: Config where
  "ex_nan_config = ex_file_config\<lparr>c_algorithm := ''random'',
     c_retry := \<lparr>rt_max_retries = 2, rt_budget_percent = NaN, rt_min_retry_concurrency = 1\<rparr>\<rparr>"

lemma validate_reports_exactly_witness:
  "{p. violates (applyDefaults ex_file_config) p} = {}
   \<and> AlgorithmUnknown ''random'' \<in> set (validate ex_nan_config) \<and> BudgetPercentInvalid \<notin> set (validate ex_nan_config)"
proof -
  let ?c = "applyDefaults ex_file_config"
  have budgets: "rt_budget_percent (c_retry ?c) \<noteq> NaN" "rt_budget_percent (c_retry ex_nan_config) = NaN"
    by (simp_all add: ex_file_config_def ex_nan_config_def default_defs constant_defs)
  have "{p. violates ?c p} = {}" using validate_reports_exactly [of ?c] budgets(1) ex_file_validates by simp
  moreover have "violates ex_nan_config (AlgorithmUnknown ''random'')" by (simp add: ex_nan_config_def constant_defs)
  ultimately show ?thesis
    using validate_reports_exactly [of ex_nan_config] budgets(2) by (simp del: violates.simps)
qed

lemma NaN_budget_is_a_violation:
  "rt_budget_percent (c_retry c) = NaN \<Longrightarrow> violates c BudgetPercentInvalid \<and> BudgetPercentInvalid \<notin> set (validate c)"
  by (simp add: validate_iff_violates budget_ok_def)

text \<open>
  A retry budget that is not a number passes validation: the check refuses what is at most 0 or
  above 100, and a comparison with NaN is never true.
\<close>

lemma validate_accepts_NaN_budget:
  "validate (c\<lparr>c_retry := (c_retry c)\<lparr>rt_budget_percent := NaN\<rparr>\<rparr>) =
   validate (c\<lparr>c_retry := (c_retry c)\<lparr>rt_budget_percent := Fin 20\<rparr>\<rparr>)"
proof -
  have "validate_retry (c\<lparr>c_retry := (c_retry c)\<lparr>rt_budget_percent := NaN\<rparr>\<rparr>) =
        validate_retry (c\<lparr>c_retry := (c_retry c)\<lparr>rt_budget_percent := Fin 20\<rparr>\<rparr>)"
    by (simp add: validate_retry_def fle_def)
  then show ?thesis
    by (simp add: validate_def validate_addrs_def validate_algorithm_def validateConsistentHash_def
        validateSticky_def validate_policy_def validate_breaker_def validateBackends_def
        validateHealthCheck_def validateTimeouts_def validateLimits_def validateLogging_def)
qed

text \<open>
  Two configurations that need no restart agree on what is bound to a socket or a server.
\<close>

lemma RequiresRestart_Nil_iff:
  "RequiresRestart c next = [] \<longleftrightarrow>
     c_listen_addr next = c_listen_addr c \<and> c_metrics_addr next = c_metrics_addr c
     \<and> c_enable_pprof next = c_enable_pprof c
     \<and> li_max_connections (c_limits next) = li_max_connections (c_limits c)
     \<and> c_timeouts next = c_timeouts c"
  by (auto simp: RequiresRestart_def)

end
