(* ===== verification/Backends.thy ===== *)
theory Backends
  imports Configuration
begin

text \<open>
  The backends of \<open>internal/balancer/balancer.go\<close>. A \<open>*Backend\<close> is shared by the pool, the
  requests in flight on it and the health checker, and a reload keeps the object of an address that
  survives; so a backend is a cell of a heap and a pointer is the cell's index. Allocation appends a
  cell, and no cell is ever removed. The counters are 64-bit in the code; they count requests in
  flight and are kept as integers. The last part is the interface every strategy implements.
\<close>

type_synonym u64 = "64 word"

record backend =
  b_addr :: string
  b_weight :: int
  b_active :: int
  b_hash :: u64

type_synonym bref = nat
type_synonym heap = "backend list"

abbreviation addr_of :: "heap \<Rightarrow> bref \<Rightarrow> string" where
  "addr_of h p \<equiv> b_addr (h ! p)"

definition update_cell :: "heap \<Rightarrow> bref \<Rightarrow> (backend \<Rightarrow> backend) \<Rightarrow> heap" where
  "update_cell h p f = h[p := f (h ! p)]"

definition NewBackend :: "heap \<Rightarrow> string \<Rightarrow> int \<Rightarrow> heap \<times> bref" where
  "NewBackend h addr weight =
     (h @ [\<lparr>b_addr = addr, b_weight = weight, b_active = 0, b_hash = 0\<rparr>], length h)"

definition Weight :: "heap \<Rightarrow> bref \<Rightarrow> int" where
  "Weight h p = b_weight (h ! p)"

definition SetWeight :: "heap \<Rightarrow> bref \<Rightarrow> int \<Rightarrow> heap" where
  "SetWeight h p weight = update_cell h p (\<lambda>b. b\<lparr>b_weight := weight\<rparr>)"

definition Acquire :: "heap \<Rightarrow> bref \<Rightarrow> heap" where
  "Acquire h p = update_cell h p (\<lambda>b. b\<lparr>b_active := b_active b + 1\<rparr>)"

definition Release :: "heap \<Rightarrow> bref \<Rightarrow> heap" where
  "Release h p = update_cell h p (\<lambda>b. b\<lparr>b_active := b_active b - 1\<rparr>)"

definition ActiveConnections :: "heap \<Rightarrow> bref \<Rightarrow> int" where
  "ActiveConnections h p = b_active (h ! p)"

subsection \<open>What the operations leave alone\<close>

lemma length_update_cell [simp]: "length (update_cell h p f) = length h"
  by (simp add: update_cell_def)

lemma nth_update_cell:
  "update_cell h p f ! q = (if p = q \<and> q < length h then f (h ! q) else h ! q)"
proof (cases "p < length h")
  case True
  then show ?thesis by (simp add: update_cell_def nth_list_update)
next
  case False
  then show ?thesis by (auto simp: update_cell_def list_update_beyond)
qed

lemmas cell_defs = SetWeight_def Acquire_def Release_def nth_update_cell

lemma length_heap_ops [simp, frame_simps]:
  "length (SetWeight h p w) = length h" "length (Acquire h p) = length h"
  "length (Release h p) = length h"
  by (simp_all add: SetWeight_def Acquire_def Release_def)

lemma addr_of_ops [simp, frame_simps]:
  "addr_of (SetWeight h p w) q = addr_of h q" "addr_of (Acquire h p) q = addr_of h q"
  "addr_of (Release h p) q = addr_of h q"
  by (simp_all add: cell_defs)

lemma Weight_ops [simp, frame_simps]:
  "Weight (Acquire h p) q = Weight h q" "Weight (Release h p) q = Weight h q"
  "p < length h \<Longrightarrow> Weight (SetWeight h p w) q = (if q = p then w else Weight h q)"
  by (simp_all add: Weight_def cell_defs)

lemma Active_ops [simp, frame_simps]:
  "ActiveConnections (SetWeight h p w) q = ActiveConnections h q"
  "p < length h \<Longrightarrow> ActiveConnections (Acquire h p) q =
     (if q = p then ActiveConnections h q + 1 else ActiveConnections h q)"
  "p < length h \<Longrightarrow> ActiveConnections (Release h p) q =
     (if q = p then ActiveConnections h q - 1 else ActiveConnections h q)"
  by (simp_all add: ActiveConnections_def cell_defs)

text \<open>Handing a request to a backend and finishing it leaves the pool as it was.\<close>

lemma Release_Acquire: "p < length h \<Longrightarrow> Release (Acquire h p) p = h"
  by (rule nth_equalityI) (simp_all add: cell_defs)

subsection \<open>Building the pool\<close>

definition known_backends :: "heap \<Rightarrow> bref list \<Rightarrow> (string \<rightharpoonup> bref)" where
  "known_backends h existing = foldl (\<lambda>known p. known(addr_of h p \<mapsto> p)) Map.empty existing"

definition merge_one :: "heap \<Rightarrow> (string \<rightharpoonup> bref) \<Rightarrow> Backend \<Rightarrow> heap \<times> bref" where
  "merge_one h known wanted =
     (case known (bc_addr wanted) of
        Some p \<Rightarrow> (SetWeight h p (bc_weight wanted), p)
      | None \<Rightarrow> NewBackend h (bc_addr wanted) (bc_weight wanted))"

fun merge_loop :: "heap \<Rightarrow> (string \<rightharpoonup> bref) \<Rightarrow> Backend list \<Rightarrow> heap \<times> bref list" where
  "merge_loop h known [] = (h, [])"
| "merge_loop h known (wanted # rest) =
     (case merge_one h known wanted of
        (h1, p) \<Rightarrow> (case merge_loop h1 known rest of (h', ps) \<Rightarrow> (h', p # ps)))"

definition MergeBackends :: "heap \<Rightarrow> bref list \<Rightarrow> Backend list \<Rightarrow> heap \<times> bref list" where
  "MergeBackends h existing configured = merge_loop h (known_backends h existing) configured"

definition BackendsFromConfig :: "heap \<Rightarrow> Backend list \<Rightarrow> heap \<times> bref list" where
  "BackendsFromConfig h configured = MergeBackends h [] configured"

lemma known_backends_snoc:
  "known_backends h (ps @ [p]) = (known_backends h ps)(addr_of h p \<mapsto> p)"
  by (simp add: known_backends_def)

lemma known_backends_Some:
  "known_backends h ps a = Some p \<Longrightarrow> p \<in> set ps \<and> addr_of h p = a"
  by (induction ps rule: rev_induct) (auto simp: known_backends_snoc known_backends_def split: if_splits)

lemma known_backends_None: "known_backends h ps a = None \<longleftrightarrow> a \<notin> addr_of h ` set ps"
  by (induction ps rule: rev_induct) (auto simp: known_backends_snoc known_backends_def)

lemma known_backends_distinct:
  assumes "distinct (map (addr_of h) ps)" "p \<in> set ps"
  shows "known_backends h ps (addr_of h p) = Some p"
proof -
  from assms(2) have "known_backends h ps (addr_of h p) \<noteq> None"
    unfolding known_backends_None by blast
  then obtain q where q: "known_backends h ps (addr_of h p) = Some q" by blast
  then have "q \<in> set ps" "addr_of h q = addr_of h p" using known_backends_Some by metis+
  with assms have "q = p" by (auto simp: distinct_map dest: inj_onD)
  with q show ?thesis by simp
qed

text \<open>
  The loop, from any table of known backends whose pointers are cells with the address they are
  known under: every old cell keeps its address, counter and hash; the pool has the configured
  addresses and weights in the configured order; a known address keeps its cell, and any other gets
  a new one with nothing in flight.
\<close>

definition known_ok :: "heap \<Rightarrow> (string \<rightharpoonup> bref) \<Rightarrow> bool" where
  "known_ok h known \<longleftrightarrow> (\<forall>a p. known a = Some p \<longrightarrow> p < length h \<and> addr_of h p = a)"

definition same_cell :: "backend \<Rightarrow> backend \<Rightarrow> bool" where
  "same_cell b b' \<longleftrightarrow> b_addr b' = b_addr b \<and> b_active b' = b_active b \<and> b_hash b' = b_hash b"

definition extends_heap :: "heap \<Rightarrow> heap \<Rightarrow> bool" where
  "extends_heap h h' \<longleftrightarrow> length h \<le> length h' \<and> (\<forall>q<length h. same_cell (h ! q) (h' ! q))"

lemma extends_heap_refl [simp, wf_intros]: "extends_heap h h"
  by (simp add: extends_heap_def same_cell_def)

lemma extends_heap_trans: "extends_heap h h1 \<Longrightarrow> extends_heap h1 h2 \<Longrightarrow> extends_heap h h2"
  by (simp add: extends_heap_def same_cell_def)

lemma extends_heap_known: "extends_heap h h' \<Longrightarrow> known_ok h known \<Longrightarrow> known_ok h' known"
  by (fastforce simp: extends_heap_def known_ok_def same_cell_def)

lemma merge_one_spec:
  assumes "merge_one h known w = (h1, p)" "known_ok h known"
  shows "extends_heap h h1" and "p < length h1" and "addr_of h1 p = bc_addr w"
    and "b_weight (h1 ! p) = bc_weight w"
    and "\<And>q. q < length h \<Longrightarrow> q \<noteq> p \<Longrightarrow> h1 ! q = h ! q"
    and "\<And>q. known (bc_addr w) = Some q \<Longrightarrow> p = q"
    and "known (bc_addr w) = None \<Longrightarrow> p = length h \<and> b_active (h1 ! p) = 0"
proof -
  have cases: "(\<exists>q. known (bc_addr w) = Some q \<and> q < length h \<and> addr_of h q = bc_addr w
        \<and> h1 = SetWeight h q (bc_weight w) \<and> p = q)
     \<or> known (bc_addr w) = None \<and> NewBackend h (bc_addr w) (bc_weight w) = (h1, p)"
    using assms by (auto simp: merge_one_def known_ok_def split: option.splits)
  show "extends_heap h h1" "p < length h1" "addr_of h1 p = bc_addr w"
    "b_weight (h1 ! p) = bc_weight w"
    "\<And>q. q < length h \<Longrightarrow> q \<noteq> p \<Longrightarrow> h1 ! q = h ! q"
    "\<And>q. known (bc_addr w) = Some q \<Longrightarrow> p = q"
    "known (bc_addr w) = None \<Longrightarrow> p = length h \<and> b_active (h1 ! p) = 0"
    using cases
    by (auto simp: NewBackend_def extends_heap_def same_cell_def cell_defs nth_append)
qed

lemma merge_loop_frame:
  "merge_loop h known cs = (h', ps) \<Longrightarrow> known_ok h known \<Longrightarrow>
     extends_heap h h' \<and> length ps = length cs
     \<and> (\<forall>q<length h. (\<forall>c\<in>set cs. known (bc_addr c) \<noteq> Some q) \<longrightarrow> h' ! q = h ! q)"
proof (induction cs arbitrary: h h' ps)
  case (Cons w cs)
  obtain h1 p where one: "merge_one h known w = (h1, p)" by fastforce
  obtain ps' where rest: "merge_loop h1 known cs = (h', ps')" and ps: "ps = p # ps'"
    using Cons.prems one by (auto split: prod.splits)
  note spec = merge_one_spec [OF one Cons.prems(2)]
  have ok1: "known_ok h1 known" using spec(1) Cons.prems(2) by (rule extends_heap_known)
  note IH = Cons.IH [OF rest ok1]
  have "h' ! q = h ! q" if q: "q < length h" "\<forall>c\<in>set (w # cs). known (bc_addr c) \<noteq> Some q" for q
  proof -
    have "q \<noteq> p" using q spec(6,7) by (cases "known (bc_addr w)") auto
    moreover have "q < length h1" using q spec(1) by (simp add: extends_heap_def)
    ultimately show ?thesis using IH spec(5) [of q] q by simp
  qed
  moreover have "extends_heap h h'" using spec(1) IH by (blast intro: extends_heap_trans)
  ultimately show ?case using IH ps by simp
qed simp

lemmas merge_loop_spec = merge_loop_frame [THEN conjunct1]
  merge_loop_frame [THEN conjunct2, THEN conjunct1]
  merge_loop_frame [THEN conjunct2, THEN conjunct2, rule_format]

lemma merge_loop_pool:
  assumes "merge_loop h known cs = (h', ps)" "known_ok h known" "distinct (map bc_addr cs)"
    and "i < length cs"
  shows "ps ! i < length h' \<and> addr_of h' (ps ! i) = bc_addr (cs ! i)
       \<and> b_weight (h' ! (ps ! i)) = bc_weight (cs ! i)
       \<and> (\<forall>q. known (bc_addr (cs ! i)) = Some q \<longrightarrow> ps ! i = q)
       \<and> (known (bc_addr (cs ! i)) = None \<longrightarrow> length h \<le> ps ! i \<and> b_active (h' ! (ps ! i)) = 0)"
  using assms
proof (induction cs arbitrary: h h' ps i)
  case (Cons w cs)
  obtain h1 p where one: "merge_one h known w = (h1, p)" by fastforce
  obtain ps' where rest: "merge_loop h1 known cs = (h', ps')" and ps: "ps = p # ps'"
    using Cons.prems(1) one by (auto split: prod.splits)
  note spec = merge_one_spec [OF one \<open>known_ok h known\<close>]
  have ok1: "known_ok h1 known" using spec(1) \<open>known_ok h known\<close> by (rule extends_heap_known)
  note loop = merge_loop_spec [OF rest ok1]
  show ?case
  proof (cases i)
    case 0
    have "\<forall>c\<in>set cs. known (bc_addr c) \<noteq> Some p"
    proof (intro ballI notI)
      fix c assume c: "c \<in> set cs" "known (bc_addr c) = Some p"
      then have "addr_of h1 p = bc_addr c" using ok1 by (simp add: known_ok_def)
      with spec(3) have "bc_addr w \<in> bc_addr ` set cs" using c(1) by (metis imageI)
      with Cons.prems(3) show False by simp
    qed
    with loop(3) spec(2) have "h' ! p = h1 ! p" by blast
    moreover have "p < length h'" using loop(1) spec(2) by (simp add: extends_heap_def)
    ultimately show ?thesis using spec(3,4,6,7) by (auto simp: 0 ps)
  next
    case (Suc j)
    have "length h \<le> length h1" using spec(1) by (simp add: extends_heap_def)
    with Cons.IH [OF rest ok1, of j] Cons.prems(3,4) show ?thesis by (auto simp: Suc ps)
  qed
qed simp

lemma known_ok_known_backends:
  "\<forall>p\<in>set existing. p < length h \<Longrightarrow> known_ok h (known_backends h existing)"
  by (auto simp: known_ok_def dest: known_backends_Some)

text \<open>
  C11: A reload keeps what is in flight. Over distinct addresses, the new pool has the configured
  addresses and weights in the configured order; a backend whose address survives is the same
  object, its count of requests in flight as it was; every other is new and idle; and a backend
  that left the configuration is untouched, so requests still on it can finish.
\<close>

lemma MergeBackends_reload:
  assumes "MergeBackends h existing configured = (h', pool)"
    and "\<forall>p\<in>set existing. p < length h" "distinct (map (addr_of h) existing)"
    and "distinct (map bc_addr configured)"
  shows "map (addr_of h') pool = map bc_addr configured
    \<and> map (Weight h') pool = map bc_weight configured
    \<and> (\<forall>p\<in>set existing. addr_of h p \<in> bc_addr ` set configured \<longrightarrow>
           p \<in> set pool \<and> ActiveConnections h' p = ActiveConnections h p)
    \<and> (\<forall>p\<in>set pool. p \<notin> set existing \<longrightarrow> length h \<le> p \<and> ActiveConnections h' p = 0)
    \<and> (\<forall>p\<in>set existing. addr_of h p \<notin> bc_addr ` set configured \<longrightarrow> h' ! p = h ! p)"
proof -
  let ?known = "known_backends h existing"
  have loop: "merge_loop h ?known configured = (h', pool)" using assms(1) by (simp add: MergeBackends_def)
  have ok: "known_ok h ?known" using assms(2) by (rule known_ok_known_backends)
  note frame = merge_loop_spec [OF loop ok]
  note at = merge_loop_pool [OF loop ok assms(4)]
  have lists: "map (addr_of h') pool = map bc_addr configured" "map (Weight h') pool = map bc_weight configured"
    using at frame(2) by (auto simp: list_eq_iff_nth_eq Weight_def)
  have kept: "p \<in> set pool \<and> ActiveConnections h' p = ActiveConnections h p"
    if p: "p \<in> set existing" "addr_of h p \<in> bc_addr ` set configured" for p
  proof -
    obtain i where i: "i < length configured" "bc_addr (configured ! i) = addr_of h p"
      using p(2) by (auto simp: in_set_conv_nth)
    have "?known (addr_of h p) = Some p" using assms(3) p(1) by (rule known_backends_distinct)
    then have "pool ! i = p" using at [OF i(1)] i(2) by simp
    moreover have "same_cell (h ! p) (h' ! p)" using frame(1) assms(2) p(1) by (simp add: extends_heap_def)
    ultimately show ?thesis
      using i(1) frame(2) by (auto simp: same_cell_def ActiveConnections_def intro: nth_mem)
  qed
  have fresh: "length h \<le> p \<and> ActiveConnections h' p = 0" if p: "p \<in> set pool" "p \<notin> set existing" for p
  proof -
    obtain i where i: "i < length configured" "pool ! i = p"
      using p(1) frame(2) by (auto simp: in_set_conv_nth)
    have "?known (bc_addr (configured ! i)) = None"
    proof (rule ccontr)
      assume "?known (bc_addr (configured ! i)) \<noteq> None"
      then obtain q where q: "?known (bc_addr (configured ! i)) = Some q" by blast
      then have "p = q" using at [OF i(1)] i(2) by simp
      with q p(2) show False by (auto dest: known_backends_Some)
    qed
    then show ?thesis using at [OF i(1)] i(2) by (simp add: ActiveConnections_def)
  qed
  have gone: "h' ! p = h ! p" if p: "p \<in> set existing" "addr_of h p \<notin> bc_addr ` set configured" for p
  proof (rule frame(3))
    show "p < length h" using assms(2) p(1) by simp
    show "?known (bc_addr c) \<noteq> Some p" if "c \<in> set configured" for c
      using that p(2) by (auto dest: known_backends_Some)
  qed
  show ?thesis using lists kept fresh gone by blast
qed

text \<open>One of two backends leaves while it serves, the other gets a new weight, a third joins.\<close>

definition ex_reload :: "heap \<times> bref list" where
  "ex_reload = MergeBackends
     [\<lparr>b_addr = ''a'', b_weight = 1, b_active = 7, b_hash = 0\<rparr>,
      \<lparr>b_addr = ''b'', b_weight = 1, b_active = 2, b_hash = 0\<rparr>] [0, 1]
     [\<lparr>bc_addr = ''c'', bc_weight = 4\<rparr>, \<lparr>bc_addr = ''b'', bc_weight = 5\<rparr>]"

lemma MergeBackends_reload_witness:
  "map (addr_of (fst ex_reload)) (snd ex_reload) = [''c'', ''b'']
   \<and> 1 \<in> set (snd ex_reload) \<and> ActiveConnections (fst ex_reload) 1 = 2
   \<and> ActiveConnections (fst ex_reload) 0 = 7"
proof -
  obtain h' pool where m: "ex_reload = (h', pool)" by fastforce
  show ?thesis
    using MergeBackends_reload [OF m [unfolded ex_reload_def]] by (simp add: m ActiveConnections_def)
qed

subsection \<open>What every strategy promises\<close>

text \<open>
  \<open>LBStrategy\<close>: \<open>Select\<close> returns a backend of those it is given, or \<open>ErrNoBackends\<close>
  when there are none. A pointer may be nil in Go: \<open>Inr None\<close> is a nil backend without an error,
  and \<open>Inl NilBackend\<close> is the panic of reading through a nil backend, which is not an error value
  but ends the call.
  \<open>tape\<close> holds the numbers the random source will give; the strategies that draw none return it
  as it was.
\<close>

datatype select_error = ErrNoBackends | NilBackend

type_synonym choice = "select_error + bref option"
type_synonym tape = "nat list"

abbreviation chose :: "bref \<Rightarrow> choice" where
  "chose p \<equiv> Inr (Some p)"

locale lb_strategy =
  fixes select :: "'s \<Rightarrow> tape \<Rightarrow> heap \<Rightarrow> bref list \<Rightarrow> choice \<times> 's \<times> tape"
  assumes select_empty: "fst (select s t h []) = Inl ErrNoBackends"
    and select_member: "bs \<noteq> [] \<Longrightarrow> \<exists>p\<in>set bs. fst (select s t h bs) = chose p"
begin

lemma select_error_iff: "fst (select s t h bs) = Inl e \<longleftrightarrow> bs = [] \<and> e = ErrNoBackends"
  using select_empty select_member [of bs s t h] by (cases "bs = []") auto

lemma select_never_nil: "fst (select s t h bs) \<noteq> Inr None"
  using select_empty [of s t h] select_member [of bs s t h] by (cases "bs = []") auto

lemma select_in: "fst (select s t h bs) = chose p \<Longrightarrow> p \<in> set bs"
  using select_empty [of s t h] select_member [of bs s t h] by (cases "bs = []") auto

lemma select_singleton: "fst (select s t h [p]) = chose p"
  using select_member [of "[p]" s t h] by auto

text \<open>A backend left out of the candidates is not chosen: a retry goes elsewhere.\<close>

lemma select_untried: "fst (select s t h (filter (\<lambda>q. q \<notin> tried) bs)) = chose p \<Longrightarrow> p \<notin> tried"
  by (drule select_in) simp

end

end
