(* ===== verification/Round_Robin.thy ===== *)
theory Round_Robin
  imports Backends
begin

text \<open>
  \<open>internal/balancer/roundrobin.go\<close>. The strategy is its counter, an \<open>atomic.Uint64\<close> that
  wraps around. The lemmas: the choice is the counter's value modulo the size of the pool; as long as
  the counter does not wrap, any run of \<open>k\<close> turns per backend gives every backend exactly \<open>k\<close>;
  a retry reads the counter without moving it.
\<close>

definition RoundRobin_Select :: "u64 \<Rightarrow> bref list \<Rightarrow> choice \<times> u64" where
  "RoundRobin_Select next bs =
     (if bs = [] then (Inl ErrNoBackends, next)
      else (let next' = next + 1; index = (next' - 1) mod of_nat (length bs)
            in (chose (bs ! unat index), next')))"

definition RoundRobin_SelectRetry :: "u64 \<Rightarrow> bref list \<Rightarrow> choice" where
  "RoundRobin_SelectRetry next bs =
     (if bs = [] then Inl ErrNoBackends
      else chose (bs ! unat (next mod of_nat (length bs))))"

text \<open>Successive selections from one pool.\<close>

fun RoundRobin_run :: "u64 \<Rightarrow> bref list \<Rightarrow> nat \<Rightarrow> choice list" where
  "RoundRobin_run next bs 0 = []"
| "RoundRobin_run next bs (Suc n) =
     (case RoundRobin_Select next bs of (c, next') \<Rightarrow> c # RoundRobin_run next' bs n)"

lemma unat_mod_length:
  fixes w :: u64
  assumes "0 < n" "n < 2 ^ 64"
  shows "unat (w mod of_nat n) = unat w mod n"
proof -
  have "unat (of_nat n :: u64) = n" using assms(2) by (simp add: unat_of_nat)
  then show ?thesis by (simp add: unat_mod_distrib)
qed

lemma unat_mod_small:
  fixes w :: u64
  assumes "bs \<noteq> []" "length bs < 2 ^ 64"
  shows "unat (w mod of_nat (length bs)) < length bs"
  using assms unat_mod_length [of "length bs" w] by simp

text \<open>
  A slice of \<open>2 ^ 64\<close> or more pointers does not fit in memory; for such a list the index is
  still within it.
\<close>

lemma unat_mod_in_range:
  fixes w :: u64
  assumes "bs \<noteq> []"
  shows "unat (w mod of_nat (length bs)) < length bs"
proof (cases "length bs < 2 ^ 64")
  case True
  with assms show ?thesis by (rule unat_mod_small)
next
  case False
  have "unat (w mod of_nat (length bs)) < 2 ^ 64"
    using unsigned_less [of "w mod of_nat (length bs)", where ?'a = nat] by simp
  with False show ?thesis by simp
qed

lemma RoundRobin_Select_index:
  assumes "bs \<noteq> []" "length bs < 2 ^ 64"
  shows "RoundRobin_Select next bs = (chose (bs ! (unat next mod length bs)), next + 1)"
  using assms by (simp add: RoundRobin_Select_def unat_mod_length)

lemma RoundRobin_SelectRetry_index:
  assumes "bs \<noteq> []" "length bs < 2 ^ 64"
  shows "RoundRobin_SelectRetry next bs = chose (bs ! (unat next mod length bs))"
  using assms by (simp add: RoundRobin_SelectRetry_def unat_mod_length)

lemma RoundRobin_Select_member:
  "bs \<noteq> [] \<Longrightarrow> \<exists>p\<in>set bs. fst (RoundRobin_Select next bs) = chose p"
  by (simp add: RoundRobin_Select_def unat_mod_in_range)

lemma RoundRobin_SelectRetry_member:
  "bs \<noteq> [] \<Longrightarrow> \<exists>p\<in>set bs. RoundRobin_SelectRetry next bs = chose p"
  by (simp add: RoundRobin_SelectRetry_def unat_mod_in_range)

interpretation rr: lb_strategy
  "\<lambda>next t h bs. (fst (RoundRobin_Select next bs), snd (RoundRobin_Select next bs), t :: tape)"
  by unfold_locales (auto simp: RoundRobin_Select_member, simp add: RoundRobin_Select_def)

interpretation rr_retry: lb_strategy
  "\<lambda>next t h bs. (RoundRobin_SelectRetry next bs, next :: u64, t :: tape)"
  by unfold_locales (auto simp: RoundRobin_SelectRetry_member, simp add: RoundRobin_SelectRetry_def)

subsection \<open>Equal shares\<close>

lemma unat_Suc_no_wrap: "unat (w :: u64) + 1 < 2 ^ 64 \<Longrightarrow> unat (w + 1) = Suc (unat w)"
  by (simp add: unat_word_ariths)

lemma RoundRobin_run_map:
  assumes "bs \<noteq> []" "length bs < 2 ^ 64" "unat next + n \<le> 2 ^ 64"
  shows "RoundRobin_run next bs n =
     map (\<lambda>i. chose (bs ! (i mod length bs))) [unat next..<unat next + n]"
  using assms(3)
proof (induction n arbitrary: "next")
  case 0
  then show ?case by simp
next
  case (Suc n)
  have first: "RoundRobin_Select next bs = (chose (bs ! (unat next mod length bs)), next + 1)"
    using assms(1,2) by (rule RoundRobin_Select_index)
  show ?case
  proof (cases n)
    case 0
    then show ?thesis by (simp add: first)
  next
    case (Suc m)
    then have u: "unat (next + 1) = Suc (unat next)"
      using Suc.prems by (intro unat_Suc_no_wrap) simp
    have "RoundRobin_run (next + 1) bs n =
       map (\<lambda>i. chose (bs ! (i mod length bs))) [unat (next + 1)..<unat (next + 1) + n]"
      using Suc.prems u by (intro Suc.IH) simp
    then show ?thesis by (simp add: first u upt_rec [of "unat next"])
  qed
qed

text \<open>Every residue occurs once among \<open>n\<close> consecutive numbers.\<close>

lemma count_mod_window:
  fixes n c j :: nat
  assumes "j < n"
  shows "length (filter (\<lambda>i. i mod n = j) [c..<c + n]) = 1"
proof (induction c)
  case 0
  have "set (filter (\<lambda>i. i mod n = j) [0..<n]) = {j}" using assms by auto
  then show ?case using distinct_card [of "filter (\<lambda>i. i mod n = j) [0..<n]"] by simp
next
  case (Suc c)
  have n: "0 < n" using assms by simp
  have a: "[c..<c + n] = c # [Suc c..<c + n]" using n by (simp add: upt_rec)
  have b: "[Suc c..<Suc c + n] = [Suc c..<c + n] @ [c + n]" using n by simp
  show ?case using Suc unfolding a b by (auto split: if_splits)
qed

lemma count_mod_block:
  fixes n k c j :: nat
  assumes "j < n"
  shows "length (filter (\<lambda>i. i mod n = j) [c..<c + k * n]) = k"
proof (induction k)
  case 0
  then show ?case by simp
next
  case (Suc k)
  have "[c..<c + Suc k * n] = [c..<c + k * n] @ [c + k * n..<(c + k * n) + n]"
    using upt_add_eq_append [of c "c + k * n" n] by (simp add: algebra_simps)
  then show ?case using Suc count_mod_window [OF assms, of "c + k * n"] by simp
qed

text \<open>
  C34: Whatever the counter stands at, any run of \<open>k\<close> turns per backend in which the counter does
  not wrap gives every backend of the pool exactly \<open>k\<close> requests.
\<close>

lemma RoundRobin_run_fair:
  assumes "distinct bs" "p \<in> set bs" "length bs < 2 ^ 64"
    and "unat next + k * length bs \<le> 2 ^ 64"
  shows "count_list (RoundRobin_run next bs (k * length bs)) (chose p) = k"
proof -
  obtain j where j: "j < length bs" "bs ! j = p" using assms(2) by (auto simp: in_set_conv_nth)
  have bs: "bs \<noteq> []" using assms(2) by auto
  have here: "p = bs ! (i mod length bs) \<longleftrightarrow> i mod length bs = j" for i
    using nth_eq_iff_index_eq [OF assms(1), of "i mod length bs" j] j bs by auto
  have "count_list (RoundRobin_run next bs (k * length bs)) (chose p)
      = length (filter (\<lambda>i. i mod length bs = j) [unat next..<unat next + k * length bs])"
    unfolding RoundRobin_run_map [OF bs assms(3,4)]
    by (simp add: count_list_eq_length_filter filter_map o_def here)
  also have "\<dots> = k" by (rule count_mod_block [OF j(1)])
  finally show ?thesis .
qed

lemma RoundRobin_run_fair_witness: "count_list (RoundRobin_run 7 [4, 0, 2] (5 * 3)) (chose 2) = 5"
proof -
  have "unat (7 :: u64) + 5 * length [4, 0, 2 :: bref] \<le> 2 ^ 64" by simp
  from RoundRobin_run_fair [of "[4, 0, 2]" 2, OF _ _ _ this] show ?thesis by simp
qed

text \<open>
  Where the counter wraps, the walk restarts at the first backend, wherever it was: on a pool
  whose size does not divide \<open>2 ^ 64\<close>, the rotation slips there.
\<close>

lemma RoundRobin_wrap:
  assumes "bs \<noteq> []" "length bs < 2 ^ 64"
  shows "RoundRobin_run (- 1) bs 2 = [chose (bs ! ((2 ^ 64 - 1) mod length bs)), chose (bs ! 0)]"
proof -
  have "unat (- 1 :: u64) = 2 ^ 64 - 1" by (simp add: unsigned_minus_1_eq_mask mask_eq_exp_minus_1)
  with assms show ?thesis
    by (simp add: numeral_2_eq_2 RoundRobin_Select_index)
qed

lemma RoundRobin_wrap_witness:
  "RoundRobin_run (- 1) [5, 6, 7] 2 = [chose ([5, 6, 7] ! ((2 ^ 64 - 1) mod length [5, 6, 7 :: bref])), chose ([5, 6, 7] ! 0)]"
  by (rule RoundRobin_wrap) simp_all

end
