(* ===== verification/Weighted_Round_Robin.thy ===== *)
theory Weighted_Round_Robin
  imports Backends
begin

text \<open>
  \<open>internal/balancer/weightedroundrobin.go\<close>. The strategy is its credits, a map from addresses to
  integers in which an absent address reads as zero, as Go's map does. The lemmas: one selection
  pays every candidate its weight and charges the chosen one the total, the chosen one having the
  most credit; the credits of a pool always add up to zero and none falls to minus the total, so
  that after as many turns as the weights add up to, every backend has served exactly its weight
  and every credit is back to zero. Credits and total are Go \<open>int\<close>s, and wrap: the laws need
  weights whose sum times the number of backends fits (\<open>small_weights\<close>), and the last section shows
  what weights the configuration accepts but the arithmetic cannot hold do.
\<close>

type_synonym credits = "string \<Rightarrow> int"

definition NewWeightedRoundRobin :: credits where
  "NewWeightedRoundRobin = (\<lambda>_. 0)"

definition turn_weight :: "heap \<Rightarrow> bref \<Rightarrow> int" where
  "turn_weight h p = (let weight = Weight h p in if weight < 1 then 1 else weight)"

fun wrr_loop :: "heap \<Rightarrow> bref list \<Rightarrow> credits \<Rightarrow> bref option \<Rightarrow> int \<Rightarrow> credits \<times> bref option \<times> int" where
  "wrr_loop h [] credit chosen totalWeight = (credit, chosen, totalWeight)"
| "wrr_loop h (p # ps) credit chosen totalWeight =
     (let weight = turn_weight h p;
          credit' = credit(addr_of h p := wrap64 (credit (addr_of h p) + weight));
          chosen' = (case chosen of
                       None \<Rightarrow> Some p
                     | Some c \<Rightarrow> if credit' (addr_of h p) > credit' (addr_of h c) then Some p else chosen)
      in wrr_loop h ps credit' chosen' (wrap64 (totalWeight + weight)))"

definition WeightedRoundRobin_Select :: "credits \<Rightarrow> heap \<Rightarrow> bref list \<Rightarrow> choice \<times> credits" where
  "WeightedRoundRobin_Select credit h bs =
     (if bs = [] then (Inl ErrNoBackends, credit)
      else case wrr_loop h bs credit None 0 of
             (credit', Some p, totalWeight) \<Rightarrow>
               (chose p, credit'(addr_of h p := wrap64 (credit' (addr_of h p) - totalWeight)))
           | (credit', None, totalWeight) \<Rightarrow> (Inr None, credit'))"

fun WeightedRoundRobin_run :: "heap \<Rightarrow> bref list \<Rightarrow> nat \<Rightarrow> credits \<Rightarrow> choice list \<times> credits" where
  "WeightedRoundRobin_run h bs 0 credit = ([], credit)"
| "WeightedRoundRobin_run h bs (Suc n) credit =
     (case WeightedRoundRobin_Select credit h bs of (c, credit1) \<Rightarrow>
        (case WeightedRoundRobin_run h bs n credit1 of (cs, credit') \<Rightarrow> (c # cs, credit')))"

subsection \<open>One selection\<close>

lemma turn_weight_pos: "1 \<le> turn_weight h p"
  by (simp add: turn_weight_def Let_def)

definition pool_weight :: "heap \<Rightarrow> bref list \<Rightarrow> int" where
  "pool_weight h bs = sum_list (map (turn_weight h) bs)"

lemma pool_weight_pos: "bs \<noteq> [] \<Longrightarrow> 0 < pool_weight h bs"
proof (induction bs)
  case (Cons p bs)
  then show ?case using turn_weight_pos [of h p] by (cases "bs = []") (auto simp: pool_weight_def)
qed simp

lemma wrr_loop_chosen:
  "\<exists>c. fst (snd (wrr_loop h bs credit chosen totalWeight)) = c \<and>
       (chosen \<noteq> None \<or> bs \<noteq> [] \<longrightarrow> (\<exists>p\<in>set bs \<union> set_option chosen. c = Some p))"
proof (induction bs arbitrary: credit chosen totalWeight)
  case (Cons p bs)
  show ?case
    using Cons.IH [where chosen = "Some p"] Cons.IH [where chosen = chosen]
    by (cases chosen) (auto simp: Let_def)
qed auto

lemma WeightedRoundRobin_Select_member:
  assumes "bs \<noteq> []"
  shows "\<exists>p\<in>set bs. fst (WeightedRoundRobin_Select credit h bs) = chose p"
  using assms wrr_loop_chosen [of h bs credit None 0]
  by (auto simp: WeightedRoundRobin_Select_def split: prod.splits)

interpretation wrr: lb_strategy
  "\<lambda>credit t h bs. (fst (WeightedRoundRobin_Select credit h bs),
     snd (WeightedRoundRobin_Select credit h bs), t :: tape)"
  by unfold_locales (auto simp: WeightedRoundRobin_Select_member, simp add: WeightedRoundRobin_Select_def)

text \<open>The same selection in integers without a width, and where the two agree.\<close>

fun wide_loop :: "heap \<Rightarrow> bref list \<Rightarrow> credits \<Rightarrow> bref option \<Rightarrow> int \<Rightarrow> credits \<times> bref option \<times> int" where
  "wide_loop h [] credit chosen totalWeight = (credit, chosen, totalWeight)"
| "wide_loop h (p # ps) credit chosen totalWeight =
     (let credit' = credit(addr_of h p := credit (addr_of h p) + turn_weight h p);
          chosen' = (case chosen of
                       None \<Rightarrow> Some p
                     | Some c \<Rightarrow> if credit' (addr_of h p) > credit' (addr_of h c) then Some p else chosen)
      in wide_loop h ps credit' chosen' (totalWeight + turn_weight h p))"

lemma pool_weight_ge_0: "0 \<le> pool_weight h bs"
  using pool_weight_pos [of bs h] by (cases "bs = []") (auto simp: pool_weight_def)

lemma turn_weight_le_pool: "p \<in> set bs \<Longrightarrow> turn_weight h p \<le> pool_weight h bs"
proof (induction bs)
  case (Cons b bs)
  then show ?case
    using pool_weight_ge_0 [of h bs] turn_weight_pos [of h b]
    by (auto simp: pool_weight_def)
qed simp

lemma wrr_loop_wide:
  assumes "distinct (map (addr_of h) bs)" "0 \<le> totalWeight" "totalWeight + pool_weight h bs < 2 ^ 63"
    and "\<And>p. p \<in> set bs \<Longrightarrow> - (2 ^ 63) \<le> credit (addr_of h p)
           \<and> credit (addr_of h p) + turn_weight h p < 2 ^ 63"
  shows "wrr_loop h bs credit chosen totalWeight = wide_loop h bs credit chosen totalWeight"
  using assms
proof (induction bs arbitrary: credit chosen totalWeight)
  case (Cons b bs)
  have rest: "0 \<le> pool_weight h bs" by (rule pool_weight_ge_0)
  have total: "wrap64 (totalWeight + turn_weight h b) = totalWeight + turn_weight h b"
    using Cons.prems(2,3) rest turn_weight_pos [of h b] by (intro wrap64_id) (auto simp: pool_weight_def)
  have paid: "wrap64 (credit (addr_of h b) + turn_weight h b) = credit (addr_of h b) + turn_weight h b"
    using Cons.prems(4) [of b] turn_weight_pos [of h b] by (intro wrap64_id) auto
  have step: "wrr_loop h bs (credit(addr_of h b := credit (addr_of h b) + turn_weight h b)) c
        (totalWeight + turn_weight h b) =
      wide_loop h bs (credit(addr_of h b := credit (addr_of h b) + turn_weight h b)) c
        (totalWeight + turn_weight h b)" for c
  proof (rule Cons.IH)
    show "distinct (map (addr_of h) bs)" using Cons.prems(1) by simp
    show "0 \<le> totalWeight + turn_weight h b" using Cons.prems(2) turn_weight_pos [of h b] by simp
    show "totalWeight + turn_weight h b + pool_weight h bs < 2 ^ 63"
      using Cons.prems(3) by (simp add: pool_weight_def algebra_simps)
    fix p assume p: "p \<in> set bs"
    then have "addr_of h p \<in> addr_of h ` set bs" by (rule imageI)
    then have "addr_of h p \<noteq> addr_of h b" using Cons.prems(1) by auto
    with p show "- (2 ^ 63) \<le> (credit(addr_of h b := credit (addr_of h b) + turn_weight h b)) (addr_of h p)
        \<and> (credit(addr_of h b := credit (addr_of h b) + turn_weight h b)) (addr_of h p) + turn_weight h p < 2 ^ 63"
      using Cons.prems(4) [of p] by simp
  qed
  show ?case by (simp only: wrr_loop.simps wide_loop.simps Let_def total paid step)
qed simp

lemma wide_loop_total: "snd (snd (wide_loop h bs credit chosen totalWeight)) = totalWeight + pool_weight h bs"
  by (induction bs arbitrary: credit chosen totalWeight) (simp_all add: Let_def pool_weight_def)

lemma wide_loop_credit:
  "distinct (map (addr_of h) bs) \<Longrightarrow>
   fst (wide_loop h bs credit chosen totalWeight) a =
     credit a + (\<Sum>p\<leftarrow>bs. if addr_of h p = a then turn_weight h p else 0)"
  by (induction bs arbitrary: credit chosen totalWeight) (auto simp: Let_def)

lemma sum_list_delta:
  "distinct (map f xs) \<Longrightarrow> x \<in> set xs \<Longrightarrow> (\<Sum>y\<leftarrow>xs. if f y = f x then g y else (0 :: int)) = g x"
proof (induction xs)
  case (Cons y ys)
  show ?case
  proof (cases "x \<in> set ys")
    case False
    with Cons.prems have "x = y" by simp
    moreover have "map (\<lambda>z. if f z = f y then g z else 0) ys = map (\<lambda>_. 0) ys"
    proof (rule map_cong [OF refl])
      fix z assume "z \<in> set ys"
      then have "f z \<noteq> f y" using Cons.prems(1) by (metis distinct.simps(2) image_eqI list.simps(9) set_map)
      then show "(if f z = f y then g z else 0) = 0" by simp
    qed
    ultimately show ?thesis by (simp del: map_eq_conv)
  next
    case True
    then have "f y \<noteq> f x" using Cons.prems(1) by force
    with Cons True show ?thesis by simp
  qed
qed simp

lemma wide_loop_credit_in:
  "distinct (map (addr_of h) bs) \<Longrightarrow> p \<in> set bs \<Longrightarrow>
   fst (wide_loop h bs credit chosen totalWeight) (addr_of h p) = credit (addr_of h p) + turn_weight h p"
  using sum_list_delta [of "addr_of h" bs p "turn_weight h"] by (simp add: wide_loop_credit)

lemma wide_loop_credit_out:
  "a \<notin> addr_of h ` set bs \<Longrightarrow> fst (wide_loop h bs credit chosen totalWeight) a = credit a"
  by (induction bs arbitrary: credit chosen totalWeight) (auto simp: Let_def)

text \<open>The running maximum of the loop is the maximum of the credits it ends with.\<close>

lemma wide_loop_max:
  assumes "distinct (map (addr_of h) (case chosen of None \<Rightarrow> bs | Some c \<Rightarrow> c # bs))"
    and "fst (snd (wide_loop h bs credit chosen totalWeight)) = Some p"
    and "q \<in> set bs \<union> set_option chosen"
  shows "fst (wide_loop h bs credit chosen totalWeight) (addr_of h q)
       \<le> fst (wide_loop h bs credit chosen totalWeight) (addr_of h p)"
  using assms
proof (induction bs arbitrary: credit chosen totalWeight q)
  case Nil
  then show ?case by (auto split: option.splits)
next
  case (Cons b bs)
  define credit' where "credit' = credit(addr_of h b := credit (addr_of h b) + turn_weight h b)"
  define chosen' where "chosen' = (case chosen of None \<Rightarrow> Some b
     | Some c \<Rightarrow> if credit' (addr_of h b) > credit' (addr_of h c) then Some b else chosen)"
  have step: "wide_loop h (b # bs) credit chosen totalWeight =
      wide_loop h bs credit' chosen' (totalWeight + turn_weight h b)"
    unfolding chosen'_def credit'_def by (simp add: Let_def)
  have dist: "distinct (map (addr_of h) (case chosen' of None \<Rightarrow> bs | Some c \<Rightarrow> c # bs))"
    using Cons.prems(1) by (auto simp: chosen'_def split: option.splits)
  note IH = Cons.IH [OF dist Cons.prems(2) [unfolded step]]
  show ?case
  proof (cases "q \<in> set bs \<union> set_option chosen'")
    case True
    then show ?thesis unfolding step by (rule IH)
  next
    case False
    \<comment> \<open>\<open>q\<close> lost the comparison against the backend that is chosen now\<close>
    obtain c where c: "chosen' = Some c" by (cases chosen) (simp add: chosen'_def, cases "credit' (addr_of h (the chosen)) < credit' (addr_of h b)", auto simp: chosen'_def)
    have out: "addr_of h q \<notin> addr_of h ` set bs" "addr_of h c \<notin> addr_of h ` set bs"
      using Cons.prems False c by (auto simp: chosen'_def split: option.splits if_splits)
    have "credit' (addr_of h q) \<le> credit' (addr_of h c)"
      using Cons.prems(3) False c by (auto simp: chosen'_def split: option.splits if_splits)
    then have "fst (wide_loop h bs credit' chosen' (totalWeight + turn_weight h b)) (addr_of h q)
        \<le> fst (wide_loop h bs credit' chosen' (totalWeight + turn_weight h b)) (addr_of h c)"
      by (simp only: wide_loop_credit_out [OF out(1)] wide_loop_credit_out [OF out(2)])
    also have "\<dots> \<le> fst (wide_loop h bs credit' chosen' (totalWeight + turn_weight h b)) (addr_of h p)"
      using c by (intro IH) simp
    finally show ?thesis unfolding step .
  qed
qed

text \<open>The contract of one selection, as long as neither the total nor a credit leaves its 64 bits.\<close>

definition credits_fit :: "heap \<Rightarrow> bref list \<Rightarrow> credits \<Rightarrow> bool" where
  "credits_fit h bs credit \<longleftrightarrow> pool_weight h bs < 2 ^ 63
     \<and> (\<forall>p\<in>set bs. - (2 ^ 63) \<le> credit (addr_of h p) + turn_weight h p - pool_weight h bs
          \<and> credit (addr_of h p) + turn_weight h p < 2 ^ 63)"

lemma WeightedRoundRobin_Select_spec:
  assumes "distinct (map (addr_of h) bs)" "bs \<noteq> []" "credits_fit h bs credit"
    and "WeightedRoundRobin_Select credit h bs = (c, credit')"
  obtains p where "c = chose p" "p \<in> set bs"
    and "\<And>q. q \<in> set bs \<Longrightarrow> credit' (addr_of h q) = credit (addr_of h q) + turn_weight h q
           - (if q = p then pool_weight h bs else 0)"
    and "\<And>a. a \<notin> addr_of h ` set bs \<Longrightarrow> credit' a = credit a"
    and "\<And>q. q \<in> set bs \<Longrightarrow> credit (addr_of h q) + turn_weight h q
           \<le> credit (addr_of h p) + turn_weight h p"
proof -
  obtain cr x tot where l: "wrr_loop h bs credit None 0 = (cr, x, tot)" by (metis prod_cases3)
  from wrr_loop_chosen [of h bs credit None 0] assms(2) l
  obtain p where p: "p \<in> set bs" "x = Some p" by auto
  have "wrr_loop h bs credit None 0 = wide_loop h bs credit None 0"
  proof (rule wrr_loop_wide [OF assms(1)])
    show "(0 :: int) \<le> 0" "0 + pool_weight h bs < 2 ^ 63" using assms(3) by (simp_all add: credits_fit_def)
    show "- (2 ^ 63) \<le> credit (addr_of h q) \<and> credit (addr_of h q) + turn_weight h q < 2 ^ 63"
      if "q \<in> set bs" for q
      using bspec [OF conjunct2 [OF assms(3) [unfolded credits_fit_def]] that] turn_weight_le_pool [OF that, of h]
      by linarith
  qed
  with l have w: "wide_loop h bs credit None 0 = (cr, x, tot)" by simp
  have tot: "tot = pool_weight h bs" using wide_loop_total [of h bs credit None 0] w by simp
  have cr: "cr (addr_of h q) = credit (addr_of h q) + turn_weight h q" if "q \<in> set bs" for q
    using wide_loop_credit_in [OF assms(1) that, of credit None 0] w by simp
  have "wrap64 (cr (addr_of h p) - tot) = cr (addr_of h p) - tot"
    using assms(3) p(1) pool_weight_ge_0 [of h bs] unfolding cr [OF p(1)] tot credits_fit_def
    by (intro wrap64_id) auto
  then have res: "c = chose p" "credit' = cr(addr_of h p := cr (addr_of h p) - tot)"
    using assms(2,4) l p by (auto simp: WeightedRoundRobin_Select_def)
  have eq: "addr_of h q = addr_of h p \<longleftrightarrow> q = p" if "q \<in> set bs" for q
    using assms(1) that p by (auto simp: distinct_map dest: inj_onD)
  show ?thesis
  proof (rule that)
    show "c = chose p" "p \<in> set bs" using res p by auto
    show "credit' (addr_of h q) = credit (addr_of h q) + turn_weight h q
           - (if q = p then pool_weight h bs else 0)" if "q \<in> set bs" for q
      using res tot cr [OF that] eq [OF that] by auto
    show "credit' a = credit a" if "a \<notin> addr_of h ` set bs" for a
    proof -
      have "cr a = credit a" using wide_loop_credit_out [OF that, of credit None 0] w by simp
      moreover have "a \<noteq> addr_of h p" using that p by auto
      ultimately show ?thesis using res by simp
    qed
    show "credit (addr_of h q) + turn_weight h q \<le> credit (addr_of h p) + turn_weight h p"
      if "q \<in> set bs" for q
      using wide_loop_max [where h = h and chosen = None and bs = bs and p = p and q = q
          and credit = credit and totalWeight = 0] assms(1) that w p cr by simp
  qed
qed

subsection \<open>The invariant of the credits\<close>

definition credits_ok :: "heap \<Rightarrow> bref list \<Rightarrow> credits \<Rightarrow> bool" where
  "credits_ok h bs credit \<longleftrightarrow> (\<Sum>p\<leftarrow>bs. credit (addr_of h p)) = 0
     \<and> (\<forall>p\<in>set bs. - pool_weight h bs < credit (addr_of h p))"

definition small_weights :: "heap \<Rightarrow> bref list \<Rightarrow> bool" where
  "small_weights h bs \<longleftrightarrow> int (length bs) * pool_weight h bs < 2 ^ 63"

lemma sum_list_lower:
  "(\<And>x. x \<in> set xs \<Longrightarrow> - w \<le> f x) \<Longrightarrow> - (int (length xs) * w) \<le> (\<Sum>x\<leftarrow>xs. f x :: int)"
proof (induction xs)
  case (Cons x xs)
  have "- (int (length xs) * w) \<le> (\<Sum>y\<leftarrow>xs. f y)" using Cons.prems by (intro Cons.IH) simp
  then show ?case using Cons.prems [of x] by (simp add: algebra_simps)
qed simp

text \<open>Credits that balance stay within 64 bits when the weights are small.\<close>

lemma credits_ok_fit:
  assumes "credits_ok h bs credit" "small_weights h bs"
  shows "credits_fit h bs credit"
proof -
  let ?W = "pool_weight h bs" and ?n = "int (length bs)"
  have W: "0 \<le> ?W" by (rule pool_weight_ge_0)
  have one: "bs = [] \<or> 1 \<le> ?n" by (cases bs) auto
  then have "?W \<le> ?n * ?W" using W mult_right_mono [of 1 ?n ?W] by (auto simp: pool_weight_def)
  then have fit: "?W < 2 ^ 63" using assms(2) by (simp add: small_weights_def)
  have "- (2 ^ 63) \<le> credit (addr_of h p) + turn_weight h p - ?W
      \<and> credit (addr_of h p) + turn_weight h p < 2 ^ 63" if p: "p \<in> set bs" for p
  proof -
    obtain us vs where bs: "bs = us @ p # vs" using p by (meson split_list)
    have above: "- ?W \<le> credit (addr_of h q)" if "q \<in> set bs" for q
      using assms(1) that by (auto simp: credits_ok_def)
    have "- (int (length (us @ vs)) * ?W) \<le> (\<Sum>q\<leftarrow>us @ vs. credit (addr_of h q))"
      using above by (intro sum_list_lower) (auto simp: bs)
    moreover have "(\<Sum>q\<leftarrow>bs. credit (addr_of h q)) = 0" using assms(1) by (simp add: credits_ok_def)
    ultimately have "credit (addr_of h p) \<le> int (length (us @ vs)) * ?W" by (simp add: bs)
    then have "credit (addr_of h p) + ?W \<le> ?n * ?W" by (simp add: bs algebra_simps)
    then have up: "credit (addr_of h p) + turn_weight h p < 2 ^ 63"
      using assms(2) turn_weight_le_pool [OF p, of h] by (simp add: small_weights_def)
    have "- (2 ^ 63) \<le> credit (addr_of h p) - ?W"
    proof (cases "us @ vs = []")
      case True
      then have "credit (addr_of h p) = 0" using assms(1) by (simp add: credits_ok_def bs)
      then show ?thesis using fit by simp
    next
      case False
      then have "2 \<le> ?n" by (cases us; cases vs) (auto simp: bs)
      then have "2 * ?W \<le> ?n * ?W" using W by (rule mult_right_mono)
      then show ?thesis using assms(2) above [OF p] by (simp add: small_weights_def)
    qed
    with up show ?thesis using turn_weight_pos [of h p] by linarith
  qed
  with fit show ?thesis by (simp add: credits_fit_def)
qed

lemma sum_list_single:
  "distinct xs \<Longrightarrow> x \<in> set xs \<Longrightarrow> (\<Sum>y\<leftarrow>xs. if y = x then c else (0 :: int)) = c"
  using sum_list_delta [of id xs x "\<lambda>_. c"] by simp

lemma credits_ok_Select:
  assumes "distinct (map (addr_of h) bs)" "small_weights h bs" "credits_ok h bs credit"
  shows "credits_ok h bs (snd (WeightedRoundRobin_Select credit h bs))"
proof (cases "bs = []")
  case True
  then show ?thesis by (simp add: credits_ok_def)
next
  case False
  note fit = credits_ok_fit [OF assms(3,2)]
  obtain c credit' where sel: "WeightedRoundRobin_Select credit h bs = (c, credit')" by fastforce
  obtain p where p: "p \<in> set bs"
    and paid: "\<And>q. q \<in> set bs \<Longrightarrow> credit' (addr_of h q) = credit (addr_of h q) + turn_weight h q
           - (if q = p then pool_weight h bs else 0)"
    and most: "\<And>q. q \<in> set bs \<Longrightarrow> credit (addr_of h q) + turn_weight h q
           \<le> credit (addr_of h p) + turn_weight h p"
    using WeightedRoundRobin_Select_spec [OF assms(1) False fit sel] by metis
  have dist: "distinct bs" using assms(1) by (simp add: distinct_map)
  let ?paid = "\<lambda>q. credit (addr_of h q) + turn_weight h q"
  have sum: "(\<Sum>q\<leftarrow>bs. ?paid q) = pool_weight h bs"
    using assms(3) by (simp add: credits_ok_def pool_weight_def sum_list_addf)
  have "(\<Sum>q\<leftarrow>bs. credit' (addr_of h q)) =
      (\<Sum>q\<leftarrow>bs. ?paid q - (if q = p then pool_weight h bs else 0))"
    using paid by (intro arg_cong [where f = sum_list] map_cong) auto
  also have "\<dots> = 0"
    using sum sum_list_single [OF dist p, of "pool_weight h bs"] by (simp add: sum_list_subtractf)
  finally have zero: "(\<Sum>q\<leftarrow>bs. credit' (addr_of h q)) = 0" .
  have "0 < ?paid p"
  proof (rule ccontr)
    assume "\<not> 0 < ?paid p"
    then have "(\<Sum>q\<leftarrow>bs. ?paid q) \<le> (\<Sum>q\<leftarrow>bs. 0)"
      using most by (intro sum_list_mono) force
    then show False using sum pool_weight_pos [OF False, of h] by simp
  qed
  then have "- pool_weight h bs < credit' (addr_of h q)" if "q \<in> set bs" for q
    using paid [OF that] assms(3) that turn_weight_pos [of h q]
    by (cases "q = p") (auto simp: credits_ok_def)
  with zero sel show ?thesis by (simp add: credits_ok_def)
qed

lemma credits_ok_run:
  "distinct (map (addr_of h) bs) \<Longrightarrow> small_weights h bs \<Longrightarrow> credits_ok h bs credit \<Longrightarrow>
   credits_ok h bs (snd (WeightedRoundRobin_run h bs n credit))"
proof (induction n arbitrary: credit)
  case (Suc n)
  then have "credits_ok h bs (snd (WeightedRoundRobin_Select credit h bs))"
    by (intro credits_ok_Select)
  from Suc.IH [OF Suc.prems(1,2) this] show ?case by (auto split: prod.splits)
qed simp

text \<open>A credit is what the backend earned less what its turns cost it.\<close>

lemma WeightedRoundRobin_run_credit:
  assumes "distinct (map (addr_of h) bs)" "small_weights h bs" "credits_ok h bs credit" "p \<in> set bs"
  shows "snd (WeightedRoundRobin_run h bs n credit) (addr_of h p) =
     credit (addr_of h p) + int n * turn_weight h p
       - pool_weight h bs * int (count_list (fst (WeightedRoundRobin_run h bs n credit)) (chose p))"
  using assms(3)
proof (induction n arbitrary: credit)
  case (Suc n)
  obtain c credit1 where sel: "WeightedRoundRobin_Select credit h bs = (c, credit1)" by fastforce
  have ok1: "credits_ok h bs credit1" using credits_ok_Select [OF assms(1,2) Suc.prems] sel by simp
  have "bs \<noteq> []" using assms(4) by auto
  then obtain q where "c = chose q"
    "credit1 (addr_of h p) = credit (addr_of h p) + turn_weight h p
       - (if p = q then pool_weight h bs else 0)"
    using WeightedRoundRobin_Select_spec [OF assms(1) _ credits_ok_fit [OF Suc.prems assms(2)] sel] assms(4)
    by metis
  then show ?case using Suc.IH [OF ok1] sel by (auto simp: algebra_simps split: prod.split)
qed simp

lemma credits_ok_new: "bs \<noteq> [] \<Longrightarrow> credits_ok h bs NewWeightedRoundRobin"
  using pool_weight_pos [of bs h]
  by (simp add: credits_ok_def NewWeightedRoundRobin_def)

text \<open>
  C5: For a pool whose weights are small enough (their sum times the number of backends is below
  \<open>2 ^ 63\<close>): from fresh credits, over as many selections as the weights add up to, every backend is chosen
  exactly as often as its weight says, and its credit is back to zero: the cycle repeats.
\<close>

lemma WeightedRoundRobin_cycle:
  assumes "distinct (map (addr_of h) bs)" "small_weights h bs" "p \<in> set bs"
  shows "int (count_list (fst (WeightedRoundRobin_run h bs (nat (pool_weight h bs)) NewWeightedRoundRobin))
           (chose p)) = turn_weight h p
       \<and> snd (WeightedRoundRobin_run h bs (nat (pool_weight h bs)) NewWeightedRoundRobin) (addr_of h p) = 0"
proof -
  obtain cs credit where
    run: "WeightedRoundRobin_run h bs (nat (pool_weight h bs)) NewWeightedRoundRobin = (cs, credit)"
    by fastforce
  let ?W = "pool_weight h bs"
  have ne: "bs \<noteq> []" using assms(3) by auto
  then have W: "0 < ?W" by (rule pool_weight_pos)
  have earned: "credit (addr_of h q) = ?W * (turn_weight h q - int (count_list cs (chose q)))"
    if "q \<in> set bs" for q
    using WeightedRoundRobin_run_credit [OF assms(1,2) credits_ok_new [OF ne] that, of "nat ?W"] run W
    by (simp add: NewWeightedRoundRobin_def algebra_simps)
  have ok: "credits_ok h bs credit"
    using credits_ok_run [OF assms(1,2) credits_ok_new [OF ne], of "nat ?W"] run by simp
  have ge: "0 \<le> credit (addr_of h q)" if "q \<in> set bs" for q
  proof -
    have "?W * (- 1) < ?W * (turn_weight h q - int (count_list cs (chose q)))"
      unfolding earned [OF that, symmetric] using ok that by (simp add: credits_ok_def)
    then have "- 1 < turn_weight h q - int (count_list cs (chose q))"
      using W mult_less_cancel_left_pos by blast
    then show ?thesis using earned [OF that] W by simp
  qed
  have "\<forall>x\<in>set (map (\<lambda>q. credit (addr_of h q)) bs). x = 0"
    using ok ge by (subst sum_list_nonneg_eq_0_iff [symmetric]) (auto simp: credits_ok_def)
  then have "credit (addr_of h p) = 0" using assms(3) by simp
  moreover from this have "turn_weight h p = int (count_list cs (chose p))"
    using earned [OF assms(3)] W by simp
  ultimately show ?thesis using run by simp
qed

definition ex_weights :: heap where
  "ex_weights = [\<lparr>b_addr = ''a'', b_weight = 3, b_active = 0, b_hash = 0\<rparr>,
                 \<lparr>b_addr = ''b'', b_weight = 0, b_active = 0, b_hash = 0\<rparr>]"

lemma WeightedRoundRobin_cycle_witness:
  "int (count_list (fst (WeightedRoundRobin_run ex_weights [0, 1] (nat (pool_weight ex_weights [0, 1]))
     NewWeightedRoundRobin)) (chose 0)) = turn_weight ex_weights 0
   \<and> snd (WeightedRoundRobin_run ex_weights [0, 1] (nat (pool_weight ex_weights [0, 1]))
     NewWeightedRoundRobin) (addr_of ex_weights 0) = 0"
  by (rule WeightedRoundRobin_cycle)
    (simp_all add: ex_weights_def small_weights_def pool_weight_def turn_weight_def Weight_def)

text \<open>
  At any moment, from fresh credits, no backend is a whole turn ahead of its share of the
  selections made so far, however the turns fell.
\<close>

lemma WeightedRoundRobin_never_ahead:
  assumes "distinct (map (addr_of h) bs)" "small_weights h bs" "p \<in> set bs"
  shows "pool_weight h bs * int (count_list (fst (WeightedRoundRobin_run h bs n NewWeightedRoundRobin)) (chose p))
       < int n * turn_weight h p + pool_weight h bs"
proof -
  have ne: "bs \<noteq> []" using assms(3) by auto
  then have "- pool_weight h bs < snd (WeightedRoundRobin_run h bs n NewWeightedRoundRobin) (addr_of h p)"
    using credits_ok_run [OF assms(1,2) credits_ok_new, of n] assms(3) by (simp add: credits_ok_def)
  then show ?thesis
    using WeightedRoundRobin_run_credit [OF assms(1,2) credits_ok_new [OF ne] assms(3), of n]
    by (simp add: NewWeightedRoundRobin_def)
qed

lemma WeightedRoundRobin_never_ahead_witness:
  "pool_weight ex_weights [0, 1] *
     int (count_list (fst (WeightedRoundRobin_run ex_weights [0, 1] 2 NewWeightedRoundRobin)) (chose 0))
   < int 2 * turn_weight ex_weights 0 + pool_weight ex_weights [0, 1]"
  by (rule WeightedRoundRobin_never_ahead)
    (simp_all add: ex_weights_def small_weights_def pool_weight_def turn_weight_def Weight_def)

subsection \<open>Weights that overflow\<close>

text \<open>
  Four backends of weight \<open>2 ^ 62\<close>, which the configuration accepts: the total wraps to zero, so the
  chosen backend is charged nothing, all credits stay equal, and the first backend gets every
  request; the other three starve.
\<close>

definition ex_heavy :: heap where
  "ex_heavy = map (\<lambda>a. \<lparr>b_addr = a, b_weight = 2 ^ 62, b_active = 0, b_hash = 0\<rparr>) [''a'', ''b'', ''c'', ''d'']"

lemma heavy_Select:
  assumes "\<forall>p\<in>{0, 1, 2, 3}. credit (addr_of ex_heavy p) = k"
  shows "\<exists>credit' k'. WeightedRoundRobin_Select credit ex_heavy [0, 1, 2, 3] = (chose 0, credit')
    \<and> (\<forall>p\<in>{0, 1, 2, 3}. credit' (addr_of ex_heavy p) = k')"
proof -
  have "wrap64 (wrap64 (k + 2 ^ 62)) = wrap64 (k + 2 ^ 62)" by (simp add: wrap64_def)
  moreover have "wrap64 (wrap64 (wrap64 (wrap64 (0 + 2 ^ 62) + 2 ^ 62) + 2 ^ 62) + 2 ^ 62) = 0"
    by (simp add: wrap64_def)
  ultimately show ?thesis
    using assms
    by (simp add: WeightedRoundRobin_Select_def ex_heavy_def turn_weight_def Weight_def Let_def)
qed

lemma heavy_weights_starve:
  "fst (WeightedRoundRobin_run ex_heavy [0, 1, 2, 3] n NewWeightedRoundRobin) = replicate n (chose 0)"
proof -
  have "fst (WeightedRoundRobin_run ex_heavy [0, 1, 2, 3] n credit) = replicate n (chose 0)"
    if "\<forall>p\<in>{0, 1, 2, 3}. credit (addr_of ex_heavy p) = k" for credit k
    using that
  proof (induction n arbitrary: credit k)
    case (Suc n)
    from heavy_Select [OF Suc.prems] obtain credit' k' where
      sel: "WeightedRoundRobin_Select credit ex_heavy [0, 1, 2, 3] = (chose 0, credit')"
      and eq: "\<forall>p\<in>{0, 1, 2, 3}. credit' (addr_of ex_heavy p) = k'" by blast
    obtain cs credit2 where
      run: "WeightedRoundRobin_run ex_heavy [0, 1, 2, 3] n credit' = (cs, credit2)" by fastforce
    show ?case using Suc.IH [OF eq] by (simp only: WeightedRoundRobin_run.simps sel run prod.case fst_conv replicate_Suc)
  qed simp
  then show ?thesis by (simp add: NewWeightedRoundRobin_def)
qed

end
