(* ===== verification/Least_Connections.thy ===== *)
theory Least_Connections
  imports Backends
begin

text \<open>
  \<open>internal/balancer/leastconnections.go\<close>: the power of two choices. The strategy keeps no state;
  its source of random numbers (\<open>intn\<close>) is a tape of draws, each reduced to the range asked for,
  which is every behaviour \<open>rand.IntN\<close> can have; past its end the tape reads as zeros. The lemmas:
  the two indices drawn are different and in range whatever the tape, so the chosen backend is never
  busier than some other one; the busiest backend is never chosen; on an idle pool every backend can
  be.
\<close>

definition IntN :: "nat \<Rightarrow> tape \<Rightarrow> nat \<times> tape" where
  "IntN n tape = (case tape of [] \<Rightarrow> (0, []) | x # rest \<Rightarrow> (x mod n, rest))"

text \<open>The two indices \<open>Select\<close> compares.\<close>

definition draw_two :: "nat \<Rightarrow> tape \<Rightarrow> nat \<times> nat \<times> tape" where
  "draw_two n tape =
     (let (first, tape1) = IntN n tape;
          (second, tape2) = IntN (n - 1) tape1
      in (first, if second \<ge> first then second + 1 else second, tape2))"

definition LeastConnections_Select :: "tape \<Rightarrow> heap \<Rightarrow> bref list \<Rightarrow> choice \<times> tape" where
  "LeastConnections_Select tape h bs =
     (case bs of
        [] \<Rightarrow> (Inl ErrNoBackends, tape)
      | [p] \<Rightarrow> (chose p, tape)
      | _ \<Rightarrow>
          (let (first, second, tape') = draw_two (length bs) tape
           in if ActiveConnections h (bs ! second) < ActiveConnections h (bs ! first)
              then (chose (bs ! second), tape') else (chose (bs ! first), tape')))"

lemma IntN_range: "0 < n \<Longrightarrow> fst (IntN n tape) < n"
  by (simp add: IntN_def split: list.split)

lemma draw_two_spec:
  assumes "draw_two n tape = (first, second, tape')" "2 \<le> n"
  shows "first < n" "second < n" "first \<noteq> second"
proof -
  obtain f t1 where f: "IntN n tape = (f, t1)" by fastforce
  obtain s t2 where s: "IntN (n - 1) t1 = (s, t2)" by fastforce
  have "f < n" "s < n - 1" using IntN_range [of n tape] IntN_range [of "n - 1" t1] f s assms(2) by auto
  with assms f s show "first < n" "second < n" "first \<noteq> second"
    by (auto simp: draw_two_def split: if_splits)
qed

lemma LeastConnections_two:
  "2 \<le> length bs \<Longrightarrow> LeastConnections_Select tape h bs =
     (let (first, second, tape') = draw_two (length bs) tape
      in if ActiveConnections h (bs ! second) < ActiveConnections h (bs ! first)
         then (chose (bs ! second), tape') else (chose (bs ! first), tape'))"
  by (cases bs; cases "tl bs") (auto simp: LeastConnections_Select_def)

text \<open>What was chosen, and the other backend it was compared with.\<close>

lemma LeastConnections_compared:
  assumes "2 \<le> length bs"
  obtains i j where "i < length bs" "j < length bs" "i \<noteq> j"
    "fst (LeastConnections_Select tape h bs) = chose (bs ! i)"
    "ActiveConnections h (bs ! i) \<le> ActiveConnections h (bs ! j)"
proof -
  obtain f s t where d: "draw_two (length bs) tape = (f, s, t)" by (metis prod_cases3)
  note spec = draw_two_spec [OF d assms]
  show ?thesis
  proof (cases "ActiveConnections h (bs ! s) < ActiveConnections h (bs ! f)")
    case True
    then show ?thesis
      using spec by (intro that [of s f]) (auto simp: LeastConnections_two [OF assms] d)
  next
    case False
    then show ?thesis
      using spec by (intro that [of f s]) (auto simp: LeastConnections_two [OF assms] d)
  qed
qed

lemma LeastConnections_member:
  assumes "bs \<noteq> []"
  shows "\<exists>p\<in>set bs. fst (LeastConnections_Select tape h bs) = chose p"
proof (cases "length bs = 1")
  case True
  then obtain p where "bs = [p]" by (auto simp: length_Suc_conv)
  then show ?thesis by (simp add: LeastConnections_Select_def)
next
  case False
  with assms have "2 \<le> length bs" by (cases bs) (auto simp: not_less_eq_eq Suc_le_eq)
  then obtain i j where "i < length bs" "fst (LeastConnections_Select tape h bs) = chose (bs ! i)"
    by (rule LeastConnections_compared)
  then show ?thesis by auto
qed

interpretation lc: lb_strategy
  "\<lambda>s t h bs. (fst (LeastConnections_Select t h bs), s :: unit, snd (LeastConnections_Select t h bs))"
  by unfold_locales (auto simp: LeastConnections_member, simp add: LeastConnections_Select_def)

text \<open>
  In a pool of two or more, the backend with more requests in flight than every other is never
  chosen, whatever numbers are drawn.
\<close>

lemma LeastConnections_not_busiest:
  assumes "p \<in> set bs" "distinct bs" "2 \<le> length bs"
    and "\<And>q. q \<in> set bs \<Longrightarrow> q \<noteq> p \<Longrightarrow> ActiveConnections h q < ActiveConnections h p"
  shows "fst (LeastConnections_Select tape h bs) \<noteq> chose p"
proof
  assume c: "fst (LeastConnections_Select tape h bs) = chose p"
  obtain i j where ij: "i < length bs" "j < length bs" "i \<noteq> j"
    "fst (LeastConnections_Select tape h bs) = chose (bs ! i)"
    "ActiveConnections h (bs ! i) \<le> ActiveConnections h (bs ! j)"
    using assms(3) by (rule LeastConnections_compared)
  have "bs ! i = p" using c ij(4) by simp
  moreover from this have "bs ! j \<noteq> p" using ij assms(2) by (metis nth_eq_iff_index_eq)
  ultimately show False using assms(4) [of "bs ! j"] ij by simp
qed

definition ex_pool :: heap where
  "ex_pool = [\<lparr>b_addr = ''a'', b_weight = 3, b_active = 2, b_hash = 0\<rparr>,
              \<lparr>b_addr = ''b'', b_weight = 0, b_active = 5, b_hash = 0\<rparr>,
              \<lparr>b_addr = ''c'', b_weight = 1, b_active = 2, b_hash = 0\<rparr>]"

lemma LeastConnections_not_busiest_witness:
  "fst (LeastConnections_Select [1, 0] ex_pool [0, 1, 2]) \<noteq> chose 1"
  by (rule LeastConnections_not_busiest) (auto simp: ex_pool_def ActiveConnections_def)

text \<open>
  Every backend that no other is less busy than can be chosen: the draw reaches all of an idle
  pool.
\<close>

lemma LeastConnections_reaches_each:
  assumes "p \<in> set bs" "\<And>q. q \<in> set bs \<Longrightarrow> ActiveConnections h p \<le> ActiveConnections h q"
  shows "\<exists>tape. fst (LeastConnections_Select tape h bs) = chose p"
proof (cases "2 \<le> length bs")
  case True
  obtain i where i: "i < length bs" "bs ! i = p" using assms(1) by (auto simp: in_set_conv_nth)
  obtain s t where d: "draw_two (length bs) [i] = (i, s, t)"
    using i by (auto simp: draw_two_def IntN_def)
  then have "s < length bs" using draw_two_spec [OF d True] by simp
  then have "\<not> ActiveConnections h (bs ! s) < ActiveConnections h (bs ! i)"
    using assms(2) [of "bs ! s"] i by simp
  then have "fst (LeastConnections_Select [i] h bs) = chose p"
    by (simp add: LeastConnections_two [OF True] d i)
  then show ?thesis ..
next
  case False
  with assms(1) have "bs = [p]" by (cases bs; cases "tl bs") auto
  then show ?thesis by (simp add: LeastConnections_Select_def)
qed

lemma LeastConnections_reaches_each_witness:
  "\<exists>tape. fst (LeastConnections_Select tape ex_pool [0, 1, 2]) = chose 2"
  by (rule LeastConnections_reaches_each) (auto simp: ex_pool_def ActiveConnections_def)

end
