(* ===== verification/Consistent_Hash.thy ===== *)
theory Consistent_Hash
  imports Least_Connections
begin

text \<open>
  \<open>internal/balancer/consistenthash.go\<close>: weighted rendezvous hashing with bounded load. The hash
  functions are written out on 64-bit words; strings are their bytes. \<open>math.Log\<close> is the
  parameter \<open>lg\<close>, from which the code needs what its documentation says: it is zero at one and
  negative below. The lemmas: both hash functions lose nothing of the last step (\<open>mix\<close> is a
  bijection, and changing one byte of a key always changes its hash); the hash kept on a backend
  changes no score; a backend that leaves takes only its own keys and one that joins takes only keys
  it now wins; and under the bound some backend always has room, so the one chosen does.
\<close>

unbundle bit_operations_syntax

definition xor_shift :: "nat \<Rightarrow> u64 \<Rightarrow> u64" where
  "xor_shift k x = x XOR drop_bit k x"

definition mix :: "u64 \<Rightarrow> u64" where
  "mix x = (let x = xor_shift 30 x; x = x * 0xbf58476d1ce4e5b9;
                x = xor_shift 27 x; x = x * 0x94d049bb133111eb
            in xor_shift 31 x)"

definition fnv_step :: "u64 \<Rightarrow> char \<Rightarrow> u64" where
  "fnv_step h c = (h XOR of_char c) * 1099511628211"

definition hashKey :: "string \<Rightarrow> u64" where
  "hashKey s = mix (foldl fnv_step 14695981039346656037 s)"

definition addrHash :: "heap \<Rightarrow> bref \<Rightarrow> u64 \<times> heap" where
  "addrHash h p =
     (if b_hash (h ! p) \<noteq> 0 then (b_hash (h ! p), h)
      else (let x = hashKey (addr_of h p) in (x, update_cell h p (\<lambda>b. b\<lparr>b_hash := x\<rparr>))))"

definition weightOf :: "heap \<Rightarrow> bref \<Rightarrow> int" where
  "weightOf h p = max (Weight h p) 1"

text \<open>
  The draw \<open>u\<close>, and the score it gives. Go's \<open>-math.Log(u)\<close> is a negative zero when the
  logarithm is zero, and dividing a positive number by it gives minus infinity.
\<close>

definition draw :: "u64 \<Rightarrow> rat" where
  "draw h = f64 (f64 (float_of_int (uint (drop_bit 11 h)) + 1 / 2) / 2 ^ 53)"

definition claim :: "(rat \<Rightarrow> rat) \<Rightarrow> int \<Rightarrow> rat \<Rightarrow> float64" where
  "claim lg weight u = (if lg u = 0 then NegInf else Fin (f64 (float_of_int weight / - lg u)))"

definition score :: "(rat \<Rightarrow> rat) \<Rightarrow> heap \<Rightarrow> u64 \<Rightarrow> bref \<Rightarrow> float64 \<times> heap" where
  "score lg h keyHash p =
     (case addrHash h p of (x, h') \<Rightarrow> (claim lg (weightOf h' p) (draw (mix (keyHash XOR x))), h'))"

fun home_loop :: "(rat \<Rightarrow> rat) \<Rightarrow> heap \<Rightarrow> u64 \<Rightarrow> bref list \<Rightarrow> bref option \<Rightarrow> float64 \<Rightarrow> bref option \<times> heap" where
  "home_loop lg h keyHash [] best bestScore = (best, h)"
| "home_loop lg h keyHash (p # ps) best bestScore =
     (case score lg h keyHash p of
        (s, h') \<Rightarrow> if flt bestScore s then home_loop lg h' keyHash ps (Some p) s
                   else home_loop lg h' keyHash ps best bestScore)"

definition Home :: "(rat \<Rightarrow> rat) \<Rightarrow> heap \<Rightarrow> string \<Rightarrow> bref list \<Rightarrow> bref option \<times> heap" where
  "Home lg h key bs = home_loop lg h (hashKey key) bs None NegInf"

definition in_flight :: "heap \<Rightarrow> bref list \<Rightarrow> int" where
  "in_flight h bs = sum_list (map (ActiveConnections h) bs)"

definition totalWeight :: "heap \<Rightarrow> bref list \<Rightarrow> int" where
  "totalWeight h bs = foldl (\<lambda>sum p. wrap64 (sum + weightOf h p)) 0 bs"

definition bound :: "int \<Rightarrow> heap \<Rightarrow> bref list \<Rightarrow> bref \<Rightarrow> rat" where
  "bound balanceFactor h bs p =
     (let factor = f64 (float_of_int balanceFactor / 100);
          share = f64 (f64 (float_of_int (in_flight h bs + 1) * float_of_int (weightOf h p))
                         / float_of_int (totalWeight h bs))
      in of_int \<lceil>f64 (factor * share)\<rceil>)"

definition room :: "int \<Rightarrow> heap \<Rightarrow> bref list \<Rightarrow> bref \<Rightarrow> bool" where
  "room balanceFactor h bs p =
     (float_of_int (ActiveConnections h p) < bound balanceFactor h bs p)"

fun score_all :: "(rat \<Rightarrow> rat) \<Rightarrow> heap \<Rightarrow> u64 \<Rightarrow> bref list \<Rightarrow> (bref \<times> float64) list \<times> heap" where
  "score_all lg h keyHash [] = ([], h)"
| "score_all lg h keyHash (p # ps) =
     (case score lg h keyHash p of
        (s, h1) \<Rightarrow> (case score_all lg h1 keyHash ps of (rs, h') \<Rightarrow> ((p, s) # rs, h')))"

text \<open>
  \<open>slices.SortFunc\<close> as the insertion sort it is for a pool of up to twelve; on a larger one it
  may order equal scores differently.
\<close>

fun insert_ranked :: "bref \<times> float64 \<Rightarrow> (bref \<times> float64) list \<Rightarrow> (bref \<times> float64) list" where
  "insert_ranked x [] = [x]"
| "insert_ranked x (y # ys) = (if flt (snd y) (snd x) then x # y # ys else y # insert_ranked x ys)"

definition sort_ranked :: "(bref \<times> float64) list \<Rightarrow> (bref \<times> float64) list" where
  "sort_ranked ranked = foldl (\<lambda>done x. insert_ranked x done) [] ranked"

definition SelectFor ::
  "(rat \<Rightarrow> rat) \<Rightarrow> int \<Rightarrow> heap \<Rightarrow> string \<Rightarrow> bref list \<Rightarrow> choice \<times> heap" where
  "SelectFor lg balanceFactor h key bs =
     (if bs = [] then (Inl ErrNoBackends, h)
      else case Home lg h key bs of
        (home, h1) \<Rightarrow>
          if balanceFactor = 0 then (Inr home, h1)
          else (case home of
                  None \<Rightarrow> (Inl NilBackend, h1)
                | Some p \<Rightarrow>
                    if room balanceFactor h1 bs p then (chose p, h1)
                    else (case score_all lg h1 (hashKey key) bs of
                            (ranked, h2) \<Rightarrow>
                              (case find (\<lambda>c. room balanceFactor h2 bs (fst c)) (sort_ranked ranked) of
                                 Some c \<Rightarrow> (chose (fst c), h2)
                               | None \<Rightarrow> (chose p, h2)))))"

text \<open>A request without a key.\<close>

definition ConsistentHash_Select :: "tape \<Rightarrow> heap \<Rightarrow> bref list \<Rightarrow> choice \<times> tape" where
  "ConsistentHash_Select tape h bs = LeastConnections_Select tape h bs"

interpretation ch_keyless: lb_strategy
  "\<lambda>factor t h bs. (fst (ConsistentHash_Select t h bs), factor :: int, snd (ConsistentHash_Select t h bs))"
  by unfold_locales
    (auto simp: ConsistentHash_Select_def LeastConnections_member, simp add: LeastConnections_Select_def)

subsection \<open>The hash functions\<close>

lemma drop_bit_fixed:
  assumes "drop_bit k d = (d :: u64)" "0 < k"
  shows "d = 0"
proof -
  have "unat (drop_bit k d) = unat d div 2 ^ k"
    unfolding unat_drop_bit_eq by (simp add: drop_bit_eq_div)
  then have "unat d = unat d div 2 ^ k" unfolding assms(1) .
  moreover have "(2::nat) \<le> 2 ^ k" using assms(2) by (cases k) simp_all
  ultimately have "unat d = 0" by (metis div_less_dividend gr0I less_irrefl less_le_trans one_less_numeral_iff semiring_norm(76))
  then show ?thesis by (simp add: unat_eq_0)
qed

lemma xor_shift_inj: "0 < k \<Longrightarrow> inj (xor_shift k)"
proof (rule injI)
  fix x y :: u64 assume k: "0 < k" and eq: "xor_shift k x = xor_shift k y"
  have "x XOR y = (xor_shift k x XOR drop_bit k x) XOR (xor_shift k y XOR drop_bit k y)"
    by (simp add: xor_shift_def xor.assoc)
  also have "\<dots> = drop_bit k (x XOR y)"
    unfolding eq by (simp add: ac_simps)
  finally have e: "x XOR y = drop_bit k (x XOR y)" .
  have "x XOR y = 0" using e [symmetric] k by (rule drop_bit_fixed)
  moreover have "x = (x XOR y) XOR y" by (simp add: xor.assoc)
  ultimately show "x = y" by simp
qed

lemma mult_unit_inj:
  assumes "c * c' = (1 :: u64)"
  shows "inj (\<lambda>x. x * c)"
proof (rule injI)
  fix x y assume "x * c = y * c"
  then have "x * (c * c') = y * (c * c')" by (simp only: mult.assoc [symmetric])
  then show "x = y" unfolding assms by simp
qed

lemma mix_inj: "inj mix"
proof -
  have a: "inj (\<lambda>x :: u64. x * 0xbf58476d1ce4e5b9)" by (rule mult_unit_inj [of _ "10871156337175269513"]) simp
  have b: "inj (\<lambda>x :: u64. x * 0x94d049bb133111eb)" by (rule mult_unit_inj [of _ "3573116690164977347"]) simp
  have "mix = xor_shift 31 \<circ> (\<lambda>x. x * 0x94d049bb133111eb) \<circ> xor_shift 27
      \<circ> (\<lambda>x. x * 0xbf58476d1ce4e5b9) \<circ> xor_shift 30"
    by (rule ext) (simp add: mix_def)
  then show ?thesis
    using inj_compose [OF inj_compose [OF inj_compose [OF inj_compose [OF _ b]] a]]
    by (metis a b inj_compose xor_shift_inj zero_less_numeral)
qed

lemma mix_bij: "bij mix"
proof -
  have "finite (UNIV :: u64 set)" by simp
  then have "surj mix" using mix_inj by (rule finite_UNIV_inj_surj)
  with mix_inj show ?thesis by (simp add: bij_def)
qed

lemma fnv_prime_cancel: "x * 1099511628211 = y * (1099511628211 :: u64) \<Longrightarrow> x = y"
  by (rule mult_unit_inj [of _ "14886173955864302971", THEN injD]) simp_all

lemma xor_cancel: "x XOR z = y XOR z \<longleftrightarrow> x = (y :: u64)" "z XOR x = z XOR y \<longleftrightarrow> x = (y :: u64)"
proof -
  have "x = (x XOR z) XOR z" for x by (simp add: xor.assoc)
  then show "x XOR z = y XOR z \<longleftrightarrow> x = y" by metis
  then show "z XOR x = z XOR y \<longleftrightarrow> x = y" by (simp only: xor.commute)
qed

lemma fnv_step_inj_state: "fnv_step h c = fnv_step h' c \<Longrightarrow> h = h'"
  unfolding fnv_step_def by (drule fnv_prime_cancel) (simp only: xor_cancel)

lemma of_char_inj: "of_char c = (of_char d :: u64) \<Longrightarrow> c = d"
proof -
  assume "of_char c = (of_char d :: u64)"
  then have "unat (of_nat (of_char c) :: u64) = unat (of_nat (of_char d) :: u64)"
    by (simp only: of_nat_of_char)
  moreover have "of_char c < (256 :: nat)" "of_char d < (256 :: nat)" by simp_all
  ultimately have "(of_char c :: nat) = of_char d" by (simp add: unat_of_nat)
  then show "c = d" by simp
qed

lemma fnv_step_inj_char: "fnv_step h c = fnv_step h d \<Longrightarrow> c = d"
  unfolding fnv_step_def by (drule fnv_prime_cancel, rule of_char_inj) (simp only: xor_cancel)

lemma fnv_inj_state: "foldl fnv_step g s = foldl fnv_step g' s \<Longrightarrow> g = g'"
proof (induction s arbitrary: g g')
  case (Cons c s)
  then have "fnv_step g c = fnv_step g' c" by simp
  then show ?case by (rule fnv_step_inj_state)
qed simp

text \<open>
  Two keys that differ in one byte, whichever it is, never have the same hash.
\<close>

lemma hashKey_one_byte:
  assumes "c \<noteq> d"
  shows "hashKey (s @ c # t) \<noteq> hashKey (s @ d # t)"
proof
  assume "hashKey (s @ c # t) = hashKey (s @ d # t)"
  then have "foldl fnv_step 14695981039346656037 (s @ c # t) = foldl fnv_step 14695981039346656037 (s @ d # t)"
    unfolding hashKey_def using mix_inj by (simp only: inj_eq)
  then have "fnv_step (foldl fnv_step 14695981039346656037 s) c = fnv_step (foldl fnv_step 14695981039346656037 s) d"
    by (auto dest: fnv_inj_state)
  with assms show False by (blast dest: fnv_step_inj_char)
qed

subsection \<open>The hash kept on a backend changes nothing\<close>

definition hashes_ok :: "heap \<Rightarrow> bool" where
  "hashes_ok h \<longleftrightarrow> (\<forall>b\<in>set h. b_hash b = 0 \<or> b_hash b = hashKey (b_addr b))"

definition caches :: "heap \<Rightarrow> heap \<Rightarrow> bool" where
  "caches h h' \<longleftrightarrow> map (\<lambda>b. b\<lparr>b_hash := 0\<rparr>) h' = map (\<lambda>b. b\<lparr>b_hash := 0\<rparr>) h"

definition key_score :: "(rat \<Rightarrow> rat) \<Rightarrow> heap \<Rightarrow> u64 \<Rightarrow> bref \<Rightarrow> float64" where
  "key_score lg h keyHash p =
     claim lg (weightOf h p) (draw (mix (keyHash XOR hashKey (addr_of h p))))"

lemma caches_refl [simp]: "caches h h"
  by (simp add: caches_def)

lemma caches_trans: "caches h h1 \<Longrightarrow> caches h1 h2 \<Longrightarrow> caches h h2"
  by (simp add: caches_def)

lemma caches_length: "caches h h' \<Longrightarrow> length h' = length h"
  unfolding caches_def by (metis length_map)

lemma caches_cell:
  assumes "caches h h'" "p < length h"
  shows "b_addr (h' ! p) = b_addr (h ! p)" "b_weight (h' ! p) = b_weight (h ! p)"
    "b_active (h' ! p) = b_active (h ! p)"
proof -
  have "(h' ! p)\<lparr>b_hash := 0\<rparr> = (h ! p)\<lparr>b_hash := 0\<rparr>"
    using arg_cong [OF assms(1) [unfolded caches_def], of "\<lambda>xs. xs ! p"] assms(2) caches_length [OF assms(1)]
    by simp
  then show "b_addr (h' ! p) = b_addr (h ! p)" "b_weight (h' ! p) = b_weight (h ! p)"
    "b_active (h' ! p) = b_active (h ! p)"
    by (cases "h' ! p"; cases "h ! p"; simp)+
qed

lemma caches_reads:
  assumes "caches h h'" "p < length h"
  shows "Weight h' p = Weight h p" "weightOf h' p = weightOf h p"
    "ActiveConnections h' p = ActiveConnections h p" "key_score lg h' kh p = key_score lg h kh p"
  using caches_cell [OF assms] by (simp_all add: Weight_def weightOf_def ActiveConnections_def key_score_def)

lemma addrHash_spec:
  assumes "hashes_ok h" "p < length h" "addrHash h p = (x, h')"
  shows "x = hashKey (addr_of h p)" "caches h h'" "hashes_ok h'"
proof -
  have cell: "b_hash (h ! p) = 0 \<or> b_hash (h ! p) = hashKey (addr_of h p)"
    using assms(1,2) by (simp add: hashes_ok_def)
  have "caches h (update_cell h p (\<lambda>b. b\<lparr>b_hash := y\<rparr>))" for y
    unfolding caches_def by (rule nth_equalityI) (simp_all add: nth_update_cell)
  moreover have "hashes_ok (update_cell h p (\<lambda>b. b\<lparr>b_hash := hashKey (addr_of h p)\<rparr>))"
    using assms(1,2) by (auto simp: hashes_ok_def update_cell_def dest!: set_update_subset_insert [THEN subsetD])
  ultimately show "x = hashKey (addr_of h p)" "caches h h'" "hashes_ok h'"
    using assms cell by (auto simp: addrHash_def Let_def split: if_splits)
qed

lemma score_spec:
  assumes "hashes_ok h" "p < length h" "score lg h kh p = (s, h')"
  shows "s = key_score lg h kh p" "caches h h'" "hashes_ok h'"
proof -
  obtain x where x: "addrHash h p = (x, h')" "s = claim lg (weightOf h' p) (draw (mix (kh XOR x)))"
    using assms(3) by (auto simp: score_def split: prod.splits)
  note spec = addrHash_spec [OF assms(1,2) x(1)]
  show "s = key_score lg h kh p"
    using x spec caches_reads(2) [OF spec(2) assms(2)] by (simp add: key_score_def)
  show "caches h h'" "hashes_ok h'" using spec by auto
qed

text \<open>The loop of \<open>Home\<close> without the caching.\<close>

fun top_loop :: "(bref \<Rightarrow> float64) \<Rightarrow> bref list \<Rightarrow> bref option \<Rightarrow> float64 \<Rightarrow> bref option" where
  "top_loop f [] best bestScore = best"
| "top_loop f (p # ps) best bestScore =
     (if flt bestScore (f p) then top_loop f ps (Some p) (f p) else top_loop f ps best bestScore)"

definition refs_ok :: "heap \<Rightarrow> bref list \<Rightarrow> bool" where
  "refs_ok h bs \<longleftrightarrow> (\<forall>p\<in>set bs. p < length h)"

lemma refs_ok_simps [simp]:
  "refs_ok h []" "refs_ok h (p # ps) \<longleftrightarrow> p < length h \<and> refs_ok h ps"
  "refs_ok h bs \<Longrightarrow> refs_ok h (filter P bs)"
  by (auto simp: refs_ok_def)

lemma top_loop_cong: "(\<And>p. p \<in> set ps \<Longrightarrow> f p = g p) \<Longrightarrow> top_loop f ps best s = top_loop g ps best s"
  by (induction ps arbitrary: best s) auto

lemma home_loop_spec:
  assumes "hashes_ok h" "refs_ok h ps" "home_loop lg h kh ps best s = (r, h')"
  shows "r = top_loop (key_score lg h kh) ps best s \<and> caches h h' \<and> hashes_ok h'"
  using assms
proof (induction ps arbitrary: h best s)
  case (Cons p ps)
  obtain sc h1 where sc: "score lg h kh p = (sc, h1)" by fastforce
  have "p < length h" using Cons.prems(2) by simp
  note spec = score_spec [OF Cons.prems(1) this sc]
  have refs: "refs_ok h1 ps" using Cons.prems(2) caches_length [OF spec(2)] by (simp add: refs_ok_def)
  have cong: "top_loop (key_score lg h1 kh) ps b t = top_loop (key_score lg h kh) ps b t" for b t
    using Cons.prems(2) by (intro top_loop_cong caches_reads(4) [OF spec(2)]) (simp add: refs_ok_def)
  have "home_loop lg h1 kh ps (if flt s sc then Some p else best) (if flt s sc then sc else s) = (r, h')"
    using Cons.prems(3) sc by (simp split: if_splits)
  from Cons.IH [OF spec(3) refs this] show ?case
    using spec(1) caches_trans [OF spec(2)] by (auto simp: cong)
qed simp

lemma Home_spec:
  assumes "hashes_ok h" "refs_ok h bs"
  shows "fst (Home lg h key bs) = top_loop (key_score lg h (hashKey key)) bs None NegInf"
    and "caches h (snd (Home lg h key bs))" and "hashes_ok (snd (Home lg h key bs))"
  using home_loop_spec [OF assms, of lg "hashKey key" None NegInf]
  by (auto simp: Home_def prod_eq_iff)

subsection \<open>The highest score\<close>

definition is_top :: "(bref \<Rightarrow> float64) \<Rightarrow> bref list \<Rightarrow> bref \<Rightarrow> bool" where
  "is_top f bs p \<longleftrightarrow> f p \<noteq> NegInf \<and>
     (\<exists>xs ys. bs = xs @ p # ys \<and> (\<forall>q\<in>set xs. flt (f q) (f p)) \<and> (\<forall>q\<in>set ys. \<not> flt (f p) (f q)))"

lemma is_topI:
  "bs = xs @ p # ys \<Longrightarrow> \<forall>q\<in>set xs. flt (f q) (f p) \<Longrightarrow> \<forall>q\<in>set ys. \<not> flt (f p) (f q) \<Longrightarrow>
   f p \<noteq> NegInf \<Longrightarrow> is_top f bs p"
  unfolding is_top_def by blast

lemma flt_asym: "flt x y \<Longrightarrow> \<not> flt y x"
  by (cases x; cases y) auto

lemma flt_NegInf_iff: "x \<noteq> NaN \<Longrightarrow> flt NegInf x \<longleftrightarrow> x \<noteq> NegInf"
  by (cases x) auto

lemma flt_le_trans: "y \<noteq> NaN \<Longrightarrow> x \<noteq> NaN \<Longrightarrow> z \<noteq> NaN \<Longrightarrow> \<not> flt y x \<Longrightarrow> flt y z \<Longrightarrow> flt x z"
  by (cases x; cases y; cases z) auto

lemma top_loop_from:
  assumes "\<And>p. f p \<noteq> NaN" "s \<noteq> NaN" "top_loop f bs best s = r"
  shows "r = best \<and> (\<forall>q\<in>set bs. \<not> flt s (f q)) \<or>
     (\<exists>p. r = Some p \<and> is_top f bs p \<and> flt s (f p))"
  using assms(2,3)
proof (induction bs arbitrary: best s)
  case (Cons b bs)
  show ?case
  proof (cases "flt s (f b)")
    case True
    have "f b \<noteq> NegInf" using True by auto
    from Cons.IH [of "f b" "Some b"] Cons.prems True assms(1)
    have "r = Some b \<and> (\<forall>q\<in>set bs. \<not> flt (f b) (f q)) \<or> (\<exists>p. r = Some p \<and> is_top f bs p \<and> flt (f b) (f p))"
      by simp
    then show ?thesis
    proof (elim disjE exE conjE)
      assume "r = Some b" "\<forall>q\<in>set bs. \<not> flt (f b) (f q)"
      then have "is_top f (b # bs) b" using \<open>f b \<noteq> NegInf\<close> by (intro is_topI [of _ "[]" _ bs]) auto
      with True \<open>r = Some b\<close> show ?thesis by auto
    next
      fix p assume p: "r = Some p" "is_top f bs p" "flt (f b) (f p)"
      then obtain xs ys where "bs = xs @ p # ys" "\<forall>q\<in>set xs. flt (f q) (f p)"
        "\<forall>q\<in>set ys. \<not> flt (f p) (f q)" "f p \<noteq> NegInf" by (auto simp: is_top_def)
      with p(3) have "is_top f (b # bs) p" by (intro is_topI [of _ "b # xs" _ ys]) auto
      with p flt_trans [OF True p(3)] show ?thesis by auto
    qed
  next
    case False
    from Cons.IH [of s best] Cons.prems False
    have "r = best \<and> (\<forall>q\<in>set bs. \<not> flt s (f q)) \<or> (\<exists>p. r = Some p \<and> is_top f bs p \<and> flt s (f p))"
      by simp
    then show ?thesis
    proof (elim disjE exE conjE)
      fix p assume p: "r = Some p" "is_top f bs p" "flt s (f p)"
      then obtain xs ys where "bs = xs @ p # ys" "\<forall>q\<in>set xs. flt (f q) (f p)"
        "\<forall>q\<in>set ys. \<not> flt (f p) (f q)" "f p \<noteq> NegInf" by (auto simp: is_top_def)
      moreover have "flt (f b) (f p)" using flt_le_trans [OF Cons.prems(1) assms(1) assms(1) False p(3)] .
      ultimately have "is_top f (b # bs) p" by (intro is_topI [of _ "b # xs" _ ys]) auto
      with p show ?thesis by auto
    qed (use False in auto)
  qed
qed simp

lemma is_top_unique:
  assumes "\<And>p. f p \<noteq> NaN" "is_top f bs p" "is_top f bs q"
  shows "p = q"
proof -
  obtain xs ys where p: "bs = xs @ p # ys" "\<forall>q\<in>set xs. flt (f q) (f p)" "\<forall>q\<in>set ys. \<not> flt (f p) (f q)"
    using assms(2) by (auto simp: is_top_def)
  obtain xs' ys' where q: "bs = xs' @ q # ys'" "\<forall>p\<in>set xs'. flt (f p) (f q)" "\<forall>p\<in>set ys'. \<not> flt (f q) (f p)"
    using assms(3) by (auto simp: is_top_def)
  from p(1) q(1) obtain us where "xs = xs' @ us \<and> us @ p # ys = q # ys' \<or> xs' = xs @ us \<and> p # ys = us @ q # ys'"
    using append_eq_append_conv2 [of xs "p # ys" xs' "q # ys'"] by auto
  then show ?thesis
  proof (elim disjE conjE)
    assume us: "xs = xs' @ us" "us @ p # ys = q # ys'"
    show ?thesis
    proof (cases us)
      case (Cons u us')
      with us have "q \<in> set xs" "p \<in> set ys'" by auto
      with p q show ?thesis by blast
    qed (use us in simp)
  next
    assume us: "xs' = xs @ us" "p # ys = us @ q # ys'"
    show ?thesis
    proof (cases us)
      case (Cons u us')
      with us have "p \<in> set xs'" "q \<in> set ys" by auto
      with p q show ?thesis by blast
    qed (use us in simp)
  qed
qed

lemma top_loop_iff:
  assumes "\<And>p. f p \<noteq> NaN"
  shows "top_loop f bs None NegInf = Some p \<longleftrightarrow> is_top f bs p"
    and "top_loop f bs None NegInf = None \<longleftrightarrow> (\<forall>q\<in>set bs. f q = NegInf)"
proof -
  have c: "top_loop f bs None NegInf = None \<and> (\<forall>q\<in>set bs. f q = NegInf) \<or>
     (\<exists>p. top_loop f bs None NegInf = Some p \<and> is_top f bs p)"
    using top_loop_from [where f = f and s = NegInf and bs = bs and best = None] assms by (auto simp: flt_NegInf_iff)
  have none: "\<not> is_top f bs q" if "\<forall>q\<in>set bs. f q = NegInf" for q using that by (auto simp: is_top_def)
  show "top_loop f bs None NegInf = Some p \<longleftrightarrow> is_top f bs p"
    using c
  proof (elim disjE exE conjE)
    fix r assume r: "top_loop f bs None NegInf = Some r" "is_top f bs r"
    have "r = p" if "is_top f bs p" using assms r(2) that by (rule is_top_unique)
    with r show ?thesis by auto
  qed (use none in simp)
  show "top_loop f bs None NegInf = None \<longleftrightarrow> (\<forall>q\<in>set bs. f q = NegInf)"
    using c
  proof (elim disjE exE conjE)
    fix r assume r: "top_loop f bs None NegInf = Some r" "is_top f bs r"
    with none show ?thesis by auto
  qed simp
qed

lemma is_top_member: "is_top f bs p \<Longrightarrow> p \<in> set bs"
  by (auto simp: is_top_def)

lemma is_top_score: "is_top f bs p \<Longrightarrow> f p = NegInf \<Longrightarrow> False"
  by (simp add: is_top_def)

lemma is_top_filter: "is_top f bs p \<Longrightarrow> P p \<Longrightarrow> is_top f (filter P bs) p"
  unfolding is_top_def by (elim conjE exE) (intro conjI exI [of _ "filter P _"], auto)

lemma is_top_best: "is_top f bs p \<Longrightarrow> q \<in> set bs \<Longrightarrow> \<not> flt (f p) (f q)"
  unfolding is_top_def using flt_asym [of "f p" "f q"] by auto

lemma claim_number [simp]: "claim lg w u \<noteq> NaN"
  by (simp add: claim_def)

lemma key_score_number [simp]: "key_score lg h kh p \<noteq> NaN"
  by (simp add: key_score_def)

lemma Home_iff:
  assumes "hashes_ok h" "refs_ok h bs"
  shows "fst (Home lg h key bs) = Some p \<longleftrightarrow> is_top (key_score lg h (hashKey key)) bs p"
    and "fst (Home lg h key bs) = None \<longleftrightarrow> (\<forall>q\<in>set bs. key_score lg h (hashKey key) q = NegInf)"
  unfolding Home_spec(1) [OF assms] by (rule top_loop_iff, simp)+

subsection \<open>The draw and the score\<close>

text \<open>What the documentation of \<open>math.Log\<close> says of it, as far as the code needs it.\<close>

definition log_ok :: "(rat \<Rightarrow> rat) \<Rightarrow> bool" where
  "log_ok lg \<longleftrightarrow> lg 1 = 0 \<and> (\<forall>u. 0 < u \<longrightarrow> u < 1 \<longrightarrow> lg u < 0)"

lemma f64_unit:
  assumes "2 ^ 52 \<le> x" "x < 2 ^ 53"
  shows "f64 x = of_int (rne x)"
proof -
  have x: "0 < x" using assms(1) by (rule less_le_trans [rotated]) simp
  then have "2 powi blog x \<le> x" "x < 2 powi (blog x + 1)" using blog_bounds [of x] by auto
  then have "2 powi 52 < (2 :: rat) powi (blog x + 1)" "2 powi blog x < (2 :: rat) powi 53"
    using assms by (simp_all add: power_int_def)
  then have "blog x = 52" unfolding powi_less_cancel by linarith
  with x show ?thesis by (simp add: f64_def fexp_def)
qed

lemma f64_tie: "f64 (18014398509481983/2) = 9007199254740992"
proof -
  have "\<lfloor>18014398509481983 / 2 :: rat\<rfloor> = 9007199254740991" by (simp add: floor_eq_iff)
  then have "rne (18014398509481983 / 2) = 9007199254740992" by (simp add: rne_def)
  then show ?thesis by (subst f64_unit) simp_all
qed

lemma top_bits:
  fixes h :: u64
  shows "0 \<le> uint (drop_bit 11 h)" "uint (drop_bit 11 h) \<le> 2 ^ 53 - 1"
proof -
  show "0 \<le> uint (drop_bit 11 h)" by simp
  have lt: "uint h < 2 ^ 64" using unsigned_less [of h, where ?'a = int] by simp
  have "uint (drop_bit 11 h) = uint h div 2 ^ 11"
    unfolding unsigned_drop_bit_eq using lt
    by (simp add: drop_bit_eq_div take_bit_eq_mod)
  with lt show "uint (drop_bit 11 h) \<le> 2 ^ 53 - 1" by simp
qed

lemma draw_eq:
  assumes "n = uint (drop_bit 11 h)"
  shows "draw h = f64 (f64 (of_int n + 1 / 2) / 2 ^ 53)"
proof -
  have "f64 (of_int n :: rat) = of_int n"
    using top_bits [of h] unfolding assms by (intro f64_of_int) linarith
  then show ?thesis by (simp add: draw_def float_of_int_def assms)
qed

lemma draw_pos: "0 < draw h"
proof -
  define n where "n = uint (drop_bit 11 h)"
  have "0 \<le> n" using top_bits n_def by simp
  have half: "f64 (1 / 2) = 1 / 2" using f64_exact [of 1 "- 1"] by (simp add: power_int_minus)
  have "f64 (1 / 2) \<le> f64 (of_int n + 1 / 2)" using \<open>0 \<le> n\<close> by (intro f64_mono) simp
  then have "(1 / 2) / 2 ^ 53 \<le> f64 (of_int n + 1 / 2) / 2 ^ 53"
    unfolding half by (intro divide_right_mono) simp_all
  then have "f64 ((1 / 2) / 2 ^ 53) \<le> draw h" unfolding draw_eq [OF n_def] by (rule f64_mono)
  moreover have "f64 ((1 / 2) / 2 ^ 53) = (1 / 2) / 2 ^ 53"
    using f64_exact [of 1 "- 54"] by (simp add: power_int_minus inverse_eq_divide)
  moreover have "0 < (1 / 2) / (2 ^ 53 :: rat)" by simp
  ultimately show ?thesis by linarith
qed

lemma draw_top:
  assumes "uint (drop_bit 11 h) = 2 ^ 53 - 1"
  shows "draw h = 1"
  unfolding draw_eq [OF assms [symmetric]] using f64_tie fl.rnd_1 by simp

lemma draw_below:
  assumes "uint (drop_bit 11 h) \<noteq> 2 ^ 53 - 1"
  shows "draw h < 1"
proof -
  define n where "n = uint (drop_bit 11 h)"
  have n: "n \<le> 2 ^ 53 - 2" using assms top_bits [of h] by (simp add: n_def)
  have top: "f64 (of_int (2 ^ 53 - 1)) = of_int (2 ^ 53 - 1)" by (rule f64_of_int) simp
  have "of_int n \<le> (of_int (2 ^ 53 - 2) :: rat)" using n unfolding of_int_le_iff .
  then have "f64 (of_int n + 1 / 2) \<le> f64 (of_int (2 ^ 53 - 1))" by (intro f64_mono) simp
  then have "f64 (of_int n + 1 / 2) / 2 ^ 53 \<le> of_int (2 ^ 53 - 1) / 2 ^ 53"
    unfolding top by (intro divide_right_mono) simp_all
  then have "draw h \<le> f64 (of_int (2 ^ 53 - 1) / 2 ^ 53)" unfolding draw_eq [OF n_def] by (rule f64_mono)
  also have "\<dots> = of_int (2 ^ 53 - 1) / 2 ^ 53"
  proof -
    have e: "of_int m / 2 ^ 53 = of_int m * (2 :: rat) powi (- 53)" for m :: int
      by (simp add: power_int_minus inverse_eq_divide)
    show ?thesis unfolding e by (rule f64_exact) simp_all
  qed
  also have "\<dots> < 1" by simp
  finally show ?thesis .
qed

lemma claim_below:
  "log_ok lg \<Longrightarrow> 0 < u \<Longrightarrow> u < 1 \<Longrightarrow> claim lg w u = Fin (f64 (float_of_int w / - lg u))"
  by (auto simp: claim_def log_ok_def)

lemma claim_one: "log_ok lg \<Longrightarrow> claim lg w 1 = NegInf"
  by (simp add: claim_def log_ok_def)

text \<open>
  The draw is not always below one, as the code's comment has it: the largest \<open>53\<close>-bit number
  and a half is a tie, and rounds up. The score is then minus infinity, below every other.
\<close>

lemma key_score_NegInf_iff:
  assumes "log_ok lg"
  shows "key_score lg h kh p = NegInf \<longleftrightarrow>
    uint (drop_bit 11 (mix (kh XOR hashKey (addr_of h p)))) = 2 ^ 53 - 1"
proof (cases "uint (drop_bit 11 (mix (kh XOR hashKey (addr_of h p)))) = 2 ^ 53 - 1")
  case True
  with draw_top [OF True] assms show ?thesis by (simp add: key_score_def claim_one)
next
  case False
  with claim_below [OF assms draw_pos draw_below [OF False]] show ?thesis by (simp add: key_score_def)
qed

text \<open>
  C40: Every backend has a hash of a key under which its score is minus infinity: the draw that the
  code takes to be in (0, 1) is then exactly 1. A pool that holds only that backend has no home for
  such a key, as \<open>Home_iff\<close> shows.
\<close>

lemma some_hash_has_no_score:
  assumes "log_ok lg"
  shows "\<exists>kh. key_score lg h kh p = NegInf"
proof -
  obtain x where x: "mix x = - 1" using mix_bij by (metis bij_pointE)
  have "uint (drop_bit 11 (- 1 :: u64)) = 2 ^ 53 - 1" by (simp add: unsigned_drop_bit_eq unsigned_minus_1_eq_mask drop_bit_mask_eq mask_eq_exp_minus_1)
  then have "key_score lg h (x XOR hashKey (addr_of h p)) p = NegInf"
    using x by (simp add: key_score_NegInf_iff [OF assms] xor.assoc)
  then show ?thesis ..
qed

subsection \<open>A change of the pool moves as few keys as it can\<close>

lemma Home_member:
  "hashes_ok h \<Longrightarrow> refs_ok h bs \<Longrightarrow> fst (Home lg h key bs) = Some p \<Longrightarrow> p \<in> set bs"
  by (simp add: Home_iff is_top_member)

lemma Home_filter:
  assumes "hashes_ok h" "refs_ok h bs" "fst (Home lg h key bs) = Some p" "P p"
  shows "fst (Home lg h key (filter P bs)) = Some p"
  using assms by (simp add: Home_iff is_top_filter)

text \<open>
  C26: When backends leave the pool, every key whose home stays keeps that home: a backend that
  leaves takes only its own keys with it.
\<close>

lemma Home_leave:
  assumes "hashes_ok h" "refs_ok h bs" "fst (Home lg h key bs) = Some p" "p \<notin> gone"
  shows "fst (Home lg h key (filter (\<lambda>q. q \<notin> gone) bs)) = Some p"
  using assms by (intro Home_filter)

text \<open>
  C27: When a backend joins the pool, at whatever place in it, every key stays where it was or moves
  to the new backend.
\<close>

lemma Home_join:
  assumes "hashes_ok h" "refs_ok h (xs @ new # ys)" "new \<notin> set (xs @ ys)"
    and "fst (Home lg h key (xs @ ys)) = Some p"
  shows "fst (Home lg h key (xs @ new # ys)) \<in> {Some p, Some new}"
proof -
  have refs: "refs_ok h (xs @ ys)" using assms(2) by (auto simp: refs_ok_def)
  have p: "p \<in> set (xs @ ys)" "key_score lg h (hashKey key) p \<noteq> NegInf"
    using Home_member [OF assms(1) refs assms(4)] assms(4)
    unfolding Home_iff(1) [OF assms(1) refs] by (blast, blast dest: is_top_score)
  then have "fst (Home lg h key (xs @ new # ys)) \<noteq> None"
    using Home_iff(2) [OF assms(1,2), of lg key] by auto
  then obtain q where q: "fst (Home lg h key (xs @ new # ys)) = Some q" by blast
  have "filter (\<lambda>b. b \<noteq> new) xs = xs" "filter (\<lambda>b. b \<noteq> new) ys = ys"
    using assms(3) by (simp_all add: filter_id_conv) blast+
  then have rest: "filter (\<lambda>b. b \<noteq> new) (xs @ new # ys) = xs @ ys" by simp
  show ?thesis
  proof (cases "q = new")
    case False
    with Home_filter [OF assms(1,2) q, of "\<lambda>b. b \<noteq> new"] have "fst (Home lg h key (xs @ ys)) = Some q"
      unfolding rest by simp
    with assms(4) q show ?thesis by simp
  qed (simp add: q)
qed

subsection \<open>Raising a weight\<close>

lemma claim_mono:
  assumes "log_ok lg" "0 < u" "u \<le> 1" "w \<le> w'"
  shows "\<not> flt (claim lg w' u) (claim lg w u)"
proof (cases "u = 1")
  case False
  then have u: "u < 1" "lg u < 0" using assms by (auto simp: log_ok_def)
  have "float_of_int w \<le> float_of_int w'" unfolding float_of_int_def using assms(4) by (intro f64_mono) simp
  then have "f64 (float_of_int w / - lg u) \<le> f64 (float_of_int w' / - lg u)"
    using u by (intro f64_mono divide_right_mono) auto
  then show ?thesis using claim_below [OF assms(1,2) u(1)] by simp
qed (simp add: assms(1) claim_one)

lemma draw_le_1: "draw h \<le> 1"
  using draw_top [of h] draw_below [of h] by (cases "uint (drop_bit 11 h) = 2 ^ 53 - 1") auto

lemma is_top_raise:
  assumes nums: "\<And>p. f p \<noteq> NaN" "\<And>p. g p \<noteq> NaN"
    and same: "\<And>q. q \<noteq> p \<Longrightarrow> q \<in> set bs \<Longrightarrow> g q = f q" and up: "\<not> flt (g p) (f p)"
    and tops: "is_top f bs r" "is_top g bs r'"
  shows "r' = r \<or> r' = p"
proof (rule ccontr)
  assume n: "\<not> (r' = r \<or> r' = p)"
  have mem: "r' \<in> set bs" "r \<in> set bs" using tops by (auto dest: is_top_member)
  have gr': "g r' = f r'" using n mem same by blast
  have le: "\<not> flt (f r) (f r')" "\<not> flt (g r') (g r)"
    using is_top_best [OF tops(1) mem(1)] is_top_best [OF tops(2) mem(2)] by auto
  have up_r: "\<not> flt (g r) (f r)" using up same mem by (cases "r = p") auto
  have eq: "f r' = f r" "g r = f r"
    using le up_r gr' nums by (metis flt_le_trans flt_linear)+
  obtain xs ys where r: "bs = xs @ r # ys" "\<forall>q\<in>set xs. flt (f q) (f r)"
    using tops(1) by (auto simp: is_top_def)
  obtain xs' ys' where r': "bs = xs' @ r' # ys'" "\<forall>q\<in>set xs'. flt (g q) (g r')"
    using tops(2) by (auto simp: is_top_def)
  have "r' \<notin> set xs" using r(2) eq by force
  moreover have "r \<notin> set xs'" using r'(2) eq gr' by force
  ultimately show False
    using r(1) r'(1) n append_eq_append_conv2 [of xs "r # ys" xs' "r' # ys'"]
    by (auto simp: Cons_eq_append_conv append_eq_Cons_conv)
qed

text \<open>
  When a backend's weight is raised, every key stays where it was or moves to that backend.
\<close>

lemma Home_raise_weight:
  assumes "log_ok lg" "hashes_ok h" "refs_ok h bs" "p \<in> set bs" "Weight h p \<le> w"
    and "fst (Home lg h key bs) = Some r"
  shows "fst (Home lg (SetWeight h p w) key bs) \<in> {Some r, Some p}"
proof -
  let ?h = "SetWeight h p w"
  let ?f = "key_score lg h (hashKey key)" and ?g = "key_score lg ?h (hashKey key)"
  have p: "p < length h" using assms(3,4) by (simp add: refs_ok_def)
  have ok: "hashes_ok ?h" "refs_ok ?h bs"
    using assms(2,3) p
    by (auto simp: hashes_ok_def refs_ok_def SetWeight_def update_cell_def
        dest!: set_update_subset_insert [THEN subsetD])
  have "weightOf h p \<le> weightOf ?h p" using assms(5) p by (simp add: weightOf_def)
  then have up: "\<not> flt (?g p) (?f p)"
    unfolding key_score_def addr_of_ops using assms(1) draw_pos draw_le_1 by (intro claim_mono)
  have same: "?g q = ?f q" if "q \<noteq> p" for q
    using that p by (simp add: key_score_def weightOf_def)
  have r: "r \<in> set bs" "?f r \<noteq> NegInf"
    using assms(6) unfolding Home_iff(1) [OF assms(2,3)] by (rule is_top_member, blast dest: is_top_score)
  have "?g r \<noteq> NegInf"
    using up same [of r] r(2) flt_NegInf_iff [of "?f p"] by (cases "r = p") auto
  then have "fst (Home lg ?h key bs) \<noteq> None" using r(1) unfolding Home_iff(2) [OF ok] by blast
  then obtain r' where r': "fst (Home lg ?h key bs) = Some r'" by blast
  then have "r' = r \<or> r' = p"
    using assms(6) up same unfolding Home_iff(1) [OF assms(2,3)] Home_iff(1) [OF ok]
    by (intro is_top_raise [where f = ?f and g = ?g and bs = bs]) auto
  with r' show ?thesis by auto
qed

subsection \<open>The bound on the load\<close>

lemma sum_list_int_cast: "(\<Sum>x\<leftarrow>xs. of_int (f x) :: rat) = of_int (\<Sum>x\<leftarrow>xs. f x)"
  by (induction xs) auto

text \<open>The weights' sum without a width, and where the code's is the same.\<close>

definition total_weight :: "heap \<Rightarrow> bref list \<Rightarrow> int" where
  "total_weight h bs = sum_list (map (weightOf h) bs)"

lemma totalWeight_exact:
  assumes "total_weight h bs < 2 ^ 63"
  shows "totalWeight h bs = total_weight h bs"
proof -
  have "foldl (\<lambda>sum p. wrap64 (sum + weightOf h p)) k bs = k + total_weight h bs"
    if "0 \<le> k" "k + total_weight h bs < 2 ^ 63" for k
    using that
  proof (induction bs arbitrary: k)
    case (Cons p bs)
    have "0 \<le> total_weight h bs"
      unfolding total_weight_def by (rule sum_list_nonneg) (auto simp: weightOf_def)
    moreover have "1 \<le> weightOf h p" by (simp add: weightOf_def)
    moreover have "k + weightOf h p + total_weight h bs < 2 ^ 63"
      using Cons.prems(2) by (simp add: total_weight_def)
    ultimately have "wrap64 (k + weightOf h p) = k + weightOf h p"
      and "foldl (\<lambda>sum p. wrap64 (sum + weightOf h p)) (k + weightOf h p) bs
        = k + weightOf h p + total_weight h bs"
      using Cons.prems(1) Cons.IH [of "k + weightOf h p"] by (simp_all add: wrap64_id)
    then show ?case by (simp add: total_weight_def)
  qed (simp add: total_weight_def)
  then show ?thesis using assms by (simp add: totalWeight_def)
qed

lemma total_weight_ge: "p \<in> set bs \<Longrightarrow> weightOf h p \<le> total_weight h bs"
  unfolding total_weight_def by (rule member_le_sum_list) (auto simp: weightOf_def)

definition small_pool :: "heap \<Rightarrow> bref list \<Rightarrow> bool" where
  "small_pool h bs \<longleftrightarrow> (\<forall>p\<in>set bs. 0 \<le> ActiveConnections h p)
     \<and> (in_flight h bs + 1) * total_weight h bs < 2 ^ 53"

lemma small_pool_in_flight: "small_pool h bs \<Longrightarrow> 0 \<le> in_flight h bs"
  unfolding in_flight_def small_pool_def by (rule sum_list_nonneg) auto

lemma bound_ge_share:
  assumes "100 \<le> balanceFactor" "small_pool h bs" "p \<in> set bs"
  shows "of_int (in_flight h bs + 1) * of_int (weightOf h p) / of_int (total_weight h bs)
       \<le> bound balanceFactor h bs p"
proof -
  define I where "I = in_flight h bs + 1"
  define w where "w = weightOf h p"
  define W where "W = total_weight h bs"
  have w: "1 \<le> w" "w \<le> W" using total_weight_ge [OF assms(3), of h] by (auto simp: w_def W_def weightOf_def)
  have "0 \<le> in_flight h bs" using assms(2) by (rule small_pool_in_flight)
  then have I: "1 \<le> I" by (simp add: I_def)
  have IW: "I * W < 2 ^ 53" using assms(2) by (simp add: small_pool_def I_def W_def)
  have Iw: "I * w \<le> I * W" using w I by (intro mult_left_mono) auto
  have le: "W \<le> I * W" "I \<le> I * W" "1 \<le> I * w" using w I by (simp_all add: mult_le_cancel_right1 mult_le_cancel_left1) (smt (verit) mult_pos_pos)
  then have exact: "float_of_int I = of_int I" "float_of_int w = of_int w" "float_of_int W = of_int W"
    "f64 (of_int (I * w)) = of_int (I * w)"
    unfolding float_of_int_def using w I IW Iw le by (intro f64_of_int; linarith)+
  define share :: rat where "share = f64 (of_int (I * w) / of_int W)"
  define factor :: rat where "factor = f64 (float_of_int balanceFactor / 100)"
  have "(of_int 100 :: rat) \<le> float_of_int balanceFactor"
    unfolding float_of_int_def using assms(1) by (intro fl.rnd_between_ints) auto
  then have "1 \<le> factor" unfolding factor_def by (intro fl.rnd_ge_1) simp
  then have "share \<le> f64 (factor * share)"
    unfolding share_def using w I by (intro fl.rnd_scale_ge) auto
  moreover have "\<lceil>of_int (I * w) / of_int W :: rat\<rceil> \<le> \<lceil>share\<rceil>"
    unfolding share_def using w IW Iw le by (intro f64_quotient_ceiling; linarith)
  ultimately have "\<lceil>of_int (I * w) / of_int W :: rat\<rceil> \<le> \<lceil>f64 (factor * share)\<rceil>"
    by (meson ceiling_mono order_trans)
  then have "of_int (I * w) / of_int W \<le> (of_int \<lceil>f64 (factor * share)\<rceil> :: rat)"
    by linarith
  moreover have "totalWeight h bs = W"
    unfolding W_def using le(1) IW by (intro totalWeight_exact) (simp add: W_def)
  then have "bound balanceFactor h bs p = of_int \<lceil>f64 (factor * share)\<rceil>"
    using exact by (simp add: bound_def Let_def factor_def share_def I_def [symmetric] w_def [symmetric] W_def [symmetric])
  ultimately show ?thesis by (simp add: I_def w_def W_def)
qed

lemma some_room:
  assumes "100 \<le> balanceFactor" "small_pool h bs" "bs \<noteq> []"
  shows "\<exists>p\<in>set bs. room balanceFactor h bs p"
proof (rule ccontr)
  assume "\<not> ?thesis"
  then have full: "bound balanceFactor h bs p \<le> float_of_int (ActiveConnections h p)" if "p \<in> set bs" for p
    using that by (auto simp: room_def not_less)
  have W: "0 < total_weight h bs"
  proof -
    obtain p where p: "p \<in> set bs" using assms(3) by (cases bs) auto
    then have "1 \<le> total_weight h bs" using total_weight_ge [OF p, of h] by (simp add: weightOf_def)
    then show ?thesis by simp
  qed
  have "0 \<le> in_flight h bs" using assms(2) by (rule small_pool_in_flight)
  have act: "float_of_int (ActiveConnections h p) = of_int (ActiveConnections h p)" if "p \<in> set bs" for p
  proof -
    have "ActiveConnections h p \<le> in_flight h bs"
      unfolding in_flight_def using assms(2) that by (intro member_le_sum_list) (auto simp: small_pool_def)
    also have "\<dots> < 2 ^ 53"
      using assms(2) W \<open>0 \<le> in_flight h bs\<close> unfolding small_pool_def
      by (smt (verit) mult_le_cancel_left1)
    finally show ?thesis
      using assms(2) that unfolding float_of_int_def by (intro f64_of_int) (auto simp: small_pool_def)
  qed
  let ?k = "of_int (in_flight h bs + 1) / of_int (total_weight h bs) :: rat"
  have "of_int (in_flight h bs + 1) = ?k * of_int (total_weight h bs)" using W by simp
  also have "\<dots> = (\<Sum>p\<leftarrow>bs. ?k * of_int (weightOf h p))"
    unfolding total_weight_def sum_list_int_cast [symmetric] by (simp only: sum_list_const_mult)
  also have "\<dots> \<le> (\<Sum>p\<leftarrow>bs. of_int (ActiveConnections h p))"
    using bound_ge_share [OF assms(1,2)] full act
    by (intro sum_list_mono) (fastforce simp: field_simps)
  also have "\<dots> = of_int (in_flight h bs)"
    unfolding in_flight_def by (rule sum_list_int_cast)
  finally show False by simp
qed

subsection \<open>\<open>SelectFor\<close>\<close>

lemma score_all_spec:
  assumes "hashes_ok h" "refs_ok h ps" "score_all lg h kh ps = (rs, h')"
  shows "rs = map (\<lambda>p. (p, key_score lg h kh p)) ps \<and> caches h h' \<and> hashes_ok h'"
  using assms
proof (induction ps arbitrary: h rs)
  case (Cons p ps)
  obtain s h1 where s: "score lg h kh p = (s, h1)" by fastforce
  obtain rs' where rs: "score_all lg h1 kh ps = (rs', h')" "rs = (p, s) # rs'"
    using Cons.prems(3) s by (auto split: prod.splits)
  have "p < length h" using Cons.prems(2) by simp
  note spec = score_spec [OF Cons.prems(1) this s]
  have refs: "refs_ok h1 ps" using Cons.prems(2) caches_length [OF spec(2)] by (simp add: refs_ok_def)
  have "map (\<lambda>p. (p, key_score lg h1 kh p)) ps = map (\<lambda>p. (p, key_score lg h kh p)) ps"
    using Cons.prems(2) by (auto simp: refs_ok_def caches_reads(4) [OF spec(2)])
  with Cons.IH [OF spec(3) refs rs(1)] show ?case
    using rs(2) spec(1) caches_trans [OF spec(2)] by auto
qed simp

definition ranked_down :: "(bref \<times> float64) list \<Rightarrow> bool" where
  "ranked_down rs \<longleftrightarrow> sorted_wrt (\<lambda>x y. \<not> flt (snd x) (snd y)) rs"

lemma set_insert_ranked: "set (insert_ranked x ys) = insert x (set ys)"
  by (induction ys) auto

lemma insert_ranked_down:
  assumes "snd x \<noteq> NaN" "\<forall>y\<in>set ys. snd y \<noteq> NaN" "ranked_down ys"
  shows "ranked_down (insert_ranked x ys)"
  using assms(2,3)
proof (induction ys)
  case (Cons y ys)
  have "\<not> flt (snd x) (snd z)" if "flt (snd y) (snd x)" "z \<in> set (y # ys)" for z
  proof
    assume "flt (snd x) (snd z)"
    with that(1) have "flt (snd y) (snd z)" by (rule flt_trans)
    with that(2) Cons.prems(2) show False by (auto simp: ranked_down_def)
  qed
  with Cons show ?case by (auto simp: ranked_down_def set_insert_ranked)
qed (simp add: ranked_down_def)

lemma sort_ranked_spec:
  assumes "\<forall>y\<in>set rs. snd y \<noteq> NaN"
  shows "set (sort_ranked rs) = set rs \<and> ranked_down (sort_ranked rs)"
  using assms
proof (induction rs rule: rev_induct)
  case Nil
  then show ?case by (simp add: sort_ranked_def ranked_down_def)
next
  case (snoc x rs)
  have "sort_ranked (rs @ [x]) = insert_ranked x (sort_ranked rs)" by (simp add: sort_ranked_def)
  with snoc insert_ranked_down [of x "sort_ranked rs"] show ?case by (auto simp: set_insert_ranked)
qed

text \<open>The first of a ranking that has room ranks highest of all that have.\<close>

lemma find_ranked:
  assumes "ranked_down rs" "find P rs = Some c" "d \<in> set rs" "P d"
  shows "\<not> flt (snd c) (snd d)"
proof -
  obtain i where i: "i < length rs" "P (rs ! i)" "c = rs ! i" "\<forall>j<i. \<not> P (rs ! j)"
    using assms(2) by (auto simp: find_Some_iff)
  obtain j where j: "j < length rs" "d = rs ! j" using assms(3) by (auto simp: in_set_conv_nth)
  then have "\<not> j < i" using i assms(4) by blast
  then show ?thesis using assms(1) i j by (cases "i = j") (auto simp: ranked_down_def sorted_wrt_iff_nth_less)
qed

lemma room_caches:
  assumes "caches h h'" "refs_ok h bs" "p \<in> set bs"
  shows "room bf h' bs p = room bf h bs p"
proof -
  have "in_flight h' bs = in_flight h bs" "totalWeight h' bs = totalWeight h bs"
    using assms(2) caches_reads [OF assms(1)]
    by (auto simp: in_flight_def totalWeight_def refs_ok_def intro!: arg_cong [where f = sum_list] foldl_cong)
  moreover have "p < length h" using assms(2,3) by (simp add: refs_ok_def)
  ultimately show ?thesis using caches_reads [OF assms(1)] by (simp add: room_def bound_def)
qed

text \<open>
  The outcome of a keyed selection: the home backend when the load is unbounded or the home has
  room; otherwise the highest score among the backends that have room, if one has.
\<close>

lemma SelectFor_home:
  assumes "hashes_ok h" "refs_ok h bs" "fst (Home lg h key bs) = Some p"
    and "bf = 0 \<or> room bf h bs p"
  shows "fst (SelectFor lg bf h key bs) = chose p"
proof -
  obtain h1 where home: "Home lg h key bs = (Some p, h1)" using assms(3) by (cases "Home lg h key bs") auto
  then have "caches h h1" using Home_spec(2) [OF assms(1,2), of lg key] by simp
  moreover have "p \<in> set bs" using assms(1-3) by (rule Home_member)
  ultimately have "room bf h1 bs p = room bf h bs p" using assms(2) by (intro room_caches)
  moreover have "bs \<noteq> []" using \<open>p \<in> set bs\<close> by auto
  ultimately show ?thesis using assms(4) home by (auto simp: SelectFor_def)
qed

lemma SelectFor_full:
  assumes "hashes_ok h" "refs_ok h bs" "fst (Home lg h key bs) = Some p"
    and "bf \<noteq> 0" "\<not> room bf h bs p" "\<exists>q\<in>set bs. room bf h bs q"
  shows "\<exists>q\<in>set bs. fst (SelectFor lg bf h key bs) = chose q \<and> room bf h bs q \<and>
     (\<forall>r\<in>set bs. room bf h bs r \<longrightarrow>
        \<not> flt (key_score lg h (hashKey key) q) (key_score lg h (hashKey key) r))"
proof -
  obtain h1 where home: "Home lg h key bs = (Some p, h1)" using assms(3) by (cases "Home lg h key bs") auto
  then have c1: "caches h h1" "hashes_ok h1" using Home_spec(2,3) [OF assms(1,2), of lg key] by auto
  have refs1: "refs_ok h1 bs" using assms(2) caches_length [OF c1(1)] by (simp add: refs_ok_def)
  have p: "p \<in> set bs" using assms(1-3) by (rule Home_member)
  obtain rs h2 where all: "score_all lg h1 (hashKey key) bs = (rs, h2)" by fastforce
  note all_spec = score_all_spec [OF c1(2) refs1 all]
  then have c2: "caches h h2" using c1(1) caches_trans by blast
  have rs: "rs = map (\<lambda>q. (q, key_score lg h (hashKey key) q)) bs"
    using all_spec assms(2) by (auto simp: refs_ok_def caches_reads(4) [OF c1(1)])
  then have sorted: "set (sort_ranked rs) = set rs" "ranked_down (sort_ranked rs)"
    using sort_ranked_spec [of rs] by auto
  define P where "P = (\<lambda>c :: bref \<times> float64. room bf h2 bs (fst c))"
  have P: "P c \<longleftrightarrow> room bf h bs (fst c)" if "c \<in> set (sort_ranked rs)" for c
  proof -
    have "fst c \<in> set bs" using that sorted(1) rs by auto
    then show ?thesis unfolding P_def by (rule room_caches [OF c2 assms(2)])
  qed
  have "find P (sort_ranked rs) \<noteq> None"
  proof -
    obtain q where q: "q \<in> set bs" "room bf h bs q" using assms(6) by blast
    then have in_rs: "(q, key_score lg h (hashKey key) q) \<in> set (sort_ranked rs)" using sorted(1) rs by auto
    with q P [OF in_rs] show ?thesis unfolding find_None_iff by auto
  qed
  then obtain c where c: "find P (sort_ranked rs) = Some c" by blast
  then have mem: "c \<in> set (sort_ranked rs)" "P c" by (auto dest: find_SomeD)
  then have cq: "fst c \<in> set bs" "snd c = key_score lg h (hashKey key) (fst c)" "room bf h bs (fst c)"
    using P sorted(1) rs by auto
  have "fst (SelectFor lg bf h key bs) = chose (fst c)"
    using p assms(4,5) home room_caches [OF c1(1) assms(2) p] all c
    by (auto simp: SelectFor_def P_def)
  moreover have "\<not> flt (snd c) (key_score lg h (hashKey key) r)" if "r \<in> set bs" "room bf h bs r" for r
    using find_ranked [OF sorted(2) c, of "(r, key_score lg h (hashKey key) r)"] that P sorted(1) rs by auto
  ultimately show ?thesis using cq by auto
qed

text \<open>
  C6: With a balance factor of at least 100, when the counters are not negative and the requests in
  flight times the total weight stay below \<open>2 ^ 53\<close> (where binary64 is exact): a keyed request goes to a
  backend that has room for it under the bound, the one with the highest score among those that
  have, unless no candidate has a score above minus infinity; then, and only then, the code
  dereferences the home backend that is nil.
\<close>

lemma SelectFor_room:
  assumes "hashes_ok h" "refs_ok h bs" "bs \<noteq> []" "100 \<le> bf" "small_pool h bs"
  shows "if \<forall>q\<in>set bs. key_score lg h (hashKey key) q = NegInf
     then fst (SelectFor lg bf h key bs) = Inl NilBackend
     else (\<exists>q\<in>set bs. fst (SelectFor lg bf h key bs) = chose q \<and> room bf h bs q
       \<and> (\<forall>r\<in>set bs. room bf h bs r \<longrightarrow>
            \<not> flt (key_score lg h (hashKey key) q) (key_score lg h (hashKey key) r)))"
proof (cases "fst (Home lg h key bs)")
  case None
  then have "fst (SelectFor lg bf h key bs) = Inl NilBackend"
    using assms(3,4) by (auto simp: SelectFor_def split: prod.split)
  with None Home_iff(2) [OF assms(1,2)] show ?thesis by simp
next
  case (Some p)
  then have mem: "p \<in> set bs" using assms(1,2) by (blast intro: Home_member)
  have best: "\<forall>r\<in>set bs. \<not> flt (key_score lg h (hashKey key) p) (key_score lg h (hashKey key) r)"
    using Some is_top_best unfolding Home_iff(1) [OF assms(1,2)] by blast
  have "\<exists>q\<in>set bs. room bf h bs q" using assms(3-5) by (intro some_room)
  then have "\<exists>q\<in>set bs. fst (SelectFor lg bf h key bs) = chose q \<and> room bf h bs q
       \<and> (\<forall>r\<in>set bs. room bf h bs r \<longrightarrow>
            \<not> flt (key_score lg h (hashKey key) q) (key_score lg h (hashKey key) r))"
    using SelectFor_home [OF assms(1,2) Some, of bf] SelectFor_full [OF assms(1,2) Some, of bf] mem best assms(4)
    by (cases "room bf h bs p") (blast, simp)
  moreover have "\<not> (\<forall>q\<in>set bs. key_score lg h (hashKey key) q = NegInf)"
    using Some Home_iff(2) [OF assms(1,2), of lg key] by simp
  ultimately show ?thesis by (simp only: if_False)
qed

text \<open>What a keyed selection leaves behind: only hashes of addresses.\<close>

lemma SelectFor_caches:
  assumes "hashes_ok h" "refs_ok h bs"
  shows "caches h (snd (SelectFor lg bf h key bs)) \<and> hashes_ok (snd (SelectFor lg bf h key bs))"
proof -
  obtain home h1 where home: "Home lg h key bs = (home, h1)" by fastforce
  then have c1: "caches h h1" "hashes_ok h1" using Home_spec(2,3) [OF assms, of lg key] by auto
  have refs1: "refs_ok h1 bs" using assms(2) caches_length [OF c1(1)] by (simp add: refs_ok_def)
  obtain rs h2 where all: "score_all lg h1 (hashKey key) bs = (rs, h2)" by fastforce
  then have "caches h h2" "hashes_ok h2"
    using score_all_spec [OF c1(2) refs1 all] caches_trans [OF c1(1)] by auto
  then show ?thesis
    using home c1 all assms(1) by (auto simp: SelectFor_def split: option.splits)
qed

lemma SelectFor_error_iff:
  "fst (SelectFor lg bf h key bs) = Inl ErrNoBackends \<longleftrightarrow> bs = []"
  by (auto simp: SelectFor_def split: prod.splits option.splits)

text \<open>
  A keyed selection keeps no trace that another one could see: whatever was selected before, for
  whatever key and candidates, the home of a key is the same.
\<close>

lemma Home_stateless:
  assumes "hashes_ok h" "refs_ok h earlier" "refs_ok h bs"
  shows "fst (Home lg (snd (SelectFor lg bf h key' earlier)) key bs) = fst (Home lg h key bs)"
proof -
  define h' where "h' = snd (SelectFor lg bf h key' earlier)"
  have c: "caches h h'" "hashes_ok h'"
    using SelectFor_caches [OF assms(1,2), of lg bf key'] by (auto simp: h'_def)
  have refs: "refs_ok h' bs" using assms(3) caches_length [OF c(1)] by (simp add: refs_ok_def)
  have "top_loop (key_score lg h' kh) bs None NegInf = top_loop (key_score lg h kh) bs None NegInf" for kh
    using assms(3) by (intro top_loop_cong caches_reads(4) [OF c(1)]) (simp add: refs_ok_def)
  then show ?thesis
    unfolding h'_def [symmetric] Home_spec(1) [OF c(2) refs] Home_spec(1) [OF assms(1,3)] .
qed

subsection \<open>A concrete pool\<close>

text \<open>
  Two backends and a key that belongs to the second, under \<open>u - 1\<close>, the first term of the
  logarithm's series at one.
\<close>

definition ex_log :: "rat \<Rightarrow> rat" where
  "ex_log u = u - 1"

definition ex_heap :: "int \<Rightarrow> heap" where
  "ex_heap busy = [\<lparr>b_addr = ''a'', b_weight = 1, b_active = 0, b_hash = 0\<rparr>,
                   \<lparr>b_addr = ''b'', b_weight = 1, b_active = busy, b_hash = 0\<rparr>]"

lemma ex_log_ok: "log_ok ex_log"
  by (simp add: log_ok_def ex_log_def)

lemma ex_heap_ok: "hashes_ok (ex_heap n)" "refs_ok (ex_heap n) [0, 1]"
  by (simp_all add: hashes_ok_def ex_heap_def)

text \<open>The draw is the top 53 bits of the hash as a fraction, up to one in the last place.\<close>

lemma draw_between:
  assumes "n = uint (drop_bit 11 h)"
  shows "of_int n / 2 ^ 53 \<le> draw h" "draw h \<le> of_int (n + 1) / 2 ^ 53"
proof -
  have n: "0 \<le> n" "n + 1 \<le> 2 ^ 53" using top_bits [of h] assms by auto
  have e: "of_int m / 2 ^ 53 = of_int m * (2 :: rat) powi (- 53)" for m :: int
    by (simp add: power_int_minus inverse_eq_divide)
  have exact: "f64 (of_int m / 2 ^ 53) = of_int m / 2 ^ 53" if "0 \<le> m" "m \<le> 2 ^ 53" for m :: int
    unfolding e using that by (intro f64_exact) simp_all
  have "of_int n \<le> f64 (of_int n + 1 / 2)" using n by (intro fl.rnd_between_ints) auto
  then have "f64 (of_int n / 2 ^ 53) \<le> draw h"
    unfolding draw_eq [OF assms] by (intro f64_mono divide_right_mono) auto
  then show "of_int n / 2 ^ 53 \<le> draw h" using n by (subst (asm) exact) auto
  have "f64 (of_int n + 1 / 2) \<le> f64 (of_int (n + 1))" by (intro f64_mono) simp
  also have "\<dots> = of_int (n + 1)" using n by (intro f64_of_int) auto
  finally have "f64 (of_int n + 1 / 2) \<le> of_int (n + 1)" .
  then have "draw h \<le> f64 (of_int (n + 1) / 2 ^ 53)"
    unfolding draw_eq [OF assms] by (intro f64_mono divide_right_mono) auto
  then show "draw h \<le> of_int (n + 1) / 2 ^ 53" using n by (subst (asm) exact) auto
qed

lemma ex_claim:
  assumes "u < 1"
  shows "claim ex_log 1 u = Fin (f64 (1 / (1 - u)))"
  using assms fl.rnd_1 by (simp add: claim_def ex_log_def float_of_int_def)

lemma ex_scores:
  "\<exists>x. key_score ex_log (ex_heap n) (hashKey ''z'') 0 = Fin x \<and> x \<le> 5 / 2"
  "\<exists>x. key_score ex_log (ex_heap n) (hashKey ''z'') 1 = Fin x \<and> 11 / 4 \<le> x"
proof -
  have "drop_bit 11 (mix (hashKey ''z'' XOR hashKey ''a'')) = 5102776818697201"
    "drop_bit 11 (mix (hashKey ''z'' XOR hashKey ''b'')) = 5951842026588057"
    by (simp_all add: hashKey_def fnv_step_def mix_def xor_shift_def)
  note bits = this
  have u: "draw (mix (hashKey ''z'' XOR hashKey ''a'')) \<le> 3 / 5"
      "7 / 11 \<le> draw (mix (hashKey ''z'' XOR hashKey ''b''))"
      "draw (mix (hashKey ''z'' XOR hashKey ''b'')) < 1"
    using draw_between [OF refl, of "mix (hashKey ''z'' XOR hashKey ''a'')", unfolded bits]
      draw_between [OF refl, of "mix (hashKey ''z'' XOR hashKey ''b'')", unfolded bits]
    by simp_all
  have half: "f64 (5 / 2) = 5 / 2" "f64 (11 / 4) = 11 / 4"
    using f64_exact [of 5 "- 1"] f64_exact [of 11 "- 2"] by (simp_all add: power_int_minus)
  show "\<exists>x. key_score ex_log (ex_heap n) (hashKey ''z'') 0 = Fin x \<and> x \<le> 5 / 2"
  proof -
    have "f64 (1 / (1 - draw (mix (hashKey ''z'' XOR hashKey ''a'')))) \<le> f64 (5 / 2)"
      using u(1) by (intro f64_mono) (simp add: field_simps)
    then show ?thesis using u(1) half by (simp add: key_score_def ex_heap_def weightOf_def Weight_def ex_claim)
  qed
  show "\<exists>x. key_score ex_log (ex_heap n) (hashKey ''z'') 1 = Fin x \<and> 11 / 4 \<le> x"
  proof -
    have "f64 (11 / 4) \<le> f64 (1 / (1 - draw (mix (hashKey ''z'' XOR hashKey ''b''))))"
      using u(2,3) by (intro f64_mono) (simp add: field_simps)
    then show ?thesis using u(3) half by (simp add: key_score_def ex_heap_def weightOf_def Weight_def ex_claim)
  qed
qed

lemma ex_home: "fst (Home ex_log (ex_heap n) ''z'' [0, 1]) = Some 1"
proof -
  have "is_top (key_score ex_log (ex_heap n) (hashKey ''z'')) [0, 1] 1"
    using ex_scores [of n] by (intro is_topI [of _ "[0]" _ "[]"]) auto
  then show ?thesis using ex_heap_ok by (simp add: Home_iff)
qed

lemma ex_home_first: "fst (Home ex_log (ex_heap n) ''z'' [0]) = Some 0"
proof -
  have "is_top (key_score ex_log (ex_heap n) (hashKey ''z'')) [0] 0"
    using ex_scores(1) [of n] by (intro is_topI [of _ "[]" _ "[]"]) auto
  then show ?thesis using ex_heap_ok(1) [of n] by (simp add: Home_iff ex_heap_def)
qed

lemma Home_leave_witness: "fst (Home ex_log (ex_heap 0) ''z'' (filter (\<lambda>q. q \<notin> {0}) [0, 1])) = Some 1"
  by (rule Home_leave [OF ex_heap_ok ex_home]) simp

lemma Home_join_witness: "fst (Home ex_log (ex_heap 0) ''z'' ([0] @ 1 # [])) \<in> {Some 0, Some 1}"
  by (rule Home_join) (use ex_heap_ok [of 0] ex_home_first [of 0] in simp_all)

lemma Home_raise_weight_witness:
  "fst (Home ex_log (SetWeight (ex_heap 0) 0 5) ''z'' [0, 1]) \<in> {Some 1, Some 0}"
  by (rule Home_raise_weight [OF ex_log_ok ex_heap_ok _ _ ex_home]) (simp_all add: Weight_def ex_heap_def)

lemma Home_stateless_witness:
  "fst (Home ex_log (snd (SelectFor ex_log 125 (ex_heap 3) ''k'' [0, 1])) ''z'' [0, 1]) =
   fst (Home ex_log (ex_heap 3) ''z'' [0, 1])"
  by (rule Home_stateless [OF ex_heap_ok ex_heap_ok(2)])

lemma some_hash_has_no_score_witness: "\<exists>kh. key_score ex_log (ex_heap 0) kh 1 = NegInf"
  by (rule some_hash_has_no_score [OF ex_log_ok])

lemma hashKey_one_byte_witness:
  "hashKey (''session-'' @ CHR ''1'' # []) \<noteq> hashKey (''session-'' @ CHR ''2'' # [])"
  by (rule hashKey_one_byte) simp

text \<open>The home backend is serving three requests, its bound is two; the other one has room.\<close>

lemma SelectFor_room_witness:
  "if \<forall>q\<in>set [0, 1]. key_score ex_log (ex_heap 3) (hashKey ''z'') q = NegInf
   then fst (SelectFor ex_log 100 (ex_heap 3) ''z'' [0, 1]) = Inl NilBackend
   else (\<exists>q\<in>set [0, 1]. fst (SelectFor ex_log 100 (ex_heap 3) ''z'' [0, 1]) = chose q
     \<and> room 100 (ex_heap 3) [0, 1] q
     \<and> (\<forall>r\<in>set [0, 1]. room 100 (ex_heap 3) [0, 1] r \<longrightarrow>
          \<not> flt (key_score ex_log (ex_heap 3) (hashKey ''z'') q) (key_score ex_log (ex_heap 3) (hashKey ''z'') r)))"
proof (rule SelectFor_room [OF ex_heap_ok])
  show "small_pool (ex_heap 3) [0, 1]"
    by (simp add: small_pool_def in_flight_def total_weight_def ActiveConnections_def
        weightOf_def Weight_def ex_heap_def)
qed simp_all

end
