(* ===== verification/Strategies.thy ===== *)
theory Strategies
  imports Round_Robin Weighted_Round_Robin Consistent_Hash
begin

text \<open>
  The strategies behind their interfaces: \<open>New\<close> and \<open>Name\<close> of \<open>internal/balancer/balancer.go\<close>
  and the dispatch on \<open>LBStrategy\<close>, \<open>RetryStrategy\<close> and \<open>KeyedStrategy\<close>. A strategy is its
  state; which of the optional interfaces it implements is a test on its constructor, as the type
  assertions of \<open>internal/proxy/hashing.go\<close> are. The lemmas: whatever the algorithm, a selection
  returns a backend of the candidates, or \<open>ErrNoBackends\<close> exactly when there are none; and a
  valid configuration always names a strategy.
\<close>

datatype strategy =
    RoundRobinStrategy u64
  | LeastConnectionsStrategy
  | WeightedRoundRobinStrategy credits
  | ConsistentHashStrategy int

definition New :: "Algorithm \<Rightarrow> ConsistentHash \<Rightarrow> string + strategy" where
  "New algorithm hash =
     (if algorithm = RoundRobin then Inr (RoundRobinStrategy 0)
      else if algorithm = LeastConnections then Inr LeastConnectionsStrategy
      else if algorithm = WeightedRoundRobin then Inr (WeightedRoundRobinStrategy NewWeightedRoundRobin)
      else if algorithm = ConsistentHashing then Inr (ConsistentHashStrategy (ch_balance_factor hash))
      else Inl algorithm)"

fun Name :: "strategy \<Rightarrow> string" where
  "Name (RoundRobinStrategy _) = RoundRobin"
| "Name LeastConnectionsStrategy = LeastConnections"
| "Name (WeightedRoundRobinStrategy _) = WeightedRoundRobin"
| "Name (ConsistentHashStrategy _) = ConsistentHashing"

fun Select :: "strategy \<Rightarrow> tape \<Rightarrow> heap \<Rightarrow> bref list \<Rightarrow> choice \<times> strategy \<times> tape" where
  "Select (RoundRobinStrategy next) t h bs =
     (case RoundRobin_Select next bs of (c, next') \<Rightarrow> (c, RoundRobinStrategy next', t))"
| "Select LeastConnectionsStrategy t h bs =
     (case LeastConnections_Select t h bs of (c, t') \<Rightarrow> (c, LeastConnectionsStrategy, t'))"
| "Select (WeightedRoundRobinStrategy credit) t h bs =
     (case WeightedRoundRobin_Select credit h bs of
        (c, credit') \<Rightarrow> (c, WeightedRoundRobinStrategy credit', t))"
| "Select (ConsistentHashStrategy factor) t h bs =
     (case ConsistentHash_Select t h bs of (c, t') \<Rightarrow> (c, ConsistentHashStrategy factor, t'))"

text \<open>The choice of a retry: by turns only under a strategy that takes turns.\<close>

fun SelectRetry :: "strategy \<Rightarrow> tape \<Rightarrow> heap \<Rightarrow> bref list \<Rightarrow> choice \<times> strategy \<times> tape" where
  "SelectRetry (RoundRobinStrategy next) t h bs =
     (RoundRobin_SelectRetry next bs, RoundRobinStrategy next, t)"
| "SelectRetry s t h bs = Select s t h bs"

text \<open>The balance factor, when the strategy places requests by key.\<close>

fun keyed :: "strategy \<Rightarrow> int option" where
  "keyed (ConsistentHashStrategy factor) = Some factor"
| "keyed _ = None"

lemma fst_Select:
  "fst (Select (RoundRobinStrategy next) t h bs) = fst (RoundRobin_Select next bs)"
  "fst (Select LeastConnectionsStrategy t h bs) = fst (LeastConnections_Select t h bs)"
  "fst (Select (WeightedRoundRobinStrategy credit) t h bs) = fst (WeightedRoundRobin_Select credit h bs)"
  "fst (Select (ConsistentHashStrategy factor) t h bs) = fst (ConsistentHash_Select t h bs)"
  by (simp_all add: case_prod_beta)

lemma Select_empty: "fst (Select s t h []) = Inl ErrNoBackends"
  using rr.select_empty lc.select_empty wrr.select_empty ch_keyless.select_empty
  by (cases s) (simp_all only: fst_Select fst_conv)

lemma Select_member:
  assumes "bs \<noteq> []"
  shows "\<exists>p\<in>set bs. fst (Select s t h bs) = chose p"
  using rr.select_member [OF assms] lc.select_member [OF assms] wrr.select_member [OF assms]
    ch_keyless.select_member [OF assms]
  by (cases s) (simp_all only: fst_Select fst_conv)

lemma SelectRetry_cases:
  "SelectRetry s t h bs = Select s t h bs \<or>
   (\<exists>next. s = RoundRobinStrategy next \<and> fst (SelectRetry s t h bs) = RoundRobin_SelectRetry next bs
      \<and> snd (SelectRetry s t h bs) = (s, t))"
  by (cases s) auto

interpretation strat: lb_strategy Select
  by unfold_locales (simp add: Select_empty, erule Select_member)

interpretation strat_retry: lb_strategy SelectRetry
proof unfold_locales
  fix s t h
  show "fst (SelectRetry s t h []) = Inl ErrNoBackends"
    using SelectRetry_cases [of s t h "[]"] Select_empty rr_retry.select_empty by auto
next
  fix bs :: "bref list" and s t h
  assume "bs \<noteq> []"
  then show "\<exists>p\<in>set bs. fst (SelectRetry s t h bs) = chose p"
    using SelectRetry_cases [of s t h bs] Select_member rr_retry.select_member by auto
qed

subsection \<open>Properties\<close>

text \<open>
  Whatever the configured algorithm, its state, the random draws and the pool, a selection and a
  retry's selection return one of the candidates, or \<open>ErrNoBackends\<close>, exactly when there are none.
\<close>

lemma Select_total:
  "(if bs = [] then fst (Select s t h bs) = Inl ErrNoBackends \<and> fst (SelectRetry s t h bs) = Inl ErrNoBackends
    else (\<exists>p\<in>set bs. fst (Select s t h bs) = chose p) \<and> (\<exists>p\<in>set bs. fst (SelectRetry s t h bs) = chose p))"
  using strat.select_empty strat.select_member strat_retry.select_empty strat_retry.select_member
  by (cases "bs = []") simp_all

text \<open>
  Every configuration that passes validation names a strategy, which reports itself under the
  name it was configured by.
\<close>

lemma New_validated:
  assumes "validate c = []"
  shows "\<exists>s. New (c_algorithm c) (c_consistent_hash c) = Inr s \<and> Name s = c_algorithm c"
  using assms unfolding validate_Nil_iff rest_ok_def
  by (auto simp: New_def constant_defs)

lemma New_validated_witness:
  "\<exists>s. New (c_algorithm (applyDefaults ex_file_config)) (c_consistent_hash (applyDefaults ex_file_config)) = Inr s
     \<and> Name s = c_algorithm (applyDefaults ex_file_config)"
  by (rule New_validated [OF ex_file_validates])

end
