(* ===== verification/Health.thy ===== *)
theory Health
  imports Backends
begin

text \<open>
  \<open>internal/health/health.go\<close>: the health of the backends. \<open>HTTPChecker\<close> is the settings and
  the table of states; the goroutines that probe on a schedule (\<open>Health_Probing\<close>) call \<open>probe\<close>, with
  the outcome of the HTTP exchange as its argument. The interface \<open>Checker\<close> is the locale
  \<open>checker\<close>. The lemmas: over any history of outcomes, active and passive together, a backend is out of
  the pool exactly when some unbroken run of failures reached the threshold and no unbroken run of
  successes has since; a reload keeps what is known of the backends that survive it.
\<close>

record health_state =
  st_healthy :: bool
  st_successes :: int
  st_failures :: int

record HTTPChecker =
  hk_cfg :: HealthCheck
  hk_backends :: "string \<rightharpoonup> health_state"

definition New :: "HealthCheck \<Rightarrow> HTTPChecker" where
  "New cfg = \<lparr>hk_cfg = cfg, hk_backends = Map.empty\<rparr>"

definition reload_loop :: "(string \<rightharpoonup> health_state) \<Rightarrow> string list \<Rightarrow> (string \<rightharpoonup> health_state)" where
  "reload_loop known addrs =
     foldl (\<lambda>kept a. case known a of
                       Some st \<Rightarrow> kept(a \<mapsto> st)
                     | None \<Rightarrow> kept(a \<mapsto> \<lparr>st_healthy = True, st_successes = 0, st_failures = 0\<rparr>))
           Map.empty addrs"

text \<open>\<open>Reload\<close>, and the addresses whose probing it starts.\<close>

definition Reload :: "HTTPChecker \<Rightarrow> HealthCheck \<Rightarrow> heap \<Rightarrow> bref list \<Rightarrow> HTTPChecker \<times> string list" where
  "Reload c cfg h bs =
     (c\<lparr>hk_cfg := cfg, hk_backends := reload_loop (hk_backends c) (map (addr_of h) bs)\<rparr>,
      map (addr_of h) bs)"

definition Start :: "HTTPChecker \<Rightarrow> heap \<Rightarrow> bref list \<Rightarrow> HTTPChecker \<times> string list" where
  "Start c h bs = Reload c (hk_cfg c) h bs"

definition IsHealthy :: "HTTPChecker \<Rightarrow> string \<Rightarrow> bool" where
  "IsHealthy c a = (case hk_backends c a of None \<Rightarrow> True | Some st \<Rightarrow> st_healthy st)"

definition record_state :: "HealthCheck \<Rightarrow> health_state \<Rightarrow> bool \<Rightarrow> health_state" where
  "record_state cfg st succeeded =
     (if succeeded then
        (let st1 = st\<lparr>st_failures := 0, st_successes := st_successes st + 1\<rparr>
         in if \<not> st_healthy st1 \<and> st_successes st1 \<ge> hc_healthy_threshold cfg
            then st1\<lparr>st_healthy := True\<rparr> else st1)
      else
        (let st1 = st\<lparr>st_successes := 0, st_failures := st_failures st + 1\<rparr>
         in if st_healthy st1 \<and> st_failures st1 \<ge> hc_unhealthy_threshold cfg
            then st1\<lparr>st_healthy := False\<rparr> else st1))"

definition record_outcome :: "HTTPChecker \<Rightarrow> string \<Rightarrow> bool \<Rightarrow> HTTPChecker" where
  "record_outcome c a succeeded =
     (case hk_backends c a of
        None \<Rightarrow> c
      | Some st \<Rightarrow> c\<lparr>hk_backends := (hk_backends c)(a \<mapsto> record_state (hk_cfg c) st succeeded)\<rparr>)"

definition ReportSuccess :: "HTTPChecker \<Rightarrow> string \<Rightarrow> HTTPChecker" where
  "ReportSuccess c a = record_outcome c a True"

definition ReportFailure :: "HTTPChecker \<Rightarrow> string \<Rightarrow> HTTPChecker" where
  "ReportFailure c a = record_outcome c a False"

text \<open>
  How the exchange of one probe ends. A probe that is under way when \<open>Reload\<close> cancels its context
  ends as \<open>Cancelled\<close>: \<open>client.Do\<close> returns the context's error, like any other.
\<close>

datatype exchange = BadURL | Failed | Cancelled | Answered int

definition probe :: "HTTPChecker \<Rightarrow> string \<Rightarrow> exchange \<Rightarrow> HTTPChecker" where
  "probe c a ex =
     (case ex of
        BadURL \<Rightarrow> record_outcome c a False
      | Failed \<Rightarrow> record_outcome c a False
      | Cancelled \<Rightarrow> record_outcome c a False
      | Answered status \<Rightarrow> record_outcome c a (200 \<le> status \<and> status < 300))"

subsection \<open>The interface\<close>

locale checker =
  fixes is_healthy :: "'c \<Rightarrow> string \<Rightarrow> bool"
    and report :: "'c \<Rightarrow> string \<Rightarrow> bool \<Rightarrow> 'c"
  assumes report_other: "b \<noteq> a \<Longrightarrow> is_healthy (report c a ok) b = is_healthy c b"
    and report_success: "is_healthy c a \<Longrightarrow> is_healthy (report c a True) a"
    and report_failure: "\<not> is_healthy c a \<Longrightarrow> \<not> is_healthy (report c a False) a"
begin

text \<open>Reports on other backends, however many, say nothing of this one.\<close>

lemma reports_other:
  "\<forall>r\<in>set rs. fst r \<noteq> b \<Longrightarrow> is_healthy (foldl (\<lambda>c r. report c (fst r) (snd r)) c rs) b = is_healthy c b"
proof (induction rs arbitrary: c)
  case (Cons r rs)
  then have "fst r \<noteq> b" "\<forall>r\<in>set rs. fst r \<noteq> b" by auto
  with Cons.IH show ?case using report_other [of b "fst r"] by simp
qed simp

text \<open>While only successes are reported, no backend leaves the pool.\<close>

lemma reports_success:
  "is_healthy c b \<Longrightarrow> \<forall>r\<in>set rs. snd r \<Longrightarrow> is_healthy (foldl (\<lambda>c r. report c (fst r) (snd r)) c rs) b"
proof (induction rs arbitrary: c)
  case (Cons r rs)
  have "is_healthy (report c (fst r) (snd r)) b"
    using Cons.prems report_success report_other by (cases "fst r = b") auto
  with Cons show ?case by simp
qed simp

end

lemma record_state_healthy:
  "st_healthy (record_state cfg st ok) =
     (if ok then st_healthy st \<or> st_successes st + 1 \<ge> hc_healthy_threshold cfg
      else st_healthy st \<and> st_failures st + 1 < hc_unhealthy_threshold cfg)"
  by (cases ok) (auto simp: record_state_def Let_def)

lemma record_state_counts [simp]:
  "st_successes (record_state cfg st ok) = (if ok then st_successes st + 1 else 0)"
  "st_failures (record_state cfg st ok) = (if ok then 0 else st_failures st + 1)"
  by (simp_all add: record_state_def Let_def)

lemma record_outcome_other: "b \<noteq> a \<Longrightarrow> hk_backends (record_outcome c a ok) b = hk_backends c b"
  by (simp add: record_outcome_def split: option.split)

lemma record_outcome_here:
  "hk_backends (record_outcome c a ok) a = map_option (\<lambda>st. record_state (hk_cfg c) st ok) (hk_backends c a)"
  by (simp add: record_outcome_def split: option.split)

lemma record_outcome_cfg [simp]: "hk_cfg (record_outcome c a ok) = hk_cfg c"
  by (simp add: record_outcome_def split: option.split)

interpretation http: checker IsHealthy record_outcome
proof unfold_locales
  fix a b :: string and c ok
  show "b \<noteq> a \<Longrightarrow> IsHealthy (record_outcome c a ok) b = IsHealthy c b"
    by (simp add: IsHealthy_def record_outcome_other)
  show "IsHealthy c a \<Longrightarrow> IsHealthy (record_outcome c a True) a"
    by (simp add: IsHealthy_def record_outcome_here record_state_healthy split: option.splits)
  show "\<not> IsHealthy c a \<Longrightarrow> \<not> IsHealthy (record_outcome c a False) a"
    by (simp add: IsHealthy_def record_outcome_here record_state_healthy split: option.splits)
qed

subsection \<open>Histories of outcomes\<close>

definition run_of :: "bool \<Rightarrow> bool list \<Rightarrow> nat" where
  "run_of b outcomes = length (takeWhile (\<lambda>x. x = b) (rev outcomes))"

lemma run_of_snoc [simp]: "run_of b (xs @ [x]) = (if x = b then Suc (run_of b xs) else 0)"
  by (simp add: run_of_def)

lemma run_of_Nil [simp]: "run_of b [] = 0"
  by (simp add: run_of_def)

text \<open>The run that ends a history is at least \<open>n\<close> long exactly when the history ends in one.\<close>

lemma run_of_ge_iff: "n \<le> run_of b xs \<longleftrightarrow> (\<exists>ys. xs = ys @ replicate n b)"
proof (induction xs arbitrary: n rule: rev_induct)
  case (snoc x xs)
  show ?case
  proof (cases n)
    case (Suc m)
    have "(\<exists>ys. xs @ [x] = ys @ replicate (Suc m) b) \<longleftrightarrow> x = b \<and> (\<exists>ys. xs = ys @ replicate m b)"
      by (auto simp: replicate_append_same [symmetric])
    with Suc snoc [of m] show ?thesis by auto
  qed simp
qed auto

fun replay :: "HealthCheck \<Rightarrow> health_state \<Rightarrow> bool list \<Rightarrow> health_state" where
  "replay cfg st [] = st"
| "replay cfg st (x # xs) = replay cfg (record_state cfg st x) xs"

lemma replay_append: "replay cfg st (xs @ ys) = replay cfg (replay cfg st xs) ys"
  by (induction xs arbitrary: st) auto

abbreviation fresh_state :: health_state where
  "fresh_state \<equiv> \<lparr>st_healthy = True, st_successes = 0, st_failures = 0\<rparr>"

lemma replay_counts:
  "st_successes (replay cfg fresh_state xs) = int (run_of True xs)"
  "st_failures (replay cfg fresh_state xs) = int (run_of False xs)"
  by (induction xs rule: rev_induct) (auto simp: replay_append)

lemma replay_healthy_snoc:
  "st_healthy (replay cfg fresh_state (xs @ [x])) =
     (if x then st_healthy (replay cfg fresh_state xs) \<or> hc_healthy_threshold cfg \<le> int (run_of True (xs @ [x]))
      else st_healthy (replay cfg fresh_state xs) \<and> int (run_of False (xs @ [x])) < hc_unhealthy_threshold cfg)"
  by (simp add: replay_append record_state_healthy replay_counts add.commute)

text \<open>
  The reference: a history takes the backend out when it holds a run of \<open>down\<close> failures after
  which no run of \<open>up\<close> successes follows.
\<close>

definition recovered :: "nat \<Rightarrow> nat \<Rightarrow> bool list \<Rightarrow> bool" where
  "recovered up down xs \<longleftrightarrow>
     (\<forall>ys zs. xs = ys @ replicate down False @ zs \<longrightarrow> sublist (replicate up True) zs)"

lemma sublist_snoc_iff:
  "sublist xs (ys @ [y]) \<longleftrightarrow> sublist xs ys \<or> (\<exists>us. ys @ [y] = us @ xs)"
proof
  assume "sublist xs (ys @ [y])"
  then obtain ps ss where d: "ys @ [y] = ps @ xs @ ss" by (auto simp: sublist_def)
  show "sublist xs ys \<or> (\<exists>us. ys @ [y] = us @ xs)"
  proof (cases ss rule: rev_cases)
    case Nil
    with d show ?thesis by auto
  next
    case (snoc ss' s)
    with d have "ys = ps @ xs @ ss'" by (simp flip: append_assoc)
    then show ?thesis by (auto simp: sublist_def)
  qed
next
  assume "sublist xs ys \<or> (\<exists>us. ys @ [y] = us @ xs)"
  then show "sublist xs (ys @ [y])"
  proof
    assume "sublist xs ys"
    then show ?thesis by (auto simp: sublist_def) (metis append_assoc)
  next
    assume "\<exists>us. ys @ [y] = us @ xs"
    then have "suffix xs (ys @ [y])" by (auto simp: suffix_def)
    then show ?thesis by (rule suffix_imp_sublist)
  qed
qed

lemma decompose_snoc:
  assumes "xs @ [x] = ys @ replicate n b @ zs"
  shows "zs = [] \<or> (\<exists>zs'. zs = zs' @ [x] \<and> xs = ys @ replicate n b @ zs')"
  using assms by (cases zs rule: rev_cases) (auto simp flip: append_assoc)

lemma snoc_replicate: "0 < n \<Longrightarrow> xs @ [x] = ys @ replicate n b \<Longrightarrow> x = b"
  by (cases n) (auto simp: replicate_append_same [symmetric])

lemma recovered_snoc_success:
  assumes "0 < down"
  shows "recovered up down (xs @ [True]) \<longleftrightarrow> recovered up down xs \<or> up \<le> run_of True (xs @ [True])"
proof
  assume r: "recovered up down (xs @ [True])"
  show "recovered up down xs \<or> up \<le> run_of True (xs @ [True])"
  proof (rule disjCI)
    assume n: "\<not> up \<le> run_of True (xs @ [True])"
    show "recovered up down xs"
      unfolding recovered_def
    proof (intro allI impI)
      fix ys zs assume d: "xs = ys @ replicate down False @ zs"
      then have "sublist (replicate up True) (zs @ [True])"
        using r unfolding recovered_def by (metis append_assoc)
      moreover have False if "zs @ [True] = us @ replicate up True" for us
      proof -
        have "xs @ [True] = (ys @ replicate down False @ us) @ replicate up True" using d that by simp
        then have "up \<le> run_of True (xs @ [True])" unfolding run_of_ge_iff by (rule exI)
        with n show False by simp
      qed
      ultimately show "sublist (replicate up True) zs" unfolding sublist_snoc_iff by blast
    qed
  qed
next
  assume "recovered up down xs \<or> up \<le> run_of True (xs @ [True])"
  then show "recovered up down (xs @ [True])"
  proof
    assume r: "recovered up down xs"
    show ?thesis
      unfolding recovered_def
    proof (intro allI impI)
      fix ys zs assume d: "xs @ [True] = ys @ replicate down False @ zs"
      then have "zs \<noteq> []" using assms by (auto dest: snoc_replicate)
      then obtain zs' where zs: "zs = zs' @ [True]" "xs = ys @ replicate down False @ zs'"
        using decompose_snoc [OF d] by blast
      then have "sublist (replicate up True) zs'" using r unfolding recovered_def by blast
      then show "sublist (replicate up True) zs" unfolding zs sublist_snoc_iff by blast
    qed
  next
    assume "up \<le> run_of True (xs @ [True])"
    then obtain us where us: "xs @ [True] = us @ replicate up True" unfolding run_of_ge_iff by blast
    show ?thesis
      unfolding recovered_def
    proof (intro allI impI)
      fix ys zs assume "xs @ [True] = ys @ replicate down False @ zs"
      then have "(ys @ replicate down False) @ zs = us @ replicate up True" using us by simp
      then consider w where "ys @ replicate down False = us @ w" "w @ zs = replicate up True"
        | w where "zs = w @ replicate up True"
        unfolding append_eq_append_conv2 by blast
      then show "sublist (replicate up True) zs"
      proof cases
        case 1
        have "w = []"
        proof (rule ccontr)
          assume "w \<noteq> []"
          then obtain w' x where w: "w = w' @ [x]" by (cases w rule: rev_cases) auto
          have "x \<in> set (replicate up True)" using 1(2) w by (metis in_set_conv_decomp append_assoc append_Cons)
          then have "x" by simp
          moreover have "(us @ w') @ [x] = ys @ replicate down False" using 1(1) w by simp
          then have "x = False" by (rule snoc_replicate [OF assms])
          ultimately show False by blast
        qed
        with 1(2) show ?thesis by simp
      qed simp
    qed
  qed
qed

lemma recovered_snoc_failure:
  assumes "0 < down" "0 < up"
  shows "recovered up down (xs @ [False]) \<longleftrightarrow> recovered up down xs \<and> run_of False (xs @ [False]) < down"
proof
  assume r: "recovered up down (xs @ [False])"
  have "\<not> down \<le> run_of False (xs @ [False])"
  proof
    assume "down \<le> run_of False (xs @ [False])"
    then obtain us where "xs @ [False] = us @ replicate down False @ []" unfolding run_of_ge_iff by auto
    then have "sublist (replicate up True) []" using r unfolding recovered_def by blast
    with assms(2) show False by simp
  qed
  moreover have "sublist (replicate up True) zs" if d: "xs = ys @ replicate down False @ zs" for ys zs
  proof -
    have "sublist (replicate up True) (zs @ [False])"
      using r d unfolding recovered_def by (metis append_assoc)
    then show ?thesis using assms(2) unfolding sublist_snoc_iff by (auto dest: snoc_replicate)
  qed
  ultimately show "recovered up down xs \<and> run_of False (xs @ [False]) < down"
    unfolding recovered_def by auto
next
  assume r: "recovered up down xs \<and> run_of False (xs @ [False]) < down"
  show "recovered up down (xs @ [False])"
    unfolding recovered_def
  proof (intro allI impI)
    fix ys zs assume d: "xs @ [False] = ys @ replicate down False @ zs"
    have "zs \<noteq> []"
    proof
      assume "zs = []"
      with d have "xs @ [False] = ys @ replicate down False" by simp
      then have "down \<le> run_of False (xs @ [False])" unfolding run_of_ge_iff by blast
      with r show False by simp
    qed
    then obtain zs' where zs: "zs = zs' @ [False]" "xs = ys @ replicate down False @ zs'"
      using decompose_snoc [OF d] by blast
    then have "sublist (replicate up True) zs'" using r unfolding recovered_def by blast
    then show "sublist (replicate up True) zs" unfolding zs sublist_snoc_iff by blast
  qed
qed

lemma replay_recovered:
  assumes "1 \<le> hc_healthy_threshold cfg" "1 \<le> hc_unhealthy_threshold cfg"
  shows "st_healthy (replay cfg fresh_state xs) \<longleftrightarrow>
     recovered (nat (hc_healthy_threshold cfg)) (nat (hc_unhealthy_threshold cfg)) xs"
proof (induction xs rule: rev_induct)
  case Nil
  then show ?case using assms by (auto simp: recovered_def)
next
  case (snoc x xs)
  have pos: "0 < nat (hc_unhealthy_threshold cfg)" "0 < nat (hc_healthy_threshold cfg)" using assms by auto
  show ?case
    using snoc assms recovered_snoc_success [OF pos(1)] recovered_snoc_failure [OF pos]
    by (cases x) (auto simp: replay_healthy_snoc nat_le_iff zless_nat_eq_int_zless)
qed

subsection \<open>Properties\<close>

text \<open>The outcomes of a history of reports that concern one backend.\<close>

definition outcomes_of :: "string \<Rightarrow> (string \<times> bool) list \<Rightarrow> bool list" where
  "outcomes_of a reports = map snd (filter (\<lambda>r. fst r = a) reports)"

lemma reports_replay:
  "hk_backends c a = Some st \<Longrightarrow>
   hk_backends (foldl (\<lambda>c r. record_outcome c (fst r) (snd r)) c rs) a =
     Some (replay (hk_cfg c) st (outcomes_of a rs))"
proof (induction rs arbitrary: c st)
  case (Cons r rs)
  show ?case
  proof (cases "fst r = a")
    case True
    with Cons.prems have "hk_backends (record_outcome c (fst r) (snd r)) a = Some (record_state (hk_cfg c) st (snd r))"
      by (simp add: record_outcome_here)
    from Cons.IH [OF this] True show ?thesis by (simp add: outcomes_of_def)
  next
    case False
    with Cons.prems have "hk_backends (record_outcome c (fst r) (snd r)) a = Some st"
      by (simp add: record_outcome_other)
    from Cons.IH [OF this] False show ?thesis by (simp add: outcomes_of_def)
  qed
qed (simp add: outcomes_of_def)

text \<open>
  C7: Over any history of reports, whatever backends they are about, a backend registered at its
  start is out of the pool exactly when some unbroken run of \<open>unhealthy_threshold\<close> failures of its
  own has not been followed by an unbroken run of \<open>healthy_threshold\<close> successes.
\<close>

lemma health_is_hysteresis:
  assumes "hk_backends c a = Some fresh_state"
    and "1 \<le> hc_healthy_threshold (hk_cfg c)" "1 \<le> hc_unhealthy_threshold (hk_cfg c)"
  shows "IsHealthy (foldl (\<lambda>c r. record_outcome c (fst r) (snd r)) c reports) a \<longleftrightarrow>
     (\<forall>before after. outcomes_of a reports =
          before @ replicate (nat (hc_unhealthy_threshold (hk_cfg c))) False @ after \<longrightarrow>
        sublist (replicate (nat (hc_healthy_threshold (hk_cfg c))) True) after)"
  using reports_replay [OF assms(1)] replay_recovered [OF assms(2,3), of "outcomes_of a reports"]
  by (simp add: IsHealthy_def recovered_def)

definition ex_check :: HealthCheck where
  "ex_check = \<lparr>hc_path = ''/'', hc_interval = 5, hc_timeout = 2, hc_healthy_threshold = 1,
               hc_unhealthy_threshold = 2\<rparr>"

definition ex_checker :: HTTPChecker where
  "ex_checker = fst (Reload (New ex_check) ex_check
     [\<lparr>b_addr = ''a'', b_weight = 1, b_active = 0, b_hash = 0\<rparr>,
      \<lparr>b_addr = ''b'', b_weight = 1, b_active = 0, b_hash = 0\<rparr>] [0, 1])"

lemma ex_checker_known: "hk_backends ex_checker ''a'' = Some fresh_state" "hk_cfg ex_checker = ex_check"
  by (simp_all add: ex_checker_def Reload_def reload_loop_def New_def)

definition ex_reports :: "(string \<times> bool) list" where
  "ex_reports = [(''a'', False), (''b'', True), (''a'', False)]"

lemma health_is_hysteresis_witness: "\<not> IsHealthy (foldl (\<lambda>c r. record_outcome c (fst r) (snd r)) ex_checker ex_reports) ''a''"
proof -
  have "outcomes_of ''a'' ex_reports = [] @ replicate (nat 2) False @ []"
    by (simp add: ex_reports_def outcomes_of_def numeral_2_eq_2)
  moreover have "\<not> sublist (replicate (nat 1) True) []" by simp
  moreover have "IsHealthy (foldl (\<lambda>c r. record_outcome c (fst r) (snd r)) ex_checker ex_reports) ''a'' \<longleftrightarrow>
     (\<forall>before after. outcomes_of ''a'' ex_reports = before @ replicate (nat 2) False @ after \<longrightarrow>
        sublist (replicate (nat 1) True) after)"
    using health_is_hysteresis [OF ex_checker_known(1), of ex_reports]
    by (simp only: ex_checker_known ex_check_def HealthCheck.select_convs)
  ultimately show ?thesis by blast
qed

lemma reload_loop_snoc:
  "reload_loop known (as @ [a]) = (reload_loop known as)(a \<mapsto>
     (case known a of Some st \<Rightarrow> st | None \<Rightarrow> fresh_state))"
  by (simp add: reload_loop_def split: option.split)

lemma reload_loop_lookup:
  "reload_loop known as a =
     (if a \<in> set as then Some (case known a of Some st \<Rightarrow> st | None \<Rightarrow> fresh_state) else None)"
proof (induction as rule: rev_induct)
  case Nil
  then show ?case by (simp add: reload_loop_def)
next
  case (snoc b as)
  then show ?case by (auto simp: reload_loop_snoc)
qed

text \<open>
  A reload knows exactly the backends of the new pool: those it knew keep their health and their
  streaks, the others start healthy, and what it knew of any other backend is forgotten. It starts
  probing each backend of the pool, in its order.
\<close>

lemma Reload_keeps_survivors:
  "Reload c cfg h bs =
     (\<lparr>hk_cfg = cfg,
       hk_backends = (\<lambda>a. if a \<notin> addr_of h ` set bs then None
                          else if hk_backends c a = None then Some fresh_state else hk_backends c a)\<rparr>,
      map (addr_of h) bs)"
  by (cases c) (auto simp: Reload_def reload_loop_lookup split: option.split)

text \<open>
  A probe that a reload cancels counts as a failed check against a backend that survives it: with
  a threshold of one, a healthy backend that has failed nothing is taken out of the pool.
\<close>

lemma cancelled_probe_blames_survivor:
  assumes "hk_backends c a = Some st" "a \<in> addr_of h ` set bs" "hc_unhealthy_threshold cfg \<le> st_failures st + 1"
  shows "\<not> IsHealthy (probe (fst (Reload c cfg h bs)) a Cancelled) a"
proof -
  have "hk_backends (fst (Reload c cfg h bs)) a = Some st"
    using assms(1,2) by (simp add: Reload_def reload_loop_lookup)
  then show ?thesis
    using assms(3) by (simp add: probe_def IsHealthy_def record_outcome_here record_state_healthy Reload_def)
qed

lemma cancelled_probe_blames_survivor_witness:
  "\<not> IsHealthy (probe (fst (Reload ex_checker (ex_check\<lparr>hc_unhealthy_threshold := 1\<rparr>)
       [\<lparr>b_addr = ''a'', b_weight = 1, b_active = 0, b_hash = 0\<rparr>] [0])) ''a'' Cancelled) ''a''"
  by (rule cancelled_probe_blames_survivor [OF ex_checker_known(1)]) simp_all

end
