(* ===== verification/Breaker.thy ===== *)
theory Breaker
  imports Configuration
begin

text \<open>
  \<open>internal/proxy/breaker.go\<close>: the circuit breaker. Every operation reads the clock, which is its
  argument; the zero \<open>time.Time\<close> of \<open>openedUntil\<close> is \<open>None\<close>. Each operation runs under
  the breaker's mutex, so any interleaving of requests is a sequence of operations: the step relation
  \<open>breaker_step\<close>, on clocks that do not run backwards. \<open>phase\<close> is the abstract circuit
  (closed, open, probing), which the operations refine. The lemmas: a circuit opens at the threshold of
  consecutive failures; while it is open nothing is let through; after the open period exactly one
  request is, until its outcome is recorded; and if its outcome never is, nothing ever is again.
\<close>

record circuit =
  ci_failures :: int
  ci_openedUntil :: "time option"
  ci_probing :: bool

record breaker =
  br_enabled :: bool
  br_failureThreshold :: int
  br_openDuration :: duration
  br_circuits :: "string \<rightharpoonup> circuit"

definition newBreaker :: "FailurePolicy \<Rightarrow> CircuitBreaker \<Rightarrow> breaker" where
  "newBreaker policy cfg =
     \<lparr>br_enabled = (policy = CircuitBreakerPolicy),
      br_failureThreshold = cb_failure_threshold cfg,
      br_openDuration = cb_open_duration cfg,
      br_circuits = Map.empty\<rparr>"

definition allow :: "time \<Rightarrow> breaker \<Rightarrow> string \<Rightarrow> bool \<times> breaker" where
  "allow now b a =
     (if \<not> br_enabled b then (True, b)
      else case br_circuits b a of
        None \<Rightarrow> (True, b)
      | Some tracked \<Rightarrow>
          (case ci_openedUntil tracked of
             None \<Rightarrow> (True, b)
           | Some until \<Rightarrow>
               if now < until then (False, b)
               else if ci_probing tracked then (False, b)
               else (True, b\<lparr>br_circuits := (br_circuits b)(a \<mapsto> tracked\<lparr>ci_probing := True\<rparr>)\<rparr>)))"

definition recordSuccess :: "breaker \<Rightarrow> string \<Rightarrow> breaker" where
  "recordSuccess b a =
     (if \<not> br_enabled b then b
      else case br_circuits b a of
        None \<Rightarrow> b
      | Some tracked \<Rightarrow> b\<lparr>br_circuits := (br_circuits b)(a := None)\<rparr>)"

definition recordFailure :: "time \<Rightarrow> breaker \<Rightarrow> string \<Rightarrow> breaker" where
  "recordFailure now b a =
     (if \<not> br_enabled b then b
      else
        (let tracked = (case br_circuits b a of
                          None \<Rightarrow> \<lparr>ci_failures = 0, ci_openedUntil = None, ci_probing = False\<rparr>
                        | Some tracked \<Rightarrow> tracked);
             tracked1 = tracked\<lparr>ci_probing := False, ci_failures := ci_failures tracked + 1\<rparr>;
             tracked2 = (if ci_failures tracked1 \<ge> br_failureThreshold b
                         then tracked1\<lparr>ci_openedUntil := Some (now + br_openDuration b)\<rparr>
                         else tracked1)
         in b\<lparr>br_circuits := (br_circuits b)(a \<mapsto> tracked2)\<rparr>))"

lemma breaker_settings [simp, frame_simps]:
  "br_enabled (snd (allow now b a)) = br_enabled b"
  "br_enabled (recordSuccess b a) = br_enabled b"
  "br_enabled (recordFailure now b a) = br_enabled b"
  "br_failureThreshold (snd (allow now b a)) = br_failureThreshold b"
  "br_failureThreshold (recordSuccess b a) = br_failureThreshold b"
  "br_failureThreshold (recordFailure now b a) = br_failureThreshold b"
  "br_openDuration (snd (allow now b a)) = br_openDuration b"
  "br_openDuration (recordSuccess b a) = br_openDuration b"
  "br_openDuration (recordFailure now b a) = br_openDuration b"
  by (simp_all add: allow_def recordSuccess_def recordFailure_def Let_def split: option.split)

lemma breaker_other [simp, frame_simps]:
  "c \<noteq> a \<Longrightarrow> br_circuits (snd (allow now b a)) c = br_circuits b c"
  "c \<noteq> a \<Longrightarrow> br_circuits (recordSuccess b a) c = br_circuits b c"
  "c \<noteq> a \<Longrightarrow> br_circuits (recordFailure now b a) c = br_circuits b c"
  by (simp_all add: allow_def recordSuccess_def recordFailure_def Let_def split: option.split)

lemma disabled_allows: "\<not> br_enabled b \<Longrightarrow> allow now b a = (True, b)"
  by (simp add: allow_def)

subsection \<open>The abstract circuit\<close>

datatype phase = Closed int | Open time int | Probing time int

fun phase_of :: "circuit option \<Rightarrow> phase" where
  "phase_of None = Closed 0"
| "phase_of (Some c) =
     (case ci_openedUntil c of
        None \<Rightarrow> Closed (ci_failures c)
      | Some u \<Rightarrow> if ci_probing c then Probing u (ci_failures c) else Open u (ci_failures c))"

fun phase_allow :: "time \<Rightarrow> phase \<Rightarrow> bool \<times> phase" where
  "phase_allow now (Closed n) = (True, Closed n)"
| "phase_allow now (Open u n) = (if now < u then (False, Open u n) else (True, Probing u n))"
| "phase_allow now (Probing u n) = (False, Probing u n)"

fun phase_failures :: "phase \<Rightarrow> int" where
  "phase_failures (Closed n) = n"
| "phase_failures (Open u n) = n"
| "phase_failures (Probing u n) = n"

text \<open>An open circuit has failed often enough already, so any further failure opens it anew.\<close>

definition phase_fail :: "int \<Rightarrow> duration \<Rightarrow> time \<Rightarrow> phase \<Rightarrow> phase" where
  "phase_fail threshold d now ph =
     (if phase_failures ph + 1 \<ge> threshold then Open (now + d) (phase_failures ph + 1)
      else Closed (phase_failures ph + 1))"

definition circuit_ok :: "int \<Rightarrow> circuit \<Rightarrow> bool" where
  "circuit_ok threshold c \<longleftrightarrow> 1 \<le> ci_failures c
     \<and> (ci_openedUntil c \<noteq> None \<longleftrightarrow> threshold \<le> ci_failures c)
     \<and> (ci_probing c \<longrightarrow> ci_openedUntil c \<noteq> None)"

definition breaker_ok :: "breaker \<Rightarrow> bool" where
  "breaker_ok b \<longleftrightarrow> (\<forall>a c. br_circuits b a = Some c \<longrightarrow> circuit_ok (br_failureThreshold b) c)"

lemma breaker_ok_new: "breaker_ok (newBreaker policy cfg)"
  by (simp add: breaker_ok_def newBreaker_def)

lemma breaker_ok_allow: "breaker_ok b \<Longrightarrow> breaker_ok (snd (allow now b a))"
  by (auto simp: breaker_ok_def allow_def circuit_ok_def split: option.split)

lemma breaker_ok_recordSuccess: "breaker_ok b \<Longrightarrow> breaker_ok (recordSuccess b a)"
  by (auto simp: breaker_ok_def recordSuccess_def split: option.split)

lemma breaker_ok_recordFailure:
  assumes "breaker_ok b"
  shows "breaker_ok (recordFailure now b a)"
proof (cases "br_circuits b a")
  case None
  with assms show ?thesis
    by (auto simp: breaker_ok_def recordFailure_def circuit_ok_def Let_def)
next
  case (Some c)
  with assms have "circuit_ok (br_failureThreshold b) c" by (simp add: breaker_ok_def)
  then have "0 \<le> ci_failures c" by (simp add: circuit_ok_def)
  with assms Some show ?thesis
    by (auto simp: breaker_ok_def recordFailure_def circuit_ok_def Let_def)
qed

lemmas breaker_ok_intros [wf_intros] =
  breaker_ok_new breaker_ok_allow breaker_ok_recordSuccess breaker_ok_recordFailure

abbreviation circuit_phase :: "breaker \<Rightarrow> string \<Rightarrow> phase" where
  "circuit_phase b a \<equiv> phase_of (br_circuits b a)"

lemma allow_refines:
  assumes "br_enabled b"
  shows "fst (allow now b a) = fst (phase_allow now (circuit_phase b a))"
    and "circuit_phase (snd (allow now b a)) a = snd (phase_allow now (circuit_phase b a))"
  using assms by (auto simp: allow_def split: option.splits)

lemma recordSuccess_refines: "br_enabled b \<Longrightarrow> circuit_phase (recordSuccess b a) a = Closed 0"
  by (auto simp: recordSuccess_def split: option.splits)

lemma recordFailure_refines:
  assumes "br_enabled b" "breaker_ok b" "1 \<le> br_failureThreshold b"
  shows "circuit_phase (recordFailure now b a) a =
     phase_fail (br_failureThreshold b) (br_openDuration b) now (circuit_phase b a)"
proof (cases "br_circuits b a")
  case None
  with assms show ?thesis by (simp add: recordFailure_def phase_fail_def Let_def)
next
  case (Some c)
  with assms(2) have "circuit_ok (br_failureThreshold b) c" by (simp add: breaker_ok_def)
  with Some assms(1) show ?thesis
    by (auto simp: recordFailure_def phase_fail_def circuit_ok_def Let_def split: option.splits if_splits)
qed

subsection \<open>Sequences of operations\<close>

datatype op = Allow string bool | Success string | Failure string

text \<open>\<open>Allow a r\<close> is a call that answered \<open>r\<close>; a step carries the time it was made at.\<close>

inductive breaker_step :: "breaker \<Rightarrow> time \<times> op \<Rightarrow> breaker \<Rightarrow> bool" where
  step_allow: "allow now b a = (r, b') \<Longrightarrow> breaker_step b (now, Allow a r) b'"
| step_success: "breaker_step b (now, Success a) (recordSuccess b a)"
| step_failure: "breaker_step b (now, Failure a) (recordFailure now b a)"

inductive breaker_steps :: "breaker \<Rightarrow> (time \<times> op) list \<Rightarrow> breaker \<Rightarrow> bool" where
  steps_Nil: "breaker_steps b [] b"
| steps_Cons: "breaker_step b e b1 \<Longrightarrow> breaker_steps b1 es b' \<Longrightarrow> breaker_steps b (e # es) b'"

inductive_cases breaker_step_allowE: "breaker_step b (now, Allow a r) b'"
inductive_cases breaker_stepsE: "breaker_steps b es b'"
inductive_simps breaker_step_simps:
  "breaker_step b (now, Allow a r) b'" "breaker_step b (now, Success a) b'"
  "breaker_step b (now, Failure a) b'"
inductive_simps breaker_steps_simps: "breaker_steps b [] b'" "breaker_steps b (e # es) b'"

lemma breaker_step_ok: "breaker_step b e b' \<Longrightarrow> breaker_ok b \<Longrightarrow> breaker_ok b'"
proof (induction rule: breaker_step.induct)
  case (step_allow now b a r b')
  then show ?case using breaker_ok_allow [of b now a] by simp
qed (auto intro: wf_intros)

lemma breaker_step_settings:
  "breaker_step b e b' \<Longrightarrow> br_enabled b' = br_enabled b
     \<and> br_failureThreshold b' = br_failureThreshold b \<and> br_openDuration b' = br_openDuration b"
  by (induction rule: breaker_step.induct) (metis breaker_settings snd_conv | simp)+

lemma breaker_steps_ok: "breaker_steps b es b' \<Longrightarrow> breaker_ok b \<Longrightarrow> breaker_ok b'"
  by (induction rule: breaker_steps.induct) (auto dest: breaker_step_ok)

lemma breaker_steps_settings:
  "breaker_steps b es b' \<Longrightarrow> br_enabled b' = br_enabled b
     \<and> br_failureThreshold b' = br_failureThreshold b \<and> br_openDuration b' = br_openDuration b"
  by (induction rule: breaker_steps.induct) (simp, metis breaker_step_settings)

text \<open>What a step does to a circuit it is not about, or asks about.\<close>

fun about :: "op \<Rightarrow> string" where
  "about (Allow a r) = a" | "about (Success a) = a" | "about (Failure a) = a"

lemma breaker_step_other: "breaker_step b (now, e) b' \<Longrightarrow> about e \<noteq> a \<Longrightarrow> br_circuits b' a = br_circuits b a"
  by (cases e) (auto simp: breaker_step_simps prod_eq_iff)

text \<open>The requests let through to \<open>a\<close>, and whether the outcome of one was recorded.\<close>

definition admitted :: "string \<Rightarrow> (time \<times> op) list \<Rightarrow> nat" where
  "admitted a es = length (filter (\<lambda>e. snd e = Allow a True) es)"

definition no_outcome :: "string \<Rightarrow> (time \<times> op) list \<Rightarrow> bool" where
  "no_outcome a es \<longleftrightarrow> (\<forall>e\<in>set es. snd e \<noteq> Success a \<and> snd e \<noteq> Failure a)"

lemma admitted_simps [simp]:
  "admitted a [] = 0"
  "admitted a (e # es) = (if snd e = Allow a True then 1 else 0) + admitted a es"
  by (simp_all add: admitted_def)

lemma no_outcome_simps [simp]:
  "no_outcome a []"
  "no_outcome a (e # es) \<longleftrightarrow> snd e \<noteq> Success a \<and> snd e \<noteq> Failure a \<and> no_outcome a es"
  by (auto simp: no_outcome_def)

lemma step_open:
  assumes "breaker_step b (now, e) b'" "br_enabled b" "circuit_phase b a = Open u n"
    and "e \<noteq> Success a" "e \<noteq> Failure a"
  shows "circuit_phase b' a = (if e = Allow a True then Probing u n else Open u n)"
    and "e = Allow a True \<Longrightarrow> u \<le> now"
    and "e = Allow a False \<Longrightarrow> now < u"
proof -
  have "circuit_phase b' a = (if e = Allow a True then Probing u n else Open u n)
      \<and> (e = Allow a True \<longrightarrow> u \<le> now) \<and> (e = Allow a False \<longrightarrow> now < u)"
  proof (cases "about e = a")
    case True
    with assms(4,5) obtain r where e: "e = Allow a r" by (cases e) auto
    with assms(1) have "allow now b a = (r, b')" by (simp add: breaker_step_simps)
    then show ?thesis
      using e allow_refines [OF assms(2), of now a] assms(3) by (auto split: if_splits)
  next
    case False
    with breaker_step_other [OF assms(1) False] assms(3) show ?thesis by (cases e) auto
  qed
  then show "circuit_phase b' a = (if e = Allow a True then Probing u n else Open u n)"
    "e = Allow a True \<Longrightarrow> u \<le> now" "e = Allow a False \<Longrightarrow> now < u" by blast+
qed

lemma step_probing:
  assumes "breaker_step b (now, e) b'" "br_enabled b" "circuit_phase b a = Probing u n"
    and "e \<noteq> Success a" "e \<noteq> Failure a"
  shows "circuit_phase b' a = Probing u n \<and> e \<noteq> Allow a True"
proof (cases "about e = a")
  case True
  with assms(4,5) obtain r where e: "e = Allow a r" by (cases e) auto
  with assms(1) have "allow now b a = (r, b')" by (simp add: breaker_step_simps)
  then show ?thesis
    using e allow_refines [OF assms(2), of now a] assms(3) by auto
next
  case False
  with breaker_step_other [OF assms(1) False] assms(3) show ?thesis by (cases e) auto
qed

text \<open>While a probe's outcome is outstanding, nothing is let through.\<close>

lemma steps_probing:
  "breaker_steps b es b' \<Longrightarrow> br_enabled b \<Longrightarrow> circuit_phase b a = Probing u n \<Longrightarrow> no_outcome a es \<Longrightarrow>
   admitted a es = 0 \<and> circuit_phase b' a = Probing u n"
proof (induction rule: breaker_steps.induct)
  case (steps_Cons b e b1 es b')
  obtain now x where e: "e = (now, x)" by fastforce
  have "circuit_phase b1 a = Probing u n \<and> x \<noteq> Allow a True"
    using steps_Cons.hyps(1) steps_Cons.prems unfolding e by (intro step_probing) auto
  moreover have "br_enabled b1" using breaker_step_settings [OF steps_Cons.hyps(1)] steps_Cons.prems by simp
  ultimately show ?case using steps_Cons e by simp
qed simp

text \<open>From an open circuit: nothing before its time, then one request.\<close>

lemma steps_open:
  "breaker_steps b es b' \<Longrightarrow> br_enabled b \<Longrightarrow> circuit_phase b a = Open u n \<Longrightarrow> no_outcome a es \<Longrightarrow>
   admitted a es \<le> 1 \<and> (\<forall>e\<in>set es. snd e = Allow a True \<longrightarrow> u \<le> fst e)
     \<and> (admitted a es = 0 \<longrightarrow> circuit_phase b' a = Open u n \<and> (\<forall>e\<in>set es. about (snd e) = a \<longrightarrow> fst e < u))"
proof (induction rule: breaker_steps.induct)
  case (steps_Cons b e b1 es b')
  obtain now x where e: "e = (now, x)" by fastforce
  note step = step_open [OF steps_Cons.hyps(1) [unfolded e] steps_Cons.prems(1,2)]
  have x: "x \<noteq> Success a" "x \<noteq> Failure a" "no_outcome a es" using steps_Cons.prems(3) e by auto
  have en: "br_enabled b1" using breaker_step_settings [OF steps_Cons.hyps(1)] steps_Cons.prems by simp
  show ?case
  proof (cases "x = Allow a True")
    case True
    then have ph: "circuit_phase b1 a = Probing u n" using step x by simp
    with steps_probing [OF steps_Cons.hyps(2) en _ x(3)] have "admitted a es = 0" by blast
    moreover from this have "\<forall>e\<in>set es. snd e \<noteq> Allow a True" by (auto simp: admitted_def filter_empty_conv)
    ultimately show ?thesis using True e step(2) x by simp
  next
    case False
    then have "circuit_phase b1 a = Open u n" using step x by simp
    note IH = steps_Cons.IH [OF en this x(3)]
    have "about x = a \<Longrightarrow> now < u" using step(3) x False by (cases x; cases "x = Allow a False") auto
    with IH False e show ?thesis by simp
  qed
qed simp

subsection \<open>Properties\<close>

text \<open>
  C8: The breaker implements the abstract circuit: under any operation, the phase of the backend asked
  about moves as the abstract operation says, and every other circuit stays as it is.
\<close>

lemma breaker_refines_phase:
  assumes "br_enabled b" "breaker_ok b" "1 \<le> br_failureThreshold b"
  shows "map_prod id (\<lambda>b'. circuit_phase b' a) (allow now b a) = phase_allow now (circuit_phase b a)
     \<and> circuit_phase (recordSuccess b a) a = Closed 0
     \<and> circuit_phase (recordFailure now b a) a =
         phase_fail (br_failureThreshold b) (br_openDuration b) now (circuit_phase b a)
     \<and> (\<forall>c. c \<noteq> a \<longrightarrow> circuit_phase (snd (allow now b a)) c = circuit_phase b c
           \<and> circuit_phase (recordSuccess b a) c = circuit_phase b c
           \<and> circuit_phase (recordFailure now b a) c = circuit_phase b c)"
  using allow_refines [OF assms(1), of now a] recordSuccess_refines [OF assms(1)]
    recordFailure_refines [OF assms]
  by (simp add: prod_eq_iff)

definition ex_breaker :: breaker where
  "ex_breaker = newBreaker CircuitBreakerPolicy \<lparr>cb_failure_threshold = 2, cb_open_duration = 30\<rparr>"

lemma ex_breaker_ok: "br_enabled ex_breaker" "breaker_ok ex_breaker" "1 \<le> br_failureThreshold ex_breaker"
  by (simp_all add: ex_breaker_def breaker_ok_new) (simp_all add: newBreaker_def)

lemma breaker_refines_phase_witness:
  "circuit_phase (recordFailure 5 (recordFailure 3 ex_breaker ''a'') ''a'') ''a'' =
     phase_fail (br_failureThreshold (recordFailure 3 ex_breaker ''a'')) (br_openDuration (recordFailure 3 ex_breaker ''a''))
       5 (circuit_phase (recordFailure 3 ex_breaker ''a'') ''a'')"
  using breaker_refines_phase [of "recordFailure 3 ex_breaker ''a''" "''a''" 5] ex_breaker_ok
  by (simp add: breaker_ok_recordFailure)

text \<open>
  C12: Once a circuit is open, then in any sequence of operations up to the next recorded outcome of the
  backend, whatever the other backends do, at most one request is let through to it, and none before the
  open period has passed.
\<close>

lemma open_circuit_admits_one_probe:
  assumes "breaker_steps b es b'" "br_enabled b" "circuit_phase b a = Open until n" "no_outcome a es"
  shows "admitted a es \<le> 1 \<and> (\<forall>(now, e)\<in>set es. e = Allow a True \<longrightarrow> until \<le> now)"
  using steps_open [OF assms] by auto

definition ex_open :: breaker where
  "ex_open = recordFailure 5 (recordFailure 3 ex_breaker ''a'') ''a''"

lemma ex_open_phase: "br_enabled ex_open" "circuit_phase ex_open ''a'' = Open 35 2"
  by (simp_all add: ex_open_def ex_breaker_def recordFailure_def newBreaker_def)

definition ex_probing :: breaker where
  "ex_probing = snd (allow 40 ex_open ''a'')"

lemma ex_trace:
  "breaker_steps ex_open [(6, Allow ''a'' False), (40, Allow ''a'' True), (41, Allow ''a'' False)] ex_probing"
  by (simp add: breaker_steps_simps breaker_step_simps ex_probing_def ex_open_def ex_breaker_def
      recordFailure_def newBreaker_def allow_def)

lemma open_circuit_admits_one_probe_witness:
  "admitted ''a'' [(6, Allow ''a'' False), (40, Allow ''a'' True), (41, Allow ''a'' False)] \<le> 1"
  using open_circuit_admits_one_probe [OF ex_trace ex_open_phase] by simp

text \<open>
  A backend whose probe's outcome is never recorded is shut out for good: from then on no sequence of
  operations, however long and however late, lets a request through to it.
\<close>

lemma unreported_probe_shuts_out:
  assumes "breaker_steps b es b'" "br_enabled b" "circuit_phase b a = Probing until n" "no_outcome a es"
  shows "\<not> fst (allow now b' a)"
  using steps_probing [OF assms] breaker_steps_settings [OF assms(1)] assms(2) allow_refines(1) [of b' now a]
  by simp

lemma unreported_probe_shuts_out_witness: "\<not> fst (allow 1000000 (snd (allow 50 ex_probing ''a'')) ''a'')"
proof (rule unreported_probe_shuts_out [of ex_probing "[(50, Allow ''a'' (fst (allow 50 ex_probing ''a'')))]"])
  show "breaker_steps ex_probing [(50, Allow ''a'' (fst (allow 50 ex_probing ''a'')))] (snd (allow 50 ex_probing ''a''))"
    by (simp add: breaker_steps_simps breaker_step_simps)
  show "br_enabled ex_probing" "circuit_phase ex_probing ''a'' = Probing 35 2"
    by (simp_all add: ex_probing_def ex_open_def ex_breaker_def recordFailure_def newBreaker_def allow_def)
qed simp

text \<open>A run of failures opens the circuit at the threshold and not before.\<close>

lemma failures_phase:
  assumes "br_enabled b" "breaker_ok b" "circuit_phase b a = Closed k" "0 \<le> k"
    and "k + int (length moments) < br_failureThreshold b"
  shows "circuit_phase (foldl (\<lambda>b now. recordFailure now b a) b moments) a = Closed (k + int (length moments))"
  using assms
proof (induction moments arbitrary: b k)
  case (Cons t ts)
  have "circuit_phase (recordFailure t b a) a = Closed (k + 1)"
    using recordFailure_refines [OF Cons.prems(1,2), of t a] Cons.prems(3,4,5)
    by (simp add: phase_fail_def)
  from Cons.IH [OF _ _ this] Cons.prems show ?case
    by (simp add: breaker_ok_recordFailure algebra_simps)
qed simp

text \<open>
  A backend with no failures on record is shut out by the failure that makes
  \<open>failure_threshold\<close> of them in a row, for the open duration, and by none before it.
\<close>

lemma circuit_opens_at_threshold:
  assumes "br_enabled b" "breaker_ok b" "br_circuits b a = None"
    and "int (length moments) + 1 \<le> br_failureThreshold b"
  shows "circuit_phase (foldl (\<lambda>b now. recordFailure now b a) b (moments @ [t])) a =
     (if int (length moments) + 1 = br_failureThreshold b
      then Open (t + br_openDuration b) (int (length moments) + 1) else Closed (int (length moments) + 1))"
proof -
  let ?b = "foldl (\<lambda>b now. recordFailure now b a) b moments"
  have closed: "circuit_phase ?b a = Closed (int (length moments))"
    using failures_phase [OF assms(1,2), of a 0 moments] assms(3,4) by simp
  have keep: "br_enabled ?b \<and> breaker_ok ?b \<and> br_failureThreshold ?b = br_failureThreshold b
      \<and> br_openDuration ?b = br_openDuration b"
    using assms(1,2) by (induction moments rule: rev_induct) (auto intro: wf_intros)
  then show ?thesis
    using recordFailure_refines [of ?b t a] closed assms(4) by (simp add: phase_fail_def)
qed

lemma circuit_opens_at_threshold_witness:
  "circuit_phase (foldl (\<lambda>b now. recordFailure now b ''a'') ex_breaker ([3] @ [5])) ''a'' =
     (if int (length [3 :: time]) + 1 = br_failureThreshold ex_breaker
      then Open (5 + br_openDuration ex_breaker) (int (length [3 :: time]) + 1) else Closed (int (length [3 :: time]) + 1))"
  by (rule circuit_opens_at_threshold [OF ex_breaker_ok(1,2)]) (simp_all add: ex_breaker_def newBreaker_def)

end
