(* ===== verification/Retry_Budget.thy ===== *)
theory Retry_Budget
  imports Configuration
begin

text \<open>
  \<open>internal/proxy/retrybudget.go\<close>: the cap on the retries in flight. The two counters are atomic,
  but a reservation is an increment, a comparison and perhaps a decrement, between which others run: the
  step relation \<open>budget_step\<close> interleaves them. A reservation is an entry that remembers what its
  increment returned; the entries stand newest first, and the counter of retries is their number.
  \<open>tryRetry\<close> is the same reservation run without interruption. The lemmas: however the reservations
  interleave, the retries in flight never exceed the largest limit in force; and the limit follows the
  load.
\<close>

record retryBudget =
  rb_percent :: float64
  rb_minimum :: int
  rb_requests :: int
  rb_retries :: int

definition newRetryBudget :: "Retry \<Rightarrow> retryBudget" where
  "newRetryBudget cfg =
     \<lparr>rb_percent = rt_budget_percent cfg, rb_minimum = rt_min_retry_concurrency cfg,
      rb_requests = 0, rb_retries = 0\<rparr>"

definition requestStarted :: "retryBudget \<Rightarrow> retryBudget" where
  "requestStarted b = b\<lparr>rb_requests := rb_requests b + 1\<rparr>"

definition requestFinished :: "retryBudget \<Rightarrow> retryBudget" where
  "requestFinished b = b\<lparr>rb_requests := rb_requests b - 1\<rparr>"

text \<open>
  \<open>percent / 100 * float64(requests)\<close>. An infinite percentage does not pass validation; times no
  requests at all it is not a number.
\<close>

fun budget_share :: "float64 \<Rightarrow> int \<Rightarrow> float64" where
  "budget_share (Fin p) requests = Fin (f64 (f64 (p / 100) * float_of_int requests))"
| "budget_share PosInf requests = (if requests = 0 then NaN else if requests < 0 then NegInf else PosInf)"
| "budget_share NegInf requests = (if requests = 0 then NaN else if requests < 0 then PosInf else NegInf)"
| "budget_share NaN requests = NaN"

definition limit :: "retryBudget \<Rightarrow> int" where
  "limit b = max (rb_minimum b) (int64_of_float (budget_share (rb_percent b) (rb_requests b)))"

definition tryRetry :: "retryBudget \<Rightarrow> bool \<times> retryBudget" where
  "tryRetry b =
     (let b1 = b\<lparr>rb_retries := rb_retries b + 1\<rparr>
      in if rb_retries b1 > limit b1 then (False, b1\<lparr>rb_retries := rb_retries b1 - 1\<rparr>) else (True, b1))"

definition retryFinished :: "retryBudget \<Rightarrow> retryBudget" where
  "retryFinished b = b\<lparr>rb_retries := rb_retries b - 1\<rparr>"

lemma limit_retries [simp]: "limit (b\<lparr>rb_retries := n\<rparr>) = limit b"
  by (simp add: limit_def)

lemma tryRetry_eq:
  "tryRetry b = (if rb_retries b < limit b then (True, b\<lparr>rb_retries := rb_retries b + 1\<rparr>) else (False, b))"
  by (simp add: tryRetry_def Let_def)

lemma limit_minimum: "rb_minimum b \<le> limit b"
  by (simp add: limit_def)

text \<open>The limit grows with the load.\<close>

lemma int64_of_rat_mono:
  assumes "x \<le> y" "0 \<le> x" "y < 2 ^ 63"
  shows "int64_of_rat x \<le> int64_of_rat y"
proof -
  have "\<lfloor>x\<rfloor> \<le> \<lfloor>y\<rfloor>" using assms(1) by (rule floor_mono)
  moreover have "0 \<le> \<lfloor>x\<rfloor>" using assms(2) by simp
  moreover have "\<lfloor>y\<rfloor> < 2 ^ 63" using assms(3) by (simp add: floor_less_iff)
  moreover have "0 \<le> y" using assms(1,2) by linarith
  ultimately show ?thesis
    using assms(2) unfolding int64_of_rat_def Let_def trunc_def by simp
qed

lemma share_bounds:
  assumes "0 < p" "p \<le> 100" "0 \<le> n" "n \<le> 2 ^ 53"
  shows "0 \<le> f64 (f64 (p / 100) * float_of_int n)" "f64 (f64 (p / 100) * float_of_int n) \<le> of_int n"
proof -
  have n: "float_of_int n = of_int n" unfolding float_of_int_def using assms by (intro f64_of_int) auto
  have p: "0 \<le> f64 (p / 100)" "f64 (p / 100) \<le> 1"
    using assms by (auto intro: f64_nonneg fl.rnd_le_1)
  show "0 \<le> f64 (f64 (p / 100) * float_of_int n)" using p(1) assms(3) unfolding n by (intro f64_nonneg) simp
  show "f64 (f64 (p / 100) * float_of_int n) \<le> of_int n"
    using fl.rnd_share_le [of "of_int n" "f64 (p / 100)"] p assms(3) n by (simp add: float_of_int_def)
qed

lemma limit_mono:
  assumes "rb_percent b = Fin p" "0 < p" "p \<le> 100" "0 \<le> m" "m \<le> n" "n \<le> 2 ^ 53"
  shows "limit (b\<lparr>rb_requests := m\<rparr>) \<le> limit (b\<lparr>rb_requests := n\<rparr>)"
proof -
  have "float_of_int m \<le> float_of_int n" unfolding float_of_int_def using assms(5) by (intro f64_mono) simp
  moreover have "0 \<le> f64 (p / 100)" using assms(2) by (intro f64_nonneg) simp
  ultimately have le: "f64 (f64 (p / 100) * float_of_int m) \<le> f64 (f64 (p / 100) * float_of_int n)"
    by (intro f64_mono mult_left_mono)
  have "(of_int n :: rat) \<le> of_int (2 ^ 53)" using assms(6) unfolding of_int_le_iff .
  then have "f64 (f64 (p / 100) * float_of_int n) < 2 ^ 63"
    using share_bounds(2) [OF assms(2,3), of n] assms(4-6) by simp
  then have "int64_of_rat (f64 (f64 (p / 100) * float_of_int m)) \<le> int64_of_rat (f64 (f64 (p / 100) * float_of_int n))"
    using le share_bounds(1) [OF assms(2,3), of m] assms(4-6) by (intro int64_of_rat_mono) auto
  then show ?thesis using assms(1) by (simp add: limit_def)
qed

text \<open>A share is never more than the requests themselves.\<close>

lemma limit_le_requests:
  assumes "rb_percent b = Fin p" "0 < p" "p \<le> 100" "0 \<le> rb_requests b" "rb_requests b \<le> 2 ^ 53"
  shows "limit b \<le> max (rb_minimum b) (rb_requests b)"
proof -
  note share = share_bounds [OF assms(2-5)]
  have "trunc (f64 (f64 (p / 100) * float_of_int (rb_requests b))) \<le> rb_requests b"
    using share by (simp add: trunc_def) linarith
  then have "int64_of_rat (f64 (f64 (p / 100) * float_of_int (rb_requests b))) \<le> rb_requests b"
    using assms(4) by (simp add: int64_of_rat_def Let_def)
  then show ?thesis using assms(1) by (simp add: limit_def)
qed

subsection \<open>Interleaved reservations\<close>

datatype reservation = Counted int | Held int | Refused int

fun counted :: "reservation \<Rightarrow> int" where
  "counted (Counted r) = r" | "counted (Held r) = r" | "counted (Refused r) = r"

fun is_held :: "reservation \<Rightarrow> bool" where
  "is_held (Counted r) = False" | "is_held (Held r) = True" | "is_held (Refused r) = False"

text \<open>
  The budget with the reservations under way. \<open>rb_retries\<close> of the record is their number.
\<close>

type_synonym budget_state = "retryBudget \<times> reservation list"

inductive budget_step :: "budget_state \<Rightarrow> budget_state \<Rightarrow> bool" where
  started: "budget_step (b, rs) (requestStarted b, rs)"
| finished: "0 < rb_requests b \<Longrightarrow> budget_step (b, rs) (requestFinished b, rs)"
| count: "budget_step (b, rs) (b\<lparr>rb_retries := rb_retries b + 1\<rparr>, Counted (rb_retries b + 1) # rs)"
| hold: "r \<le> limit b \<Longrightarrow> budget_step (b, xs @ Counted r # ys) (b, xs @ Held r # ys)"
| refuse: "r > limit b \<Longrightarrow> budget_step (b, xs @ Counted r # ys) (b, xs @ Refused r # ys)"
| uncount: "budget_step (b, xs @ Refused r # ys) (b\<lparr>rb_retries := rb_retries b - 1\<rparr>, xs @ ys)"
| give_back: "budget_step (b, xs @ Held r # ys) (retryFinished b, xs @ ys)"

inductive budget_reach :: "budget_state \<Rightarrow> budget_state \<Rightarrow> bool" for s where
  reach_refl: "budget_reach s s"
| reach_step: "budget_reach s t \<Longrightarrow> budget_step t u \<Longrightarrow> budget_reach s u"

inductive_cases budget_stepE: "budget_step (b, rs) s"

text \<open>\<open>tryRetry\<close> and \<open>retryFinished\<close> are runs of these steps.\<close>

lemma tryRetry_reach:
  assumes "tryRetry b = (ok, b')"
  shows "budget_reach (b, rs) (b', if ok then Held (rb_retries b + 1) # rs else rs)"
proof -
  let ?b = "b\<lparr>rb_retries := rb_retries b + 1\<rparr>" and ?r = "rb_retries b + 1"
  have counted: "budget_reach (b, rs) (?b, [] @ Counted ?r # rs)"
    using reach_step [OF reach_refl count] by simp
  show ?thesis
  proof (cases "?r \<le> limit ?b")
    case True
    then have "budget_reach (b, rs) (?b, [] @ Held ?r # rs)" using counted by (blast intro: reach_step hold)
    then show ?thesis using True assms by (auto simp: tryRetry_def Let_def)
  next
    case False
    then have "budget_reach (b, rs) (?b, [] @ Refused ?r # rs)" using counted by (intro reach_step [OF _ refuse]) auto
    then have "budget_reach (b, rs) (?b\<lparr>rb_retries := rb_retries ?b - 1\<rparr>, [] @ rs)"
      by (rule reach_step) (rule uncount)
    then show ?thesis using False assms by (auto simp: tryRetry_def Let_def)
  qed
qed

lemma retryFinished_reach: "budget_reach (b, xs @ Held r # ys) (retryFinished b, xs @ ys)"
  by (rule reach_step [OF reach_refl give_back])

definition held :: "reservation list \<Rightarrow> nat" where
  "held rs = length (filter is_held rs)"

lemma held_simps [simp]:
  "held [] = 0" "held (r # rs) = (if is_held r then Suc (held rs) else held rs)"
  "held (xs @ ys) = held xs + held ys"
  by (simp_all add: held_def)

text \<open>
  The invariant: what an increment returned is at least the number of reservations made up to then that
  are still there, this one included.
\<close>

fun newest_first :: "reservation list \<Rightarrow> bool" where
  "newest_first [] = True"
| "newest_first (r # rs) = (int (length (r # rs)) \<le> counted r \<and> newest_first rs)"

definition held_within :: "int \<Rightarrow> reservation list \<Rightarrow> bool" where
  "held_within L rs \<longleftrightarrow> (\<forall>r. Held r \<in> set rs \<longrightarrow> r \<le> L)"

lemma newest_first_remove: "newest_first (xs @ r # ys) \<Longrightarrow> newest_first (xs @ ys)"
  by (induction xs) auto

lemma newest_first_decide:
  "newest_first (xs @ Held r # ys) \<longleftrightarrow> newest_first (xs @ Counted r # ys)"
  "newest_first (xs @ Refused r # ys) \<longleftrightarrow> newest_first (xs @ Counted r # ys)"
  by (induction xs) auto

lemma held_le_length: "held rs \<le> length rs"
  by (simp add: held_def)

lemma held_bounded: "newest_first rs \<Longrightarrow> held_within L rs \<Longrightarrow> 0 \<le> L \<Longrightarrow> int (held rs) \<le> L"
proof (induction rs)
  case (Cons r rs)
  show ?case
  proof (cases r)
    case (Held n)
    then have "n \<le> L" using Cons.prems(2) by (simp add: held_within_def)
    moreover have "int (length (r # rs)) \<le> n" using Cons.prems(1) Held by simp
    moreover have "held (r # rs) \<le> length (r # rs)" by (rule held_le_length)
    ultimately show ?thesis by linarith
  qed (use Cons in \<open>simp_all add: held_within_def\<close>)
qed simp

definition budget_inv :: "budget_state \<Rightarrow> bool" where
  "budget_inv s \<longleftrightarrow> newest_first (snd s) \<and> rb_retries (fst s) = int (length (snd s)) \<and> 0 \<le> rb_requests (fst s)"

lemma budget_inv_step: "budget_step s t \<Longrightarrow> budget_inv s \<Longrightarrow> budget_inv t"
  by (induction rule: budget_step.induct)
    (auto simp: budget_inv_def requestStarted_def requestFinished_def retryFinished_def newest_first_decide
      dest: newest_first_remove)

lemma budget_inv_reach: "budget_reach s t \<Longrightarrow> budget_inv s \<Longrightarrow> budget_inv t"
  by (induction rule: budget_reach.induct) (auto intro: budget_inv_step)

lemma budget_step_settings:
  "budget_step s t \<Longrightarrow> rb_percent (fst t) = rb_percent (fst s) \<and> rb_minimum (fst t) = rb_minimum (fst s)"
  by (induction rule: budget_step.induct) (simp_all add: requestStarted_def requestFinished_def retryFinished_def)

text \<open>A run in which the load never makes the limit exceed \<open>L\<close>.\<close>

inductive capped_run :: "int \<Rightarrow> budget_state \<Rightarrow> budget_state \<Rightarrow> bool" for L s where
  run_refl: "capped_run L s s"
| run_step: "capped_run L s t \<Longrightarrow> limit (fst t) \<le> L \<Longrightarrow> budget_step t u \<Longrightarrow> capped_run L s u"

lemma capped_run_reach: "capped_run L s t \<Longrightarrow> budget_reach s t"
  by (induction rule: capped_run.induct) (auto intro: budget_reach.intros)

lemma held_within_step:
  "budget_step s t \<Longrightarrow> limit (fst s) \<le> L \<Longrightarrow> held_within L (snd s) \<Longrightarrow> held_within L (snd t)"
  by (induction rule: budget_step.induct) (auto simp: held_within_def)

lemma capped_run_within: "capped_run L s t \<Longrightarrow> held_within L (snd s) \<Longrightarrow> held_within L (snd t)"
  by (induction rule: capped_run.induct) (auto intro: held_within_step)

subsection \<open>Properties\<close>

text \<open>
  C9: However the increments, comparisons and decrements of concurrent reservations interleave with each
  other and with requests coming and going, the retries in flight never exceed the largest limit that
  was in force.
\<close>

lemma retries_within_limit:
  assumes "capped_run L (b, []) (b', rs)" "rb_retries b = 0" "0 \<le> rb_requests b" "0 \<le> L"
  shows "int (held rs) \<le> L"
proof -
  have "budget_inv (b', rs)"
    using capped_run_reach [OF assms(1)] by (rule budget_inv_reach) (simp add: budget_inv_def assms)
  moreover have "held_within L rs"
    using capped_run_within [OF assms(1)] by (simp add: held_within_def)
  ultimately show ?thesis using assms(4) by (auto simp: budget_inv_def intro: held_bounded)
qed

definition ex_budget :: retryBudget where
  "ex_budget = newRetryBudget \<lparr>rt_max_retries = 2, rt_budget_percent = Fin 20, rt_min_retry_concurrency = 1\<rparr>"

lemma ex_budget_limit: "limit (ex_budget\<lparr>rb_retries := n\<rparr>) = 1" "limit ex_budget = 1"
  by (simp_all add: limit_def ex_budget_def newRetryBudget_def float_of_int_def int64_of_rat_def trunc_def)

text \<open>Two reservations are counted before either is compared; the first to be counted holds.\<close>

lemma ex_run: "capped_run 1 (ex_budget, []) (ex_budget\<lparr>rb_retries := 2\<rparr>, [Counted 2, Held 1])"
proof -
  have zero: "rb_retries ex_budget = 0" by (simp add: ex_budget_def newRetryBudget_def)
  have 1: "budget_step (ex_budget, []) (ex_budget\<lparr>rb_retries := 1\<rparr>, [Counted 1])"
    using budget_step.count [of ex_budget "[]"] zero by simp
  have 2: "budget_step (ex_budget\<lparr>rb_retries := 1\<rparr>, [Counted 1]) (ex_budget\<lparr>rb_retries := 2\<rparr>, [Counted 2, Counted 1])"
    using budget_step.count [of "ex_budget\<lparr>rb_retries := 1\<rparr>" "[Counted 1]"] by simp
  have 3: "budget_step (ex_budget\<lparr>rb_retries := 2\<rparr>, [Counted 2, Counted 1]) (ex_budget\<lparr>rb_retries := 2\<rparr>, [Counted 2, Held 1])"
    using budget_step.hold [of 1 "ex_budget\<lparr>rb_retries := 2\<rparr>" "[Counted 2]" "[]"] ex_budget_limit by simp
  show ?thesis
    using run_step [OF run_step [OF run_step [OF run_refl _ 1] _ 2] _ 3] ex_budget_limit by simp
qed

lemma retries_within_limit_witness: "int (held [Counted 2, Held 1]) \<le> 1"
  by (rule retries_within_limit [OF ex_run]) (simp_all add: ex_budget_def newRetryBudget_def)

text \<open>
  The retries the budget allows are between the configured minimum and the larger of it and the
  requests in flight, and never shrink when more requests are in flight.
\<close>

lemma limit_follows_load:
  assumes "rb_percent b = Fin p" "0 < p" "p \<le> 100" "0 \<le> m" "m \<le> n" "n \<le> 2 ^ 53"
  shows "rb_minimum b \<le> limit (b\<lparr>rb_requests := m\<rparr>)
     \<and> limit (b\<lparr>rb_requests := m\<rparr>) \<le> limit (b\<lparr>rb_requests := n\<rparr>)
     \<and> limit (b\<lparr>rb_requests := n\<rparr>) \<le> max (rb_minimum b) n"
  using limit_minimum [of "b\<lparr>rb_requests := m\<rparr>"] limit_mono [OF assms] limit_le_requests [of "b\<lparr>rb_requests := n\<rparr>" p] assms
  by simp

lemma limit_follows_load_witness:
  "rb_minimum ex_budget \<le> limit (ex_budget\<lparr>rb_requests := 10\<rparr>)
     \<and> limit (ex_budget\<lparr>rb_requests := 10\<rparr>) \<le> limit (ex_budget\<lparr>rb_requests := 40\<rparr>)
     \<and> limit (ex_budget\<lparr>rb_requests := 40\<rparr>) \<le> max (rb_minimum ex_budget) 40"
  by (rule limit_follows_load [of _ 20]) (simp_all add: ex_budget_def newRetryBudget_def)

end
