(* ===== verification/Rate_Limit.thy ===== *)
theory Rate_Limit
  imports Float64 "HOL-Library.AList"
begin

text \<open>
  \<open>internal/proxy/ratelimit.go\<close>: one token bucket per client address. The limiter is its rate and the
  table of buckets, an association list, since its size triggers a sweep. \<open>bucket_step\<close> is one
  client's bucket on its own, never swept. The lemmas: however the requests of all clients interleave and
  whenever the sweep runs, every client is treated as by a bucket of its own; a client may spend a full
  second of requests at once, and never more than that at one instant.
\<close>

definition idleBucketTTL :: duration where
  "idleBucketTTL = 10 * 60 * nanos_per_second"

definition sweepThreshold :: nat where
  "sweepThreshold = 10000"

record bucket =
  bu_tokens :: rat
  bu_lastSeen :: time

record rateLimiter =
  rl_perSecond :: rat
  rl_buckets :: "(string \<times> bucket) list"

definition newRateLimiter :: "int \<Rightarrow> rateLimiter" where
  "newRateLimiter perSecond = \<lparr>rl_perSecond = float_of_int perSecond, rl_buckets = []\<rparr>"

definition setRate :: "rateLimiter \<Rightarrow> int \<Rightarrow> rateLimiter" where
  "setRate l perSecond = l\<lparr>rl_perSecond := float_of_int perSecond\<rparr>"

definition sweep :: "time \<Rightarrow> (string \<times> bucket) list \<Rightarrow> (string \<times> bucket) list" where
  "sweep now bs = filter (\<lambda>(a, b). \<not> time_sub now (bu_lastSeen b) > idleBucketTTL) bs"

definition refill :: "rat \<Rightarrow> time \<Rightarrow> bucket \<Rightarrow> rat" where
  "refill perSecond now b =
     (let tokens = f64 (bu_tokens b + f64 (seconds (time_sub now (bu_lastSeen b)) * perSecond))
      in if tokens > perSecond then perSecond else tokens)"

definition allow :: "rateLimiter \<Rightarrow> string \<Rightarrow> time \<Rightarrow> bool \<times> rateLimiter" where
  "allow l a now =
     (if rl_perSecond l \<le> 0 then (True, l)
      else
        (let (tokens, bs) =
               (case map_of (rl_buckets l) a of
                  None \<Rightarrow> (rl_perSecond l,
                           if length (rl_buckets l) \<ge> sweepThreshold then sweep now (rl_buckets l)
                           else rl_buckets l)
                | Some tracked \<Rightarrow> (refill (rl_perSecond l) now tracked, rl_buckets l))
         in if tokens < 1
            then (False, l\<lparr>rl_buckets := AList.update a \<lparr>bu_tokens = tokens, bu_lastSeen = now\<rparr> bs\<rparr>)
            else (True, l\<lparr>rl_buckets := AList.update a \<lparr>bu_tokens = f64 (tokens - 1), bu_lastSeen = now\<rparr> bs\<rparr>)))"

subsection \<open>One client's bucket\<close>

definition bucket_step :: "rat \<Rightarrow> bucket option \<Rightarrow> time \<Rightarrow> bool \<times> bucket option" where
  "bucket_step perSecond bo now =
     (if perSecond \<le> 0 then (True, bo)
      else
        (let tokens = (case bo of None \<Rightarrow> perSecond | Some b \<Rightarrow> refill perSecond now b)
         in if tokens < 1 then (False, Some \<lparr>bu_tokens = tokens, bu_lastSeen = now\<rparr>)
            else (True, Some \<lparr>bu_tokens = f64 (tokens - 1), bu_lastSeen = now\<rparr>)))"

text \<open>The events of a run: requests in the order the lock serves them, and reloads.\<close>

datatype rl_event = Request string time | SetRate int

fun run :: "rateLimiter \<Rightarrow> rl_event list \<Rightarrow> (string \<times> bool) list" where
  "run l [] = []"
| "run l (SetRate n # es) = run (setRate l n) es"
| "run l (Request a now # es) = (case allow l a now of (ok, l') \<Rightarrow> (a, ok) # run l' es)"

fun run_alone :: "string \<Rightarrow> rat \<Rightarrow> bucket option \<Rightarrow> rl_event list \<Rightarrow> bool list" where
  "run_alone a perSecond bo [] = []"
| "run_alone a perSecond bo (SetRate n # es) = run_alone a (float_of_int n) bo es"
| "run_alone a perSecond bo (Request b now # es) =
     (if b = a then (case bucket_step perSecond bo now of (ok, bo') \<Rightarrow> ok # run_alone a perSecond bo' es)
      else run_alone a perSecond bo es)"

text \<open>The clock of a run does not go back.\<close>

fun in_order :: "time \<Rightarrow> rl_event list \<Rightarrow> bool" where
  "in_order t [] = True"
| "in_order t (SetRate n # es) = in_order t es"
| "in_order t (Request a now # es) = (t \<le> now \<and> in_order now es)"

subsection \<open>Refilling\<close>

definition rate_ok :: "rat \<Rightarrow> bool" where
  "rate_ok r \<longleftrightarrow> f64 r = r \<and> (0 < r \<longrightarrow> 1 \<le> r)"

lemma rate_ok_of_int [simp]: "rate_ok (float_of_int n)"
proof (cases "1 \<le> n")
  case True
  then have "1 \<le> float_of_int n" unfolding float_of_int_def by (intro fl.rnd_ge_1) simp
  then show ?thesis by (simp add: rate_ok_def float_of_int_def)
next
  case False
  then have "float_of_int n \<le> 0" unfolding float_of_int_def by (intro f64_nonpos) simp
  then show ?thesis by (simp add: rate_ok_def float_of_int_def)
qed

lemma refill_bounds:
  assumes "rate_ok r" "0 < r" "0 \<le> bu_tokens b" "bu_lastSeen b \<le> now"
  shows "0 \<le> refill r now b" "refill r now b \<le> r"
proof -
  have "0 \<le> seconds (time_sub now (bu_lastSeen b))" using assms(4) by (intro seconds_nonneg time_sub_nonneg)
  then have "0 \<le> f64 (seconds (time_sub now (bu_lastSeen b)) * r)" using assms(2) by (intro f64_nonneg) simp
  then have "0 \<le> f64 (bu_tokens b + f64 (seconds (time_sub now (bu_lastSeen b)) * r))"
    using assms(3) by (intro f64_nonneg) simp
  then show "0 \<le> refill r now b" "refill r now b \<le> r" using assms(2) by (auto simp: refill_def Let_def)
qed

text \<open>A bucket that the sweep would drop has refilled.\<close>

lemma refill_idle:
  assumes "rate_ok r" "0 < r" "0 \<le> bu_tokens b" "idleBucketTTL < time_sub now (bu_lastSeen b)"
  shows "refill r now b = r"
proof -
  let ?s = "seconds (time_sub now (bu_lastSeen b))"
  have "of_int 600 \<le> ?s"
    using assms(4) by (intro seconds_ge_whole) (auto simp: idleBucketTTL_def nanos_per_second_def)
  then have "1 * r \<le> ?s * r" using assms(2) by (intro mult_right_mono) auto
  then have "f64 r \<le> f64 (?s * r)" by (intro f64_mono) simp
  then have r: "r \<le> f64 (?s * r)" using assms(1) by (simp add: rate_ok_def)
  have "f64 (f64 (?s * r)) \<le> f64 (bu_tokens b + f64 (?s * r))" using assms(3) by (intro f64_mono) simp
  with r have "r \<le> f64 (bu_tokens b + f64 (?s * r))" by simp
  then show ?thesis by (simp add: refill_def Let_def)
qed

definition bucket_ok :: "time \<Rightarrow> bucket option \<Rightarrow> bool" where
  "bucket_ok now bo \<longleftrightarrow> (\<forall>b. bo = Some b \<longrightarrow> 0 \<le> bu_tokens b \<and> bu_lastSeen b \<le> now)"

lemma bucket_ok_None [simp]: "bucket_ok now None"
  by (simp add: bucket_ok_def)

lemma bucket_ok_later: "bucket_ok t bo \<Longrightarrow> t \<le> now \<Longrightarrow> bucket_ok now bo"
  by (auto simp: bucket_ok_def)

lemma bucket_ok_step:
  assumes "rate_ok r" "bucket_ok now bo"
  shows "bucket_ok now (snd (bucket_step r bo now))"
proof (cases "r \<le> 0")
  case False
  define tokens where "tokens = (case bo of None \<Rightarrow> r | Some b \<Rightarrow> refill r now b)"
  have "0 \<le> tokens"
    using assms False refill_bounds(1) [OF assms(1)] by (auto simp: tokens_def bucket_ok_def split: option.splits)
  moreover have "0 \<le> f64 (tokens - 1)" if "\<not> tokens < 1" using that by (intro f64_nonneg) simp
  ultimately show ?thesis
    using False by (auto simp: bucket_step_def tokens_def [symmetric] bucket_ok_def Let_def)
qed (use assms in \<open>simp add: bucket_step_def\<close>)

subsection \<open>The table and the sweep\<close>

lemma map_of_filter_distinct:
  "distinct (map fst al) \<Longrightarrow>
   map_of (filter (\<lambda>(a, b). P b) al) a = (case map_of al a of None \<Rightarrow> None | Some b \<Rightarrow> if P b then Some b else None)"
proof (induction al)
  case (Cons x al)
  obtain k v where x: "x = (k, v)" by fastforce
  have "map_of al k = None" using Cons.prems x by (simp add: map_of_eq_None_iff)
  with Cons x show ?case by (auto split: option.splits)
qed simp

definition table_ok :: "rateLimiter \<Rightarrow> bool" where
  "table_ok l \<longleftrightarrow> distinct (map fst (rl_buckets l)) \<and> rate_ok (rl_perSecond l)"

text \<open>The limiter tracks what the client's own bucket holds, or has dropped it after it refilled.\<close>

definition tracks :: "string \<Rightarrow> time \<Rightarrow> rateLimiter \<Rightarrow> bucket option \<Rightarrow> bool" where
  "tracks a now l bo \<longleftrightarrow> map_of (rl_buckets l) a = bo \<or>
     (map_of (rl_buckets l) a = None \<and> (\<exists>b. bo = Some b \<and> idleBucketTTL < time_sub now (bu_lastSeen b)))"

lemma tracks_later: "tracks a t l bo \<Longrightarrow> t \<le> now \<Longrightarrow> tracks a now l bo"
proof -
  assume t: "tracks a t l bo" "t \<le> now"
  have "idleBucketTTL < time_sub t since \<Longrightarrow> idleBucketTTL < time_sub now since" for since
    using time_sub_mono [OF t(2), of since] by linarith
  with t(1) show ?thesis unfolding tracks_def by blast
qed

lemma sweep_distinct: "distinct (map fst bs) \<Longrightarrow> distinct (map fst (sweep now bs))"
  unfolding sweep_def by (induction bs) auto

lemma sweep_tracks:
  assumes "distinct (map fst (rl_buckets l))" "tracks a now l bo"
  shows "tracks a now (l\<lparr>rl_buckets := sweep now (rl_buckets l)\<rparr>) bo"
  using assms map_of_filter_distinct [OF assms(1), of "\<lambda>b. \<not> time_sub now (bu_lastSeen b) > idleBucketTTL" a]
  by (auto simp: tracks_def sweep_def split: option.splits if_splits)

text \<open>One request: the table it leaves.\<close>

lemma allow_cases:
  assumes "0 < rl_perSecond l"
  obtains tokens bs where
    "tokens = (case map_of (rl_buckets l) a of None \<Rightarrow> rl_perSecond l
                 | Some b \<Rightarrow> refill (rl_perSecond l) now b)"
    "bs = rl_buckets l \<or> bs = sweep now (rl_buckets l)"
    "allow l a now = (\<not> tokens < 1,
       l\<lparr>rl_buckets := AList.update a \<lparr>bu_tokens = (if tokens < 1 then tokens else f64 (tokens - 1)),
                                      bu_lastSeen = now\<rparr> bs\<rparr>)"
proof -
  define tokens where "tokens = (case map_of (rl_buckets l) a of None \<Rightarrow> rl_perSecond l
                 | Some b \<Rightarrow> refill (rl_perSecond l) now b)"
  define bs where "bs = (if map_of (rl_buckets l) a = None \<and> length (rl_buckets l) \<ge> sweepThreshold
      then sweep now (rl_buckets l) else rl_buckets l)"
  have "allow l a now = (\<not> tokens < 1,
       l\<lparr>rl_buckets := AList.update a \<lparr>bu_tokens = (if tokens < 1 then tokens else f64 (tokens - 1)),
                                      bu_lastSeen = now\<rparr> bs\<rparr>)"
    using assms by (auto simp: allow_def tokens_def bs_def split: option.split)
  then show ?thesis by (intro that [of tokens bs]) (auto simp: tokens_def bs_def)
qed

lemma allow_settings: "rl_perSecond (snd (allow l a now)) = rl_perSecond l"
  by (auto simp: allow_def Let_def split: prod.split)

lemma allow_table_ok:
  assumes "table_ok l"
  shows "table_ok (snd (allow l a now))"
proof (cases "0 < rl_perSecond l")
  case True
  show ?thesis
    by (rule allow_cases [OF True, where a = a and now = now])
      (use assms sweep_distinct [of "rl_buckets l" now] in \<open>auto simp: table_ok_def intro!: distinct_update\<close>)
qed (use assms in \<open>simp add: allow_def\<close>)

lemma allow_tracks_own:
  assumes "table_ok l" "bucket_ok now bo" "tracks a now l bo"
  shows "fst (allow l a now) = fst (bucket_step (rl_perSecond l) bo now)
     \<and> tracks a now (snd (allow l a now)) (snd (bucket_step (rl_perSecond l) bo now))"
proof (cases "0 < rl_perSecond l")
  case True
  obtain tokens bs where ts: "tokens = (case map_of (rl_buckets l) a of None \<Rightarrow> rl_perSecond l
                 | Some b \<Rightarrow> refill (rl_perSecond l) now b)"
    and al: "allow l a now = (\<not> tokens < 1,
       l\<lparr>rl_buckets := AList.update a \<lparr>bu_tokens = (if tokens < 1 then tokens else f64 (tokens - 1)),
                                      bu_lastSeen = now\<rparr> bs\<rparr>)"
    using True by (rule allow_cases)
  have "tokens = (case bo of None \<Rightarrow> rl_perSecond l | Some b \<Rightarrow> refill (rl_perSecond l) now b)"
    using assms True refill_idle [of "rl_perSecond l" _ now]
    by (auto simp: ts tracks_def bucket_ok_def table_ok_def)
  then show ?thesis
    using True al by (auto simp: bucket_step_def tracks_def update_conv)
qed (use assms in \<open>simp add: allow_def bucket_step_def\<close>)

lemma allow_tracks_other:
  assumes "table_ok l" "tracks a now l bo" "b \<noteq> a"
  shows "tracks a now (snd (allow l b now)) bo"
proof (cases "0 < rl_perSecond l")
  case True
  obtain tokens bs where bs: "bs = rl_buckets l \<or> bs = sweep now (rl_buckets l)"
    and al: "allow l b now = (\<not> tokens < 1,
       l\<lparr>rl_buckets := AList.update b \<lparr>bu_tokens = (if tokens < 1 then tokens else f64 (tokens - 1)),
                                      bu_lastSeen = now\<rparr> bs\<rparr>)"
    using True by (rule allow_cases)
  have "tracks a now (l\<lparr>rl_buckets := bs\<rparr>) bo"
    using bs assms(1,2) sweep_tracks [of l a now bo] by (auto simp: table_ok_def)
  then show ?thesis using al assms(3) by (simp add: tracks_def update_conv)
qed (use assms in \<open>simp add: allow_def\<close>)

subsection \<open>Properties\<close>

lemma run_as_alone:
  assumes "in_order t es" "table_ok l" "bucket_ok t bo" "tracks a t l bo"
  shows "map snd (filter (\<lambda>r. fst r = a) (run l es)) = run_alone a (rl_perSecond l) bo es"
  using assms
proof (induction es arbitrary: t l bo)
  case (Cons e es)
  show ?case
  proof (cases e)
    case (SetRate n)
    have "tracks a t (setRate l n) bo" "table_ok (setRate l n)"
      using Cons.prems by (auto simp: tracks_def table_ok_def setRate_def)
    with Cons.IH [of t "setRate l n" bo] Cons.prems SetRate show ?thesis by (simp add: setRate_def)
  next
    case (Request b now)
    have t: "t \<le> now" "in_order now es" using Cons.prems(1) Request by auto
    have ok: "bucket_ok now bo" "tracks a now l bo"
      using Cons.prems t(1) by (auto intro: bucket_ok_later tracks_later)
    have table: "table_ok (snd (allow l b now))" using Cons.prems(2) by (rule allow_table_ok)
    have rate: "rate_ok (rl_perSecond l)" using Cons.prems(2) by (simp add: table_ok_def)
    show ?thesis
    proof (cases "b = a")
      case True
      note own = allow_tracks_own [OF Cons.prems(2) ok]
      note IH = Cons.IH [OF t(2) table [unfolded True] bucket_ok_step [OF rate ok(1)] own [THEN conjunct2]]
      show ?thesis
        using IH own True Request by (simp add: allow_settings case_prod_beta)
    next
      case False
      note IH = Cons.IH [OF t(2) table ok(1) allow_tracks_other [OF Cons.prems(2) ok(2) False]]
      show ?thesis using IH False Request by (simp add: allow_settings case_prod_beta)
    qed
  qed
qed simp

text \<open>
  C10: In any run of the limiter, whatever other clients send, however many there are, whenever the sweep
  runs and however often the rate is reloaded, every client gets exactly the answers that a bucket of its
  own, never swept, would give to its requests alone.
\<close>

lemma clients_are_isolated:
  assumes "in_order t es"
  shows "map snd (filter (\<lambda>r. fst r = a) (run (newRateLimiter n) es)) = run_alone a (float_of_int n) None es"
  using run_as_alone [OF assms, of "newRateLimiter n" None a]
  by (simp add: newRateLimiter_def table_ok_def tracks_def)

definition ex_events :: "rl_event list" where
  "ex_events = [Request ''a'' 5, Request ''b'' 6, SetRate 3, Request ''a'' 7]"

lemma clients_are_isolated_witness:
  "map snd (filter (\<lambda>r. fst r = ''a'') (run (newRateLimiter 2) ex_events)) = run_alone ''a'' (float_of_int 2) None ex_events"
  by (rule clients_are_isolated [of 0]) (simp add: ex_events_def)

text \<open>Requests of one client at one instant.\<close>

fun burst :: "rateLimiter \<Rightarrow> string \<Rightarrow> time \<Rightarrow> nat \<Rightarrow> bool list" where
  "burst l a now 0 = []"
| "burst l a now (Suc k) = (case allow l a now of (ok, l') \<Rightarrow> ok # burst l' a now k)"

lemma refill_now: "bu_lastSeen b = now \<Longrightarrow> refill r now b = (if f64 (bu_tokens b) > r then r else f64 (bu_tokens b))"
  by (simp add: refill_def time_sub_def min_duration_def max_duration_def)

lemma burst_within:
  assumes "0 \<le> m" "m \<le> 2 ^ 53" "0 < rl_perSecond l"
    and "map_of (rl_buckets l) a = Some b" "bu_lastSeen b = now" "bu_tokens b \<le> of_int m"
  shows "int (count_list (burst l a now k) True) \<le> m"
  using assms
proof (induction k arbitrary: l b m)
  case (Suc k)
  define tokens where "tokens = refill (rl_perSecond l) now b"
  have "f64 (bu_tokens b) \<le> f64 (of_int m)" using Suc.prems(6) by (rule f64_mono)
  also have "\<dots> = of_int m" using Suc.prems(1,2) by (intro f64_of_int) simp
  finally have le: "tokens \<le> of_int m" using refill_now [OF Suc.prems(5)] by (auto simp: tokens_def)
  obtain tk bs where "tk = tokens"
    and al: "allow l a now = (\<not> tk < 1,
       l\<lparr>rl_buckets := AList.update a \<lparr>bu_tokens = (if tk < 1 then tk else f64 (tk - 1)), bu_lastSeen = now\<rparr> bs\<rparr>)"
    by (rule allow_cases [OF Suc.prems(3), where a = a and now = now])
      (use Suc.prems(4) in \<open>auto simp: tokens_def\<close>)
  then have al: "allow l a now = (\<not> tokens < 1,
       l\<lparr>rl_buckets := AList.update a \<lparr>bu_tokens = (if tokens < 1 then tokens else f64 (tokens - 1)), bu_lastSeen = now\<rparr> bs\<rparr>)"
    by simp
  show ?case
  proof (cases "tokens < 1")
    case True
    have "int (count_list (burst (snd (allow l a now)) a now k) True) \<le> m"
      using Suc.prems le True al 
      by (intro Suc.IH [where m = m and b = "\<lparr>bu_tokens = tokens, bu_lastSeen = now\<rparr>"]) (auto simp: update_conv)
    then show ?thesis using True al by simp
  next
    case False
    then have "(1 :: rat) \<le> of_int m" using le by linarith
    then have m: "1 \<le> m" by simp
    have "f64 (tokens - 1) \<le> f64 (of_int (m - 1))" using le by (intro f64_mono) simp
    also have "\<dots> = of_int (m - 1)" using m Suc.prems(2) by (intro f64_of_int) simp
    finally have "int (count_list (burst (snd (allow l a now)) a now k) True) \<le> m - 1"
      using Suc.prems m False al 
      by (intro Suc.IH [where m = "m - 1" and b = "\<lparr>bu_tokens = f64 (tokens - 1), bu_lastSeen = now\<rparr>"])
        (auto simp: update_conv)
    then show ?thesis using False al by simp
  qed
qed simp

text \<open>
  C35: At one instant, however many requests a client sends and whatever it sent before, the limiter lets
  at most \<open>rate_limit_per_ip\<close> of them through.
\<close>

lemma burst_is_bounded:
  assumes "rl_perSecond l = float_of_int n" "1 \<le> n" "n \<le> 2 ^ 53"
  shows "int (count_list (burst l a now k) True) \<le> n"
proof (cases k)
  case (Suc j)
  have rate: "rl_perSecond l = of_int n" using assms by (simp add: float_of_int_def f64_of_int)
  then have pos: "0 < rl_perSecond l" using assms(2) by simp
  obtain tokens bs where ts: "tokens = (case map_of (rl_buckets l) a of None \<Rightarrow> rl_perSecond l
                 | Some b \<Rightarrow> refill (rl_perSecond l) now b)"
    and al: "allow l a now = (\<not> tokens < 1,
       l\<lparr>rl_buckets := AList.update a \<lparr>bu_tokens = (if tokens < 1 then tokens else f64 (tokens - 1)), bu_lastSeen = now\<rparr> bs\<rparr>)"
    using pos by (rule allow_cases)
  have le: "tokens \<le> of_int n" using ts rate by (auto simp: refill_def Let_def split: option.splits)
  show ?thesis
  proof (cases "tokens < 1")
    case True
    have "int (count_list (burst (snd (allow l a now)) a now j) True) \<le> n"
      using al True le pos assms
      by (intro burst_within [where b = "\<lparr>bu_tokens = tokens, bu_lastSeen = now\<rparr>"]) (auto simp: update_conv)
    then show ?thesis using al True Suc by simp
  next
    case False
    have "f64 (tokens - 1) \<le> f64 (of_int (n - 1))" using le by (intro f64_mono) simp
    also have "\<dots> = of_int (n - 1)" using assms by (intro f64_of_int) simp
    finally have "int (count_list (burst (snd (allow l a now)) a now j) True) \<le> n - 1"
      using al False pos assms
      by (intro burst_within [where b = "\<lparr>bu_tokens = f64 (tokens - 1), bu_lastSeen = now\<rparr>"])
        (auto simp: update_conv)
    then show ?thesis using al False Suc by simp
  qed
qed (use assms in simp)

lemma burst_is_bounded_witness: "int (count_list (burst (newRateLimiter 2) ''a'' 7 5) True) \<le> 2"
  by (rule burst_is_bounded) (simp_all add: newRateLimiter_def)

end
