(* ===== verification/Http.thy ===== *)
theory Http
  imports Go_Prelude
begin

text \<open>
  The parts of Go's \<open>net/http\<close> and \<open>errors\<close> that the proxy reads: header maps under canonical
  keys, requests, cookies, and errors as chains. A header map is a table from canonical keys to the list
  of values in order. An error is what \<open>errors.Is\<close> and \<open>errors.As\<close> can see of it.
\<close>

subsection \<open>Headers\<close>

type_synonym header = "string \<rightharpoonup> string list"

text \<open>\<open>textproto.CanonicalMIMEHeaderKey\<close>: a key with a byte that is no token byte stays as it is.\<close>

definition token_byte :: "char \<Rightarrow> bool" where
  "token_byte c =
     (let n = of_char c :: nat
      in 97 \<le> n \<and> n \<le> 122 \<or> 65 \<le> n \<and> n \<le> 90 \<or> 48 \<le> n \<and> n \<le> 57
         \<or> c \<in> set ''!#$%&*+-.^_|~'' \<union> {CHR 0x27, CHR 0x60})"

definition upper :: "char \<Rightarrow> char" where
  "upper c = (let n = of_char c :: nat in if 97 \<le> n \<and> n \<le> 122 then char_of (n - 32) else c)"

definition lower :: "char \<Rightarrow> char" where
  "lower c = (let n = of_char c :: nat in if 65 \<le> n \<and> n \<le> 90 then char_of (n + 32) else c)"

fun canonical_from :: "bool \<Rightarrow> string \<Rightarrow> string" where
  "canonical_from up [] = []"
| "canonical_from up (c # cs) = (if up then upper c else lower c) # canonical_from (c = CHR ''-'') cs"

definition canonical_key :: "string \<Rightarrow> string" where
  "canonical_key key = (if list_all token_byte key then canonical_from True key else key)"

definition header_values :: "header \<Rightarrow> string \<Rightarrow> string list" where
  "header_values hdr key = (case hdr (canonical_key key) of None \<Rightarrow> [] | Some vs \<Rightarrow> vs)"

definition header_get :: "header \<Rightarrow> string \<Rightarrow> string" where
  "header_get hdr key = (case header_values hdr key of [] \<Rightarrow> [] | v # _ \<Rightarrow> v)"

definition header_set :: "header \<Rightarrow> string \<Rightarrow> string \<Rightarrow> header" where
  "header_set hdr key v = hdr(canonical_key key \<mapsto> [v])"

definition header_del :: "header \<Rightarrow> string \<Rightarrow> header" where
  "header_del hdr key = hdr(canonical_key key := None)"

definition header_add :: "header \<Rightarrow> string \<Rightarrow> string \<Rightarrow> header" where
  "header_add hdr key v = hdr(canonical_key key \<mapsto> header_values hdr key @ [v])"

lemma header_values_set: "header_values (header_set hdr key v) key = [v]"
  by (simp add: header_values_def header_set_def)

lemma header_values_del: "header_values (header_del hdr key) key = []"
  by (simp add: header_values_def header_del_def)

lemma header_values_add: "header_values (header_add hdr key v) key = header_values hdr key @ [v]"
  by (simp add: header_values_def header_add_def)

lemma header_get_set [simp]: "header_get (header_set hdr key v) key = v"
  by (simp add: header_get_def header_values_set)

subsection \<open>Requests\<close>

text \<open>
  What reading a request's body gives: the bytes that arrive, and whether the read then fails. A request
  without a body, or with \<open>http.NoBody\<close>, is \<open>None\<close>. \<open>rq_id\<close> is the identifier on the request's
  context, once it has one.
\<close>

record body_source =
  bs_bytes :: string
  bs_broken :: bool

record request =
  rq_method :: string
  rq_header :: header
  rq_remote_addr :: string
  rq_host :: string
  rq_tls :: bool
  rq_content_length :: int
  rq_body :: "body_source option"
  rq_id :: "string option"

subsection \<open>Cookies\<close>

text \<open>\<open>readCookies\<close>: the value of the first cookie called \<open>name\<close> on the \<open>Cookie\<close> lines.\<close>

definition cookie_value_byte :: "char \<Rightarrow> bool" where
  "cookie_value_byte c =
     (let n = of_char c :: nat in 32 \<le> n \<and> n < 127 \<and> n \<noteq> 34 \<and> n \<noteq> 59 \<and> n \<noteq> 92)"

definition unquote :: "string \<Rightarrow> string" where
  "unquote v = (if 1 < length v \<and> v ! 0 = CHR 0x22 \<and> last v = CHR 0x22 then butlast (tl v) else v)"

definition parse_cookie_value :: "string \<Rightarrow> string option" where
  "parse_cookie_value raw =
     (let v = unquote raw in if list_all cookie_value_byte v then Some v else None)"

definition is_http_space :: "char \<Rightarrow> bool" where
  "is_http_space c \<longleftrightarrow> c \<in> {CHR '' '', CHR 0x09, CHR 0x0A, CHR 0x0D}"

text \<open>\<open>textproto.TrimString\<close>.\<close>

definition trim_string :: "string \<Rightarrow> string" where
  "trim_string s = rev (dropWhile is_http_space (rev (dropWhile is_http_space s)))"

definition is_cookie_name :: "string \<Rightarrow> bool" where
  "is_cookie_name s = (s \<noteq> [] \<and> list_all token_byte s)"

definition read_pair :: "string \<Rightarrow> string \<Rightarrow> string option" where
  "read_pair name part =
     (let pair = trim_string part
      in if pair = [] then None
         else case cut pair CHR ''='' of
           (n, v, _) \<Rightarrow>
             (if is_cookie_name (trim_string n) \<and> trim_string n = name then parse_cookie_value v else None))"

fun first_cookie :: "string \<Rightarrow> string list \<Rightarrow> string option" where
  "first_cookie name [] = None"
| "first_cookie name (part # parts) =
     (case read_pair name part of Some v \<Rightarrow> Some v | None \<Rightarrow> first_cookie name parts)"

definition cookie_parts :: "header \<Rightarrow> string list" where
  "cookie_parts hdr = concat (map (split_byte CHR '';'' \<circ> trim_string) (header_values hdr ''Cookie''))"

text \<open>\<open>Request.Cookie\<close>; an empty name is no cookie's.\<close>

definition request_cookie :: "request \<Rightarrow> string \<Rightarrow> string option" where
  "request_cookie r name = (if name = [] then None else first_cookie name (cookie_parts (rq_header r)))"

subsection \<open>Errors\<close>

text \<open>
  \<open>Retryable5xx\<close> is the proxy's own \<open>errRetryable5xx\<close>. \<open>TimeoutError\<close> and
  \<open>TemporaryError\<close> are errors of packages that implement \<open>net.Error\<close>; a context that has run out
  (\<open>DeadlineExceeded\<close>) is one of the first. \<open>Wrapped\<close> is an error that only unwraps.
\<close>

datatype err =
    Retryable5xx | EOF | UnexpectedEOF | ConnReset | BrokenPipe | Canceled | OtherError
  | TimeoutError | TemporaryError
  | OpError string err
  | SyscallError err
  | Wrapped err

fun unwrap_chain :: "err \<Rightarrow> err list" where
  "unwrap_chain (OpError op e) = OpError op e # unwrap_chain e"
| "unwrap_chain (SyscallError e) = SyscallError e # unwrap_chain e"
| "unwrap_chain (Wrapped e) = Wrapped e # unwrap_chain e"
| "unwrap_chain e = [e]"

definition error_is :: "err \<Rightarrow> err \<Rightarrow> bool" where
  "error_is e target \<longleftrightarrow> target \<in> set (unwrap_chain e)"

text \<open>\<open>errors.As\<close> to \<open>*net.OpError\<close>: the operation of the first one on the chain.\<close>

fun as_op_error :: "err \<Rightarrow> string option" where
  "as_op_error (OpError op e) = Some op"
| "as_op_error (SyscallError e) = as_op_error e"
| "as_op_error (Wrapped e) = as_op_error e"
| "as_op_error e = None"

text \<open>The method \<open>Timeout\<close> of an error that has one.\<close>

fun timeout :: "err \<Rightarrow> bool" where
  "timeout TimeoutError = True"
| "timeout (OpError op e) = (case e of SyscallError e' \<Rightarrow> timeout e' | _ \<Rightarrow> timeout e)"
| "timeout (SyscallError e) = timeout e"
| "timeout e = False"

text \<open>\<open>errors.As\<close> to \<open>net.Error\<close>, and its \<open>Timeout\<close>.\<close>

fun as_net_timeout :: "err \<Rightarrow> bool" where
  "as_net_timeout (OpError op e) = timeout (OpError op e)"
| "as_net_timeout (SyscallError e) = as_net_timeout e"
| "as_net_timeout (Wrapped e) = as_net_timeout e"
| "as_net_timeout e = timeout e"

end
