(* ===== verification/Request_Checks.thy ===== *)
theory Request_Checks
  imports Http Configuration
begin

text \<open>
  What the proxy reads off a request and off a failed attempt: the identifier
  (\<open>internal/proxy/requestid.go\<close>), ambiguous framing (\<open>validate.go\<close>), whether a failure may be
  retried (\<open>idempotency.go\<close>), why an attempt failed (\<open>reason.go\<close>), the client's address
  (\<open>ratelimit.go\<close>), and the key a request is hashed on (\<open>hashing.go\<close>). A fresh identifier
  (\<open>rand.Text\<close>) is an argument.
\<close>

subsection \<open>The request identifier\<close>

definition requestIDHeader :: string where
  "requestIDHeader = ''X-Request-Id''"

definition maxRequestIDLength :: nat where
  "maxRequestIDLength = 64"

definition printable_ascii :: "char \<Rightarrow> bool" where
  "printable_ascii c = (let n = of_char c :: nat in \<not> (n < 0x20 \<or> n > 0x7e))"

definition usableRequestID :: "string \<Rightarrow> bool" where
  "usableRequestID s = (\<not> (s = [] \<or> length s > maxRequestIDLength) \<and> list_all printable_ascii s)"

definition requestIDOf :: "string \<Rightarrow> request \<Rightarrow> string" where
  "requestIDOf fresh r =
     (let sent = header_get (rq_header r) requestIDHeader in if usableRequestID sent then sent else fresh)"

text \<open>\<open>withRequestID\<close>: the header set on the answer, and the request handed on.\<close>

definition withRequestID :: "string \<Rightarrow> request \<Rightarrow> (string \<times> string) \<times> request" where
  "withRequestID fresh r =
     (let rid = requestIDOf fresh r in ((requestIDHeader, rid), r\<lparr>rq_id := Some rid\<rparr>))"

definition requestIDFrom :: "request \<Rightarrow> string" where
  "requestIDFrom r = (case rq_id r of Some rid \<Rightarrow> rid | None \<Rightarrow> [])"

subsection \<open>Framing\<close>

definition suspiciousFraming :: "request \<Rightarrow> bool" where
  "suspiciousFraming r =
     (let lengths = header_values (rq_header r) ''Content-Length''
      in if length lengths > 1 then True
         else length lengths = 1 \<and> length (header_values (rq_header r) ''Transfer-Encoding'') > 0)"

subsection \<open>Retrying\<close>

definition idempotent :: "string \<Rightarrow> bool" where
  "idempotent meth \<longleftrightarrow> meth \<in> set [''GET'', ''HEAD'', ''PUT'', ''DELETE'', ''OPTIONS'', ''TRACE'']"

definition dialFailed :: "err \<Rightarrow> bool" where
  "dialFailed e \<longleftrightarrow> as_op_error e = Some ''dial''"

definition retryable :: "string \<Rightarrow> err \<Rightarrow> bool" where
  "retryable meth e \<longleftrightarrow> idempotent meth \<or> dialFailed e"

subsection \<open>Reasons\<close>

definition reasonConnect :: string where "reasonConnect = ''connect''"
definition reasonTimeout :: string where "reasonTimeout = ''timeout''"
definition reasonReset :: string where "reasonReset = ''reset''"
definition reasonCutOff :: string where "reasonCutOff = ''cut_off''"
definition reason5xx :: string where "reason5xx = ''5xx''"
definition reasonOther :: string where "reasonOther = ''other''"

lemmas reason_defs = reasonConnect_def reasonTimeout_def reasonReset_def reasonCutOff_def
  reason5xx_def reasonOther_def

definition reasons :: "string list" where
  "reasons = [reasonConnect, reasonTimeout, reasonReset, reasonCutOff, reason5xx, reasonOther]"

definition failureReason :: "err \<Rightarrow> string" where
  "failureReason e =
     (if error_is e Retryable5xx then reason5xx
      else if dialFailed e then reasonConnect
      else if as_net_timeout e then reasonTimeout
      else if error_is e EOF \<or> error_is e UnexpectedEOF \<or> error_is e ConnReset \<or> error_is e BrokenPipe
      then reasonReset
      else reasonOther)"

subsection \<open>Addresses and keys\<close>

definition clientAddr :: "request \<Rightarrow> string" where
  "clientAddr r =
     (case split_host_port (rq_remote_addr r) of None \<Rightarrow> rq_remote_addr r | Some (host, _) \<Rightarrow> host)"

definition keyFor :: "ConsistentHash \<Rightarrow> request \<Rightarrow> string" where
  "keyFor hash r =
     (if ch_key hash = KeyClientIP then clientAddr r
      else (case Header hash of
              Some name \<Rightarrow> header_get (rq_header r) name
            | None \<Rightarrow> []))"

subsection \<open>Lemmas\<close>

lemma usableRequestID_requestIDOf:
  "usableRequestID fresh \<Longrightarrow> usableRequestID (requestIDOf fresh r)"
  by (simp add: requestIDOf_def Let_def)

lemma failureReason_listed: "failureReason e \<in> set reasons"
  by (simp add: failureReason_def reasons_def)

lemma reasons_distinct: "distinct reasons"
  by (simp add: reasons_def reason_defs)

lemma failureReason_never_cut_off: "failureReason e \<noteq> reasonCutOff"
  by (simp add: failureReason_def reason_defs)

text \<open>A failed dial is reported as one even when it timed out.\<close>

lemma dialFailed_reason: "dialFailed e \<Longrightarrow> failureReason e = reason5xx \<or> failureReason e = reasonConnect"
  by (simp add: failureReason_def)

text \<open>Two requests from one connection, or one client, have the same address whatever their port.\<close>

lemma clientAddr_plain:
  assumes "set h \<inter> {CHR '':'', CHR ''['', CHR '']''} = {}" "set p \<inter> {CHR '':'', CHR ''['', CHR '']''} = {}"
  shows "clientAddr (r\<lparr>rq_remote_addr := h @ CHR '':'' # p\<rparr>) = h"
  using split_host_port_plain [OF assms] by (simp add: clientAddr_def)

text \<open>Under \<open>client_ip\<close>, no header of the client's has any say in where a request is placed.\<close>

lemma keyFor_client_ip:
  "ch_key hash = KeyClientIP \<Longrightarrow> keyFor hash (r\<lparr>rq_header := hdr\<rparr>) = keyFor hash r"
  by (simp add: keyFor_def clientAddr_def split: option.split)

lemma suspiciousFraming_iff:
  "suspiciousFraming r \<longleftrightarrow>
     length (header_values (rq_header r) ''Content-Length'') > 1 \<or>
     header_values (rq_header r) ''Content-Length'' \<noteq> [] \<and> header_values (rq_header r) ''Transfer-Encoding'' \<noteq> []"
  by (cases "header_values (rq_header r) ''Content-Length''") (auto simp: suspiciousFraming_def)

end
