(* ===== verification/Metrics.thy ===== *)
theory Metrics
  imports Float64
begin

text \<open>
  \<open>internal/observability/metrics.go\<close>: what the balancer counts. A counter vector is a table from label
  values to counts, in which a series exists once it has been touched (\<open>WithLabelValues\<close>), and the
  histogram of durations is the sequence of what it observed; the Prometheus client builds its exposition
  from these. Registering collectors and serving the exposition are calls of that client and not modelled.
  The lemmas: which series an operation changes, and by how much.
\<close>

subsection \<open>Labels\<close>

definition PlacementHome :: string where "PlacementHome = ''home''"
definition PlacementOverloaded :: string where "PlacementOverloaded = ''overloaded''"
definition PlacementUnavailable :: string where "PlacementUnavailable = ''unavailable''"
definition PlacementKeyless :: string where "PlacementKeyless = ''keyless''"

definition placements :: "string list" where
  "placements = [PlacementHome, PlacementOverloaded, PlacementUnavailable, PlacementKeyless]"

definition StickyPinned :: string where "StickyPinned = ''pinned''"
definition StickyNew :: string where "StickyNew = ''new''"
definition StickyRepinned :: string where "StickyRepinned = ''repinned''"
definition StickyUnknown :: string where "StickyUnknown = ''unknown''"

definition stickyResults :: "string list" where
  "stickyResults = [StickyPinned, StickyNew, StickyRepinned, StickyUnknown]"

lemmas label_defs = PlacementHome_def PlacementOverloaded_def PlacementUnavailable_def PlacementKeyless_def
  StickyPinned_def StickyNew_def StickyRepinned_def StickyUnknown_def

subsection \<open>Counters\<close>

type_synonym 'k counter = "'k \<rightharpoonup> nat"

definition count_of :: "'k counter \<Rightarrow> 'k \<Rightarrow> nat" where
  "count_of c k = (case c k of None \<Rightarrow> 0 | Some n \<Rightarrow> n)"

text \<open>\<open>WithLabelValues\<close> creates a series at zero, and \<open>Inc\<close> adds one to it.\<close>

definition with_label :: "'k counter \<Rightarrow> 'k \<Rightarrow> 'k counter" where
  "with_label c k = c(k \<mapsto> count_of c k)"

definition inc :: "'k counter \<Rightarrow> 'k \<Rightarrow> 'k counter" where
  "inc c k = c(k \<mapsto> count_of c k + 1)"

lemma count_of_empty [simp]: "count_of Map.empty k = 0"
  by (simp add: count_of_def)

lemma count_of_inc [simp]: "count_of (inc c k) j = (if j = k then count_of c k + 1 else count_of c j)"
  by (simp add: inc_def count_of_def)

lemma count_of_with_label [simp]: "count_of (with_label c k) j = count_of c j"
  by (simp add: with_label_def count_of_def)

lemma count_of_with_labels [simp]: "count_of (foldl with_label c ks) j = count_of c j"
  by (induction ks arbitrary: c) simp_all

lemma dom_with_labels: "dom (foldl with_label c ks) = dom c \<union> set ks"
  by (induction ks arbitrary: c) (auto simp: with_label_def)

record metrics =
  me_requests :: "(string \<times> string) counter"
  me_duration :: "string \<rightharpoonup> rat list"
  me_failures :: "(string \<times> string) counter"
  me_retries :: nat
  me_rejections :: "string counter"
  me_reloads :: "string counter"
  me_placements :: "string counter"
  me_sticky :: "string counter"

definition NewMetrics :: metrics where
  "NewMetrics =
     \<lparr>me_requests = Map.empty, me_duration = Map.empty, me_failures = Map.empty, me_retries = 0,
      me_rejections = Map.empty, me_reloads = Map.empty,
      me_placements = foldl with_label Map.empty placements,
      me_sticky = foldl with_label Map.empty stickyResults\<rparr>"

definition ObserveRequest :: "metrics \<Rightarrow> string \<Rightarrow> string \<Rightarrow> duration \<Rightarrow> metrics" where
  "ObserveRequest m b status took =
     m\<lparr>me_requests := inc (me_requests m) (b, status),
       me_duration := (me_duration m)(b \<mapsto>
         (case me_duration m b of None \<Rightarrow> [] | Some ts \<Rightarrow> ts) @ [seconds took])\<rparr>"

definition ObserveBackendFailure :: "metrics \<Rightarrow> string \<Rightarrow> string \<Rightarrow> metrics" where
  "ObserveBackendFailure m b reason = m\<lparr>me_failures := inc (me_failures m) (b, reason)\<rparr>"

definition PrepareBackendFailures :: "metrics \<Rightarrow> string \<Rightarrow> string list \<Rightarrow> metrics" where
  "PrepareBackendFailures m b reasons =
     m\<lparr>me_failures := foldl (\<lambda>c reason. with_label c (b, reason)) (me_failures m) reasons\<rparr>"

definition ObservePlacement :: "metrics \<Rightarrow> string \<Rightarrow> metrics" where
  "ObservePlacement m placement = m\<lparr>me_placements := inc (me_placements m) placement\<rparr>"

definition ObserveSticky :: "metrics \<Rightarrow> string \<Rightarrow> metrics" where
  "ObserveSticky m result = m\<lparr>me_sticky := inc (me_sticky m) result\<rparr>"

definition ObserveRetry :: "metrics \<Rightarrow> metrics" where
  "ObserveRetry m = m\<lparr>me_retries := me_retries m + 1\<rparr>"

definition ObserveRejection :: "metrics \<Rightarrow> string \<Rightarrow> metrics" where
  "ObserveRejection m reason = m\<lparr>me_rejections := inc (me_rejections m) reason\<rparr>"

definition ObserveReload :: "metrics \<Rightarrow> string \<Rightarrow> metrics" where
  "ObserveReload m result = m\<lparr>me_reloads := inc (me_reloads m) result\<rparr>"

text \<open>What the metrics say of rejections and failures after an observation of another kind.\<close>

lemma rejections_frame [simp, frame_simps]:
  "me_rejections (ObserveRequest m b st t) = me_rejections m"
  "me_rejections (ObserveBackendFailure m b r) = me_rejections m"
  "me_rejections (PrepareBackendFailures m b rs) = me_rejections m"
  "me_rejections (ObservePlacement m p) = me_rejections m"
  "me_rejections (ObserveSticky m p) = me_rejections m"
  "me_rejections (ObserveRetry m) = me_rejections m"
  "me_rejections (ObserveReload m p) = me_rejections m"
  by (simp_all add: ObserveRequest_def ObserveBackendFailure_def PrepareBackendFailures_def ObservePlacement_def
      ObserveSticky_def ObserveRetry_def ObserveReload_def)

lemma rejections_inc [simp]: "me_rejections (ObserveRejection m r) = inc (me_rejections m) r"
  by (simp add: ObserveRejection_def)

lemma requests_frame [simp, frame_simps]:
  "me_requests (ObserveRejection m r) = me_requests m"
  "me_requests (ObserveBackendFailure m b r) = me_requests m"
  "me_requests (PrepareBackendFailures m b rs) = me_requests m"
  "me_requests (ObservePlacement m p) = me_requests m"
  "me_requests (ObserveSticky m p) = me_requests m"
  "me_requests (ObserveRetry m) = me_requests m"
  "me_requests (ObserveReload m p) = me_requests m"
  by (simp_all add: ObserveRejection_def ObserveBackendFailure_def PrepareBackendFailures_def ObservePlacement_def
      ObserveSticky_def ObserveRetry_def ObserveReload_def)

lemma requests_inc [simp]: "me_requests (ObserveRequest m b st t) = inc (me_requests m) (b, st)"
  by (simp add: ObserveRequest_def)

lemma failures_frame [simp, frame_simps]:
  "me_failures (ObserveRejection m r) = me_failures m"
  "me_failures (ObserveRequest m b st t) = me_failures m"
  "me_failures (ObservePlacement m p) = me_failures m"
  "me_failures (ObserveSticky m p) = me_failures m"
  "me_failures (ObserveRetry m) = me_failures m"
  "me_failures (ObserveReload m p) = me_failures m"
  by (simp_all add: ObserveRejection_def ObserveRequest_def ObservePlacement_def
      ObserveSticky_def ObserveRetry_def ObserveReload_def)

lemma failures_inc [simp]: "me_failures (ObserveBackendFailure m b r) = inc (me_failures m) (b, r)"
  by (simp add: ObserveBackendFailure_def)

lemma prepare_keeps_counts [simp]: "count_of (me_failures (PrepareBackendFailures m b rs)) k = count_of (me_failures m) k"
proof -
  have "foldl (\<lambda>c reason. with_label c (b, reason)) (me_failures m) rs = foldl with_label (me_failures m) (map (Pair b) rs)"
    by (simp add: foldl_map)
  then show ?thesis by (simp add: PrepareBackendFailures_def)
qed

lemma prepare_creates: "r \<in> set rs \<Longrightarrow> (b, r) \<in> dom (me_failures (PrepareBackendFailures m b rs))"
proof -
  have "foldl (\<lambda>c reason. with_label c (b, reason)) (me_failures m) rs = foldl with_label (me_failures m) (map (Pair b) rs)"
    by (simp add: foldl_map)
  then show "r \<in> set rs \<Longrightarrow> ?thesis" by (auto simp: PrepareBackendFailures_def dom_with_labels)
qed

lemma retries_frame [simp, frame_simps]:
  "me_retries (ObserveRejection m r) = me_retries m"
  "me_retries (ObserveRequest m b st t) = me_retries m"
  "me_retries (ObserveBackendFailure m b r) = me_retries m"
  "me_retries (PrepareBackendFailures m b rs) = me_retries m"
  "me_retries (ObservePlacement m p) = me_retries m"
  "me_retries (ObserveSticky m p) = me_retries m"
  "me_retries (ObserveReload m p) = me_retries m"
  "me_retries (ObserveRetry m) = me_retries m + 1"
  by (simp_all add: ObserveRejection_def ObserveRequest_def ObserveBackendFailure_def PrepareBackendFailures_def
      ObservePlacement_def ObserveSticky_def ObserveReload_def ObserveRetry_def)

end
