(* ===== verification/Sticky_Sessions.thy ===== *)
theory Sticky_Sessions
  imports Request_Checks Backends Metrics
begin

text \<open>
  \<open>internal/proxy/sticky.go\<close>: the cookie that keeps a client on its backend, and its removal from
  the request on the way to the backend. HMAC-SHA256 is the parameter \<open>mac\<close>, from which the code
  needs that it tells the addresses of the pool apart within its first sixteen bytes. Base64 is written
  out. The lemmas: the cookie a client is given reads back as the backend it was given for; a cookie that
  is no token of the pool is treated as absent; and the removal takes exactly the balancer's cookies off
  the request.
\<close>

subsection \<open>Unpadded base64url\<close>

definition b64_alphabet :: string where
  "b64_alphabet = ''ABCDEFGHIJKLMNOPQRSTUVWXYZabcdefghijklmnopqrstuvwxyz0123456789-_''"

definition b64_char :: "nat \<Rightarrow> char" where
  "b64_char n = b64_alphabet ! (n mod 64)"

fun RawURLEncode :: "string \<Rightarrow> string" where
  "RawURLEncode [] = []"
| "RawURLEncode [a] =
     (let x = of_char a * 16 :: nat in [b64_char (x div 64), b64_char x])"
| "RawURLEncode [a, b] =
     (let x = (of_char a * 256 + of_char b) * 4 :: nat
      in [b64_char (x div 4096), b64_char (x div 64), b64_char x])"
| "RawURLEncode (a # b # c # rest) =
     (let x = of_char a * 65536 + of_char b * 256 + of_char c :: nat
      in b64_char (x div 262144) # b64_char (x div 4096) # b64_char (x div 64) # b64_char x # RawURLEncode rest)"

subsection \<open>Pins\<close>

datatype cookieState = cookieAbsent | cookieKnown | cookieUnknown

record pins =
  pn_name :: string
  pn_maxAge :: int
  pn_secure :: bool
  pn_tokens :: "string \<rightharpoonup> string"
  pn_backends :: "string \<rightharpoonup> bref"

text \<open>The cookie of an answer; \<open>HttpOnly\<close> and \<open>SameSite=Lax\<close> are always set.\<close>

record set_cookie =
  ck_name :: string
  ck_value :: string
  ck_path :: string
  ck_maxAge :: int
  ck_secure :: bool

definition pinToken :: "(string \<Rightarrow> string \<Rightarrow> string) \<Rightarrow> string \<Rightarrow> string \<Rightarrow> string" where
  "pinToken mac secret addr = RawURLEncode (take 16 (mac secret addr))"

definition newPins ::
  "(string \<Rightarrow> string \<Rightarrow> string) \<Rightarrow> Sticky \<Rightarrow> string \<Rightarrow> heap \<Rightarrow> bref list \<Rightarrow> pins option" where
  "newPins mac sticky secret h bs =
     (if sk_mode sticky \<noteq> StickyCookie then None
      else Some (foldl (\<lambda>p b. let token = pinToken mac secret (addr_of h b)
                              in p\<lparr>pn_tokens := (pn_tokens p)(addr_of h b \<mapsto> token),
                                   pn_backends := (pn_backends p)(token \<mapsto> b)\<rparr>)
                  \<lparr>pn_name = sk_cookie sticky, pn_maxAge = int64_of_rat (seconds (sk_max_age sticky)),
                   pn_secure = sk_secure sticky, pn_tokens = Map.empty, pn_backends = Map.empty\<rparr> bs))"

definition read :: "pins option \<Rightarrow> request \<Rightarrow> bref option \<times> cookieState" where
  "read po r =
     (case po of
        None \<Rightarrow> (None, cookieAbsent)
      | Some p \<Rightarrow>
          (case request_cookie r (pn_name p) of
             None \<Rightarrow> (None, cookieAbsent)
           | Some value \<Rightarrow>
               (case pn_backends p value of
                  Some b \<Rightarrow> (Some b, cookieKnown)
                | None \<Rightarrow> (None, cookieUnknown))))"

definition renew :: "pins option \<Rightarrow> heap \<Rightarrow> bref option \<Rightarrow> bref \<Rightarrow> set_cookie option" where
  "renew po h pinned b =
     (case po of
        None \<Rightarrow> None
      | Some p \<Rightarrow>
          if Some b = pinned then None
          else Some \<lparr>ck_name = pn_name p,
                     ck_value = (case pn_tokens p (addr_of h b) of Some t \<Rightarrow> t | None \<Rightarrow> []),
                     ck_path = ''/'', ck_maxAge = pn_maxAge p, ck_secure = pn_secure p\<rparr>)"

definition cookieName :: "pins option \<Rightarrow> string" where
  "cookieName po = (case po of None \<Rightarrow> [] | Some p \<Rightarrow> pn_name p)"

fun stickyResult :: "cookieState \<Rightarrow> string" where
  "stickyResult cookieKnown = StickyRepinned"
| "stickyResult cookieUnknown = StickyUnknown"
| "stickyResult cookieAbsent = StickyNew"

subsection \<open>Removing the cookie\<close>

definition pair_name :: "string \<Rightarrow> string" where
  "pair_name pair = trim_space (fst (cut pair CHR ''=''))"

fun remove_loop :: "string \<Rightarrow> string list \<Rightarrow> string list \<times> bool" where
  "remove_loop name [] = ([], False)"
| "remove_loop name (part # parts) =
     (let pair = trim_space part
      in case remove_loop name parts of
        (kept, removed) \<Rightarrow>
          if pair_name pair = name then (kept, True)
          else (if pair \<noteq> [] then pair # kept else kept, removed))"

definition removeCookie :: "header \<Rightarrow> string \<Rightarrow> header" where
  "removeCookie hdr name =
     (case remove_loop name (concat (map (split_byte CHR '';'') (header_values hdr ''Cookie''))) of
        (kept, removed) \<Rightarrow>
          if \<not> removed then hdr
          else (let hdr1 = header_del hdr ''Cookie''
                in if kept \<noteq> [] then header_set hdr1 ''Cookie'' (join ''; '' kept) else hdr1))"

subsection \<open>The pins of a pool\<close>

definition pins_step :: "(string \<Rightarrow> string \<Rightarrow> string) \<Rightarrow> string \<Rightarrow> heap \<Rightarrow> pins \<Rightarrow> bref \<Rightarrow> pins" where
  "pins_step mac secret h p b =
     p\<lparr>pn_tokens := (pn_tokens p)(addr_of h b \<mapsto> pinToken mac secret (addr_of h b)),
       pn_backends := (pn_backends p)(pinToken mac secret (addr_of h b) \<mapsto> b)\<rparr>"

lemma newPins_Some:
  "newPins mac sticky secret h bs = Some p \<Longrightarrow>
     p = foldl (pins_step mac secret h)
           \<lparr>pn_name = sk_cookie sticky, pn_maxAge = int64_of_rat (seconds (sk_max_age sticky)),
            pn_secure = sk_secure sticky, pn_tokens = Map.empty, pn_backends = Map.empty\<rparr> bs"
  by (simp add: newPins_def Let_def pins_step_def [abs_def] split: if_splits)

lemma pins_fold_fields:
  "pn_name (foldl (pins_step mac secret h) p bs) = pn_name p"
  "pn_maxAge (foldl (pins_step mac secret h) p bs) = pn_maxAge p"
  "pn_secure (foldl (pins_step mac secret h) p bs) = pn_secure p"
  by (induction bs arbitrary: p) (simp_all add: pins_step_def)

lemma pins_fold_tokens:
  "pn_tokens (foldl (pins_step mac secret h) p bs) a =
     (if a \<in> addr_of h ` set bs then Some (pinToken mac secret a) else pn_tokens p a)"
  by (induction bs rule: rev_induct) (auto simp: pins_step_def)

lemma pins_fold_backends_None:
  "pn_backends (foldl (pins_step mac secret h) p bs) t = None \<longleftrightarrow>
     pn_backends p t = None \<and> t \<notin> pinToken mac secret ` addr_of h ` set bs"
  by (induction bs rule: rev_induct) (auto simp: pins_step_def)

lemma pins_fold_backends_Some:
  "pn_backends (foldl (pins_step mac secret h) p bs) t = Some b \<Longrightarrow> pn_backends p t = None \<Longrightarrow>
     b \<in> set bs \<and> t = pinToken mac secret (addr_of h b)"
  by (induction bs rule: rev_induct) (auto simp: pins_step_def split: if_splits)

text \<open>What the code needs of the MAC: it tells the pool's addresses apart in its first 16 bytes.\<close>

definition mac_ok :: "(string \<Rightarrow> string \<Rightarrow> string) \<Rightarrow> string \<Rightarrow> string set \<Rightarrow> bool" where
  "mac_ok mac secret addrs \<longleftrightarrow>
     (\<forall>a\<in>addrs. 16 \<le> length (mac secret a)) \<and> inj_on (\<lambda>a. take 16 (mac secret a)) addrs"

subsection \<open>Base64 loses nothing\<close>

lemma b64_char_inj:
  assumes "b64_char m = b64_char n"
  shows "m mod 64 = n mod 64"
proof -
  have "distinct b64_alphabet" "length b64_alphabet = 64" by (simp_all add: b64_alphabet_def)
  then show ?thesis using assms by (simp add: b64_char_def nth_eq_iff_index_eq)
qed

lemma of_char_lt [simp]: "of_char c < (256 :: nat)"
  by simp

lemma of_char_le: "of_char c \<le> (255 :: nat)"
  using of_char_lt [of c] by linarith

lemma digits_64: "(z :: nat) = (z div 4096) * 4096 + (z div 64 mod 64) * 64 + z mod 64"
proof -
  have "z div 64 = (z div 4096) * 64 + z div 64 mod 64"
    using div_mult_mod_eq [of "z div 64" 64] by (simp add: div_mult2_eq [symmetric])
  moreover have "z = z div 64 * 64 + z mod 64" by (rule div_mult_mod_eq [symmetric])
  ultimately show ?thesis by linarith
qed

lemma b64_two:
  fixes x y :: nat
  assumes "x < 262144" "y < 262144" "x div 4096 mod 64 = y div 4096 mod 64"
    "x div 64 mod 64 = y div 64 mod 64" "x mod 64 = y mod 64"
  shows "x = y"
proof -
  have "x div 4096 = y div 4096" using assms(1-3) by (simp add: less_mult_imp_div_less)
  then show ?thesis using digits_64 [of x] digits_64 [of y] assms(4,5) by simp
qed

lemma b64_three:
  fixes x y :: nat
  assumes "x < 16777216" "y < 16777216" "x div 262144 mod 64 = y div 262144 mod 64"
    "x div 4096 mod 64 = y div 4096 mod 64" "x div 64 mod 64 = y div 64 mod 64" "x mod 64 = y mod 64"
  shows "x = y"
proof -
  have hi: "z div 4096 = (z div 262144) * 64 + z div 4096 mod 64" for z :: nat
    using div_mult_mod_eq [of "z div 4096" 64] by (simp add: div_mult2_eq [symmetric])
  have "x div 262144 = y div 262144" using assms(1-3) by (simp add: less_mult_imp_div_less)
  then have "x div 4096 = y div 4096" using hi [of x] hi [of y] assms(4) by simp
  then show ?thesis using digits_64 [of x] digits_64 [of y] assms(5,6) by simp
qed

lemma low_byte: "(c :: nat) < 256 \<Longrightarrow> c' < 256 \<Longrightarrow> k * 256 + c = k' * 256 + c' \<Longrightarrow> k = k' \<and> c = c'"
proof -
  assume lt: "c < 256" "c' < 256" and eq: "k * 256 + c = k' * 256 + c'"
  have "(n * 256 + d) div 256 = n" "(n * 256 + d) mod 256 = d" if "d < 256" for n d :: nat
    using that by simp_all
  with lt eq show ?thesis by metis
qed

lemma bytes_of_word:
  fixes a b c a' b' c' :: nat
  assumes "b < 256" "c < 256" "b' < 256" "c' < 256"
    and "a * 65536 + b * 256 + c = a' * 65536 + b' * 256 + c'"
  shows "a = a' \<and> b = b' \<and> c = c'"
proof -
  have "(a * 256 + b) * 256 + c = (a' * 256 + b') * 256 + c'" using assms(5) by simp
  with assms(2,4) have "a * 256 + b = a' * 256 + b' \<and> c = c'" by (rule low_byte)
  with low_byte [OF assms(1,3)] show ?thesis by blast
qed

lemma word_bounds:
  "a \<le> (255 :: nat) \<Longrightarrow> b \<le> 255 \<Longrightarrow> (a * 256 + b) * 4 < 262144"
  "a \<le> (255 :: nat) \<Longrightarrow> b \<le> 255 \<Longrightarrow> c \<le> 255 \<Longrightarrow> a * 65536 + b * 256 + c < 16777216"
  by simp_all

lemma RawURLEncode_inj:
  "length s = length t \<Longrightarrow> RawURLEncode s = RawURLEncode t \<Longrightarrow> s = t"
proof (induction s arbitrary: t rule: RawURLEncode.induct)
  case 1
  then show ?case by simp
next
  case (2 a)
  then obtain a' where t: "t = [a']" by (cases t) auto
  have "b64_char (of_char a * 16 div 64) = b64_char (of_char a' * 16 div 64)"
    "b64_char (of_char a * 16) = b64_char (of_char a' * 16)"
    using 2(2) by (simp_all only: t RawURLEncode.simps Let_def list.inject)
  note eqs = this [THEN b64_char_inj]
  have lt: "of_char a * 16 < (4096 :: nat)" "of_char a' * 16 < (4096 :: nat)"
    using of_char_lt [of a] of_char_lt [of a'] by linarith+
  then have hi: "(of_char a * 16 :: nat) div 4096 mod 64 = of_char a' * 16 div 4096 mod 64" by (simp only: div_less)
  have "of_char a * 16 < (262144 :: nat)" "of_char a' * 16 < (262144 :: nat)" using lt by linarith+
  then have "(of_char a * 16 :: nat) = of_char a' * 16" using hi eqs by (rule b64_two)
  then show ?case using t by simp
next
  case (3 a b)
  then obtain a' b' where t: "t = [a', b']" by (cases t; cases "tl t") (auto simp: length_Suc_conv)
  let ?x = "(of_char a * 256 + of_char b) * 4 :: nat" and ?y = "(of_char a' * 256 + of_char b') * 4 :: nat"
  have "b64_char (?x div 4096) = b64_char (?y div 4096)" "b64_char (?x div 64) = b64_char (?y div 64)"
    "b64_char ?x = b64_char ?y"
    using 3(2) by (simp_all only: t RawURLEncode.simps Let_def list.inject)
  note eqs = this [THEN b64_char_inj]
  have "?x < 262144" "?y < 262144"
    by (rule word_bounds(1) [OF of_char_le of_char_le])+
  then have "?x = ?y" using eqs by (rule b64_two)
  then have "of_char a * 256 + of_char b = (of_char a' * 256 + of_char b' :: nat)" by simp
  then have "(of_char a :: nat) = of_char a' \<and> (of_char b :: nat) = of_char b'"
    by (rule low_byte [OF of_char_lt of_char_lt])
  then show ?case using t by simp
next
  case (4 a b c rest)
  obtain a' b' c' rest' where t: "t = a' # b' # c' # rest'" and l: "length rest = length rest'"
    using 4(2) by (cases t; cases "tl t"; cases "tl (tl t)") auto
  let ?x = "of_char a * 65536 + of_char b * 256 + of_char c :: nat"
  let ?y = "of_char a' * 65536 + of_char b' * 256 + of_char c' :: nat"
  have chars: "b64_char (?x div 262144) = b64_char (?y div 262144)" "b64_char (?x div 4096) = b64_char (?y div 4096)"
    "b64_char (?x div 64) = b64_char (?y div 64)" "b64_char ?x = b64_char ?y"
    and tail: "RawURLEncode rest = RawURLEncode rest'"
    using 4(3) by (simp_all only: t RawURLEncode.simps Let_def list.inject)
  note eqs = chars [THEN b64_char_inj]
  have "?x < 16777216" "?y < 16777216"
    by (rule word_bounds(2) [OF of_char_le of_char_le of_char_le])+
  then have "?x = ?y" using eqs by (rule b64_three)
  then have "(of_char a :: nat) = of_char a' \<and> (of_char b :: nat) = of_char b' \<and> (of_char c :: nat) = of_char c'"
    by (intro bytes_of_word) simp_all
  moreover have "rest = rest'" using 4(1) l tail by blast
  ultimately show ?case using t by simp
qed

subsection \<open>Cookies that read back\<close>

lemma token_byte_plain:
  assumes "token_byte c"
  shows "c \<noteq> CHR '';''" "c \<noteq> CHR ''=''" "\<not> is_http_space c" "c \<noteq> CHR 0x22" "cookie_value_byte c"
proof -
  have "\<not> token_byte CHR '';''" "\<not> token_byte CHR ''=''" "\<not> token_byte CHR 0x22" "\<not> token_byte CHR '' ''"
    "\<not> token_byte CHR 0x09" "\<not> token_byte CHR 0x0A" "\<not> token_byte CHR 0x0D"
    by (simp_all add: token_byte_def)
  with assms show "c \<noteq> CHR '';''" "c \<noteq> CHR ''=''" "\<not> is_http_space c" "c \<noteq> CHR 0x22"
    by (auto simp: is_http_space_def)
  show "cookie_value_byte c"
    using assms by (auto simp: token_byte_def cookie_value_byte_def Let_def)
qed

lemma b64_char_token: "token_byte (b64_char n)"
proof -
  have "list_all token_byte b64_alphabet" by (simp add: b64_alphabet_def token_byte_def)
  moreover have "n mod 64 < length b64_alphabet" by (simp add: b64_alphabet_def)
  ultimately show ?thesis unfolding b64_char_def list_all_length by blast
qed

lemma RawURLEncode_token: "list_all token_byte (RawURLEncode s)"
  by (induction s rule: RawURLEncode.induct) (auto simp: Let_def b64_char_token)

lemma RawURLEncode_Nil [simp]: "RawURLEncode s = [] \<longleftrightarrow> s = []"
  by (cases s rule: RawURLEncode.cases) (auto simp: Let_def)

lemma trim_string_token:
  assumes "s \<noteq> []" "\<not> is_http_space (hd s)" "\<not> is_http_space (last s)"
  shows "trim_string s = s"
proof -
  have keep: "dropWhile is_http_space t = t" if "t \<noteq> []" "\<not> is_http_space (hd t)" for t
    using that by (cases t) simp_all
  have "dropWhile is_http_space (rev s) = rev s" using assms by (intro keep) (simp_all add: hd_rev)
  then show ?thesis using keep [OF assms(1,2)] by (simp add: trim_string_def)
qed

lemma cut_at: "c \<notin> set s \<Longrightarrow> cut (s @ c # t) c = (s, t, True)"
  by (simp add: cut_def takeWhile_append dropWhile_append takeWhile_eq_all_conv dropWhile_eq_Nil_conv)

lemma read_pair_own:
  assumes "is_cookie_name name" "list_all token_byte v" "v \<noteq> []"
  shows "read_pair name (name @ CHR ''='' # v) = Some v"
proof -
  have name: "name \<noteq> []" "\<forall>c\<in>set name. token_byte c" using assms(1) by (auto simp: is_cookie_name_def list_all_iff)
  have v: "\<forall>c\<in>set v. token_byte c" using assms(2) by (simp add: list_all_iff)
  have ends: "token_byte (hd name)" "token_byte (last name)" "token_byte (hd v)" "token_byte (last v)"
    using name v assms(3) by (auto intro: hd_in_set last_in_set)
  have whole: "trim_string (name @ CHR ''='' # v) = name @ CHR ''='' # v"
    using name(1) assms(3) ends token_byte_plain(3) by (intro trim_string_token) auto
  have trimmed: "trim_string name = name"
    using name(1) ends token_byte_plain(3) by (intro trim_string_token) auto
  have "CHR ''='' \<notin> set name" using name(2) token_byte_plain(2) by blast
  then have cut: "cut (name @ CHR ''='' # v) CHR ''='' = (name, v, True)" by (rule cut_at)
  have "v ! 0 \<noteq> CHR 0x22" using ends(3) assms(3) token_byte_plain(4) by (simp add: hd_conv_nth [symmetric])
  then have "unquote v = v" by (simp add: unquote_def)
  moreover have "list_all cookie_value_byte v" using v token_byte_plain(5) by (simp add: list_all_iff)
  ultimately have "parse_cookie_value v = Some v" by (simp add: parse_cookie_value_def)
  then show ?thesis using whole trimmed cut assms(1) name(1) by (simp add: read_pair_def)
qed

lemma cookie_parts_one:
  assumes "header_values hdr ''Cookie'' = [line]" "CHR '';'' \<notin> set line" "trim_string line = line"
  shows "cookie_parts hdr = [line]"
  using assms by (simp add: cookie_parts_def split_byte_clean)

lemma pinToken_inj:
  assumes "mac_ok mac secret addrs" "a \<in> addrs" "b \<in> addrs" "pinToken mac secret a = pinToken mac secret b"
  shows "a = b"
proof -
  have "length (take 16 (mac secret a)) = length (take 16 (mac secret b))"
    using assms(1-3) by (simp add: mac_ok_def)
  then have "take 16 (mac secret a) = take 16 (mac secret b)"
    using assms(4) unfolding pinToken_def by (rule RawURLEncode_inj)
  then show ?thesis using assms(1-3) by (auto simp: mac_ok_def dest: inj_onD)
qed

subsection \<open>Removing the balancer's cookie\<close>

lemma trim_left_space [simp]: "trim_left (CHR '' '' # s) = trim_left s"
proof -
  have "leading_space (CHR '' '' # s) = Some [CHR '' '']" by (simp add: leading_space_def go_spaces_def)
  then show ?thesis by (subst trim_left.simps) simp
qed

lemma trim_space_space [simp]: "trim_space (CHR '' '' # s) = trim_space s"
  by (simp add: trim_space_def)

text \<open>The cookies on the lines of a header, trimmed, without the empty ones.\<close>

definition pieces :: "string list \<Rightarrow> string list" where
  "pieces lines = filter (\<lambda>p. p \<noteq> []) (map trim_space (concat (map (split_byte CHR '';'') lines)))"

lemma remove_loop_spec:
  assumes "name \<noteq> []"
  shows "remove_loop name parts =
     (filter (\<lambda>p. pair_name p \<noteq> name) (filter (\<lambda>p. p \<noteq> []) (map trim_space parts)),
      \<exists>p\<in>set (map trim_space parts). pair_name p = name)"
proof (induction parts)
  case (Cons part parts)
  have "pair_name [] \<noteq> name"
    using assms by (simp add: pair_name_def cut_def trim_space_def trim_left.simps trim_right.simps
        leading_space_def trailing_space_def go_spaces_def)
  with Cons show ?case by (auto simp: Let_def)
qed simp

lemma split_pairs_join:
  assumes "\<forall>s\<in>set ss. CHR '';'' \<notin> set s" "ss \<noteq> []"
  shows "split_byte CHR '';'' (join ''; '' ss) = hd ss # map (\<lambda>s. CHR '' '' # s) (tl ss)"
  using assms
proof (induction ss)
  case (Cons s ss)
  show ?case
  proof (cases ss)
    case Nil
    then show ?thesis using Cons.prems by (simp add: split_byte_clean)
  next
    case (Cons t ts)
    have semi: "CHR '';'' \<notin> set s" using Cons.prems by simp
    have "split_byte CHR '';'' (CHR '' '' # join ''; '' ss) = (CHR '' '' # t) # map (\<lambda>s. CHR '' '' # s) ts"
      using Cons.IH Cons.prems Cons by simp
    then show ?thesis using Cons split_byte_append [OF semi, of "CHR '' '' # join ''; '' ss"] by simp
  qed
qed simp

lemma pieces_join:
  assumes "\<forall>s\<in>set ss. CHR '';'' \<notin> set s \<and> trim_space s = s \<and> s \<noteq> []" "ss \<noteq> []"
  shows "pieces [join ''; '' ss] = ss"
proof -
  obtain s ts where ss: "ss = s # ts" using assms(2) by (cases ss) auto
  have "map trim_space ts = ts" using assms(1) ss by (simp add: map_idI)
  moreover have "filter (\<lambda>p. p \<noteq> []) ts = ts" using assms(1) ss by (simp add: filter_id_conv)
  ultimately show ?thesis
    using assms split_pairs_join [of ss] ss by (simp add: pieces_def o_def)
qed

lemma pieces_plain:
  assumes "p \<in> set (pieces lines)"
  shows "CHR '';'' \<notin> set p \<and> trim_space p = p \<and> p \<noteq> []"
proof -
  obtain line part where p: "part \<in> set (split_byte CHR '';'' line)" "p = trim_space part" "p \<noteq> []"
    using assms by (auto simp: pieces_def)
  then have "CHR '';'' \<notin> set part" by (blast dest: split_byte_no_sep)
  then show ?thesis using p set_trim_space [of part] by auto
qed

lemma removeCookie_spec:
  assumes "name \<noteq> []"
  shows "pieces (header_values (removeCookie hdr name) ''Cookie'') =
           filter (\<lambda>p. pair_name p \<noteq> name) (pieces (header_values hdr ''Cookie''))
     \<and> ((\<forall>p\<in>set (pieces (header_values hdr ''Cookie'')). pair_name p \<noteq> name) \<longrightarrow> removeCookie hdr name = hdr)"
proof -
  let ?parts = "concat (map (split_byte CHR '';'') (header_values hdr ''Cookie''))"
  let ?pieces = "pieces (header_values hdr ''Cookie'')"
  let ?kept = "filter (\<lambda>p. pair_name p \<noteq> name) ?pieces"
  have empty: "pair_name [] \<noteq> name"
    using assms by (simp add: pair_name_def cut_def trim_space_def trim_left.simps trim_right.simps
        leading_space_def trailing_space_def go_spaces_def)
  have removed: "(\<exists>p\<in>set (map trim_space ?parts). pair_name p = name) \<longleftrightarrow> (\<exists>p\<in>set ?pieces. pair_name p = name)"
    unfolding pieces_def set_filter using empty by blast
  have loop: "remove_loop name ?parts = (?kept, \<exists>p\<in>set ?pieces. pair_name p = name)"
    using remove_loop_spec [OF assms, of ?parts] unfolding removed by (simp add: pieces_def)
  show ?thesis
  proof (cases "\<exists>p\<in>set ?pieces. pair_name p = name")
    case False
    then have "removeCookie hdr name = hdr" "?kept = ?pieces"
      using loop by (auto simp: removeCookie_def filter_id_conv)
    then show ?thesis by simp
  next
    case True
    have "pieces (header_values (removeCookie hdr name) ''Cookie'') = ?kept"
    proof (cases "?kept = []")
      case Nil: True
      then have "removeCookie hdr name = header_del hdr ''Cookie''"
        using loop True unfolding removeCookie_def by (simp only: prod.case) simp
      then show ?thesis using Nil by (simp add: header_values_del pieces_def)
    next
      case Cons: False
      then have "removeCookie hdr name = header_set (header_del hdr ''Cookie'') ''Cookie'' (join ''; '' ?kept)"
        using loop True unfolding removeCookie_def by (simp only: prod.case Let_def) simp
      moreover have "pieces [join ''; '' ?kept] = ?kept"
        using Cons pieces_plain by (intro pieces_join) auto
      ultimately show ?thesis by (simp add: header_values_set)
    qed
    with True show ?thesis by blast
  qed
qed

lemma pieces_removeCookie:
  "name \<noteq> [] \<Longrightarrow> pieces (header_values (removeCookie hdr name) ''Cookie'') =
     filter (\<lambda>p. pair_name p \<noteq> name) (pieces (header_values hdr ''Cookie''))"
  using removeCookie_spec by blast

subsection \<open>Properties\<close>

text \<open>A request that carries the token of a backend of the pool under the cookie's name is pinned to it.\<close>

lemma read_own_token:
  assumes "newPins mac sticky secret h bs = Some p" "isToken (sk_cookie sticky)"
    and "mac_ok mac secret (addr_of h ` set bs)" "distinct (map (addr_of h) bs)" "b \<in> set bs"
    and line: "header_values (rq_header r) ''Cookie'' = [sk_cookie sticky @ CHR ''='' # pinToken mac secret (addr_of h b)]"
  shows "read (Some p) r = (Some b, cookieKnown)"
proof -
  let ?name = "sk_cookie sticky" and ?token = "pinToken mac secret (addr_of h b)"
  note p = newPins_Some [OF assms(1)]
  have in_pool: "addr_of h b \<in> addr_of h ` set bs" using assms(5) by blast
  have name: "is_cookie_name ?name"
    using assms(2) by (auto simp: is_cookie_name_def isToken_def list_all_iff is_token_char_def token_byte_def
        token_specials_def Let_def)
  have "16 \<le> length (mac secret (addr_of h b))" using assms(3) in_pool unfolding mac_ok_def by blast
  then have "mac secret (addr_of h b) \<noteq> []" by auto
  then have token: "?token \<noteq> []" "list_all token_byte ?token"
    by (simp_all add: pinToken_def RawURLEncode_token)
  let ?line = "?name @ CHR ''='' # ?token"
  have chars: "\<forall>c\<in>set ?name. token_byte c" "\<forall>c\<in>set ?token. token_byte c" "?name \<noteq> []"
    using name token by (auto simp: is_cookie_name_def list_all_iff)
  then have "CHR '';'' \<notin> set ?line" using token_byte_plain(1) by auto
  moreover have "trim_string ?line = ?line"
    using chars token(1) token_byte_plain(3) [of "hd ?name"] token_byte_plain(3) [of "last ?token"]
    by (intro trim_string_token) auto
  ultimately have "cookie_parts (rq_header r) = [?line]"
    using line by (intro cookie_parts_one)
  then have "request_cookie r ?name = Some ?token"
    using read_pair_own [OF name token(2,1)] chars(3) by (simp add: request_cookie_def)
  moreover have "pn_backends p ?token = Some b"
  proof -
    have "pn_backends p ?token \<noteq> None" unfolding p pins_fold_backends_None using in_pool by blast
    then obtain b' where b': "pn_backends p ?token = Some b'" by blast
    then have "b' \<in> set bs" "?token = pinToken mac secret (addr_of h b')"
      using pins_fold_backends_Some [of mac secret h _ bs ?token b'] unfolding p by auto
    then have "addr_of h b = addr_of h b'" by (intro pinToken_inj [OF assms(3) in_pool]) simp_all
    then have "b' = b" using assms(4,5) \<open>b' \<in> set bs\<close> by (auto simp: distinct_map dest: inj_onD)
    with b' show ?thesis by simp
  qed
  moreover have "pn_name p = ?name" unfolding p pins_fold_fields by simp
  ultimately show ?thesis by (simp add: read_def)
qed

lemma renew_token:
  assumes "newPins mac sticky secret h bs = Some p" "b \<in> set bs" "renew (Some p) h pinned b = Some ck"
  shows "ck_name ck = sk_cookie sticky" "ck_value ck = pinToken mac secret (addr_of h b)"
proof -
  note p = newPins_Some [OF assms(1)]
  have "addr_of h b \<in> addr_of h ` set bs" using assms(2) by blast
  then show "ck_name ck = sk_cookie sticky" "ck_value ck = pinToken mac secret (addr_of h b)"
    using assms(3) by (auto simp: renew_def p pins_fold_fields pins_fold_tokens split: if_splits)
qed

subsection \<open>Properties\<close>

definition ex_mac :: "string \<Rightarrow> string \<Rightarrow> string" where
  "ex_mac secret addr = addr @ replicate 16 CHR ''x''"

definition ex_sticky :: Sticky where
  "ex_sticky = \<lparr>sk_mode = StickyCookie, sk_cookie = DefaultStickyCookie, sk_max_age = 0, sk_secure = False\<rparr>"

definition ex_pair :: heap where
  "ex_pair = [\<lparr>b_addr = ''a:1'', b_weight = 1, b_active = 0, b_hash = 0\<rparr>,
              \<lparr>b_addr = ''b:2'', b_weight = 1, b_active = 0, b_hash = 0\<rparr>]"

definition ex_request :: "string list \<Rightarrow> request" where
  "ex_request cookies = \<lparr>rq_method = ''GET'', rq_header = [''Cookie'' \<mapsto> cookies], rq_remote_addr = ''c:9'', rq_host = ''h'', rq_tls = False,
     rq_content_length = 0, rq_body = None, rq_id = None\<rparr>"

lemma canonical_cookie [simp]: "canonical_key ''Cookie'' = ''Cookie''"
  by (simp add: canonical_key_def token_byte_def upper_def lower_def)

lemma ex_sticky_pool:
  "isToken (sk_cookie ex_sticky)" "mac_ok ex_mac ''k'' (addr_of ex_pair ` set [0, 1])"
  "distinct (map (addr_of ex_pair) [0, 1])"
  by (auto simp: ex_sticky_def DefaultStickyCookie_def isToken_def is_token_char_def token_specials_def
      mac_ok_def ex_mac_def ex_pair_def inj_on_def)

definition ex_pinned_request :: request where
  "ex_pinned_request = ex_request [sk_cookie ex_sticky @ CHR ''='' # pinToken ex_mac ''k'' (addr_of ex_pair 1)]"

lemma ex_pinned_cookie:
  "header_values (rq_header ex_pinned_request) ''Cookie'' =
     [sk_cookie ex_sticky @ CHR ''='' # pinToken ex_mac ''k'' (addr_of ex_pair 1)]"
  by (simp add: ex_pinned_request_def ex_request_def header_values_def)

text \<open>
  C23: The cookie a client is given for a backend, sent back with its next request, reads as that backend:
  pinning survives the round trip through the client, when the MAC tells the pool's addresses apart.
\<close>

lemma sticky_round_trip:
  assumes "newPins mac sticky secret h bs = Some p" "isToken (sk_cookie sticky)"
    and "mac_ok mac secret (addr_of h ` set bs)" "distinct (map (addr_of h) bs)" "b \<in> set bs"
    and "renew (Some p) h pinned b = Some ck"
    and "header_values (rq_header r) ''Cookie'' = [ck_name ck @ CHR ''='' # ck_value ck]"
  shows "read (Some p) r = (Some b, cookieKnown)"
  using assms(7) unfolding renew_token [OF assms(1,5,6)] by (rule read_own_token [OF assms(1-5)])

lemma sticky_round_trip_witness:
  "read (newPins ex_mac ex_sticky ''k'' ex_pair [0, 1]) ex_pinned_request = (Some 1, cookieKnown)"
proof -
  obtain p where p: "newPins ex_mac ex_sticky ''k'' ex_pair [0, 1] = Some p"
    by (auto simp: newPins_def ex_sticky_def)
  obtain ck where ck: "renew (Some p) ex_pair None 1 = Some ck" by (auto simp: renew_def)
  have member: "1 \<in> set [0, 1 :: bref]" by simp
  have "read (Some p) ex_pinned_request = (Some 1, cookieKnown)"
    by (rule sticky_round_trip [OF p ex_sticky_pool member ck])
      (simp only: renew_token [OF p member ck] ex_pinned_cookie)
  then show ?thesis unfolding p .
qed

text \<open>
  C24: A cookie pins a request only when its value is, byte for byte, the token that the secret gives for a
  backend of the pool: no other cookie, forged, foreign or stale, decides where a request goes.
\<close>

lemma only_tokens_pin:
  assumes "read (newPins mac sticky secret h bs) r = (Some b, state)"
  shows "b \<in> set bs \<and> state = cookieKnown
     \<and> request_cookie r (sk_cookie sticky) = Some (pinToken mac secret (addr_of h b))"
proof (cases "newPins mac sticky secret h bs")
  case None
  with assms show ?thesis by (simp add: read_def)
next
  case (Some p)
  note p = newPins_Some [OF Some]
  have name: "pn_name p = sk_cookie sticky" unfolding p pins_fold_fields by simp
  obtain v where v: "request_cookie r (sk_cookie sticky) = Some v" "pn_backends p v = Some b" "state = cookieKnown"
    using assms Some name by (auto simp: read_def split: option.splits)
  then show ?thesis using pins_fold_backends_Some [of mac secret h _ bs v b] unfolding p by auto
qed

lemma only_tokens_pin_witness:
  "1 \<in> set [0, 1 :: bref] \<and> cookieKnown = cookieKnown
     \<and> request_cookie ex_pinned_request (sk_cookie ex_sticky) = Some (pinToken ex_mac ''k'' (addr_of ex_pair 1))"
proof (rule only_tokens_pin)
  obtain p where p: "newPins ex_mac ex_sticky ''k'' ex_pair [0, 1] = Some p"
    by (auto simp: newPins_def ex_sticky_def)
  have member: "1 \<in> set [0, 1 :: bref]" by simp
  show "read (newPins ex_mac ex_sticky ''k'' ex_pair [0, 1]) ex_pinned_request = (Some 1, cookieKnown)"
    unfolding p by (rule read_own_token [OF p ex_sticky_pool member ex_pinned_cookie])
qed

text \<open>
  C25: What reaches the backend: every cookie called \<open>name\<close> is gone, and every other one is there,
  unchanged and in its place; a request without such a cookie keeps its headers to the byte.
\<close>

lemma removeCookie_exact:
  assumes "name \<noteq> []"
  shows "pieces (header_values (removeCookie hdr name) ''Cookie'') =
           filter (\<lambda>p. pair_name p \<noteq> name) (pieces (header_values hdr ''Cookie''))
     \<and> ((\<forall>p\<in>set (pieces (header_values hdr ''Cookie'')). pair_name p \<noteq> name) \<longrightarrow> removeCookie hdr name = hdr)"
  by (rule removeCookie_spec [OF assms])

lemma removeCookie_exact_witness:
  "pieces (header_values (removeCookie [''Cookie'' \<mapsto> [''x=1; lb=2;y=3'']] ''lb'') ''Cookie'') =
     filter (\<lambda>p. pair_name p \<noteq> ''lb'') (pieces (header_values [''Cookie'' \<mapsto> [''x=1; lb=2;y=3'']] ''Cookie''))"
  using removeCookie_exact [of "''lb''" "[''Cookie'' \<mapsto> [''x=1; lb=2;y=3'']]"] by blast

end
