(* ===== verification/Go_Format.thy ===== *)
theory Go_Format
  imports Float64
begin

text \<open>
  How Go writes and reads numbers and durations: \<open>strconv.Itoa\<close> and \<open>Atoi\<close>, \<open>time.Duration\<close>'s
  \<open>String\<close>, \<open>Round\<close> and \<open>time.ParseDuration\<close>, and on top of them \<open>internal/config/duration.go\<close>,
  the durations of a configuration file. The lemmas: every number reads back as itself, and every
  64-bit duration is written in a form that is read back as the same duration, although the reader
  computes fractions in \<open>float64\<close>.
\<close>

subsection \<open>Decimal digits\<close>

definition is_digit :: "char \<Rightarrow> bool" where
  "is_digit c = (let n = of_char c :: nat in 48 \<le> n \<and> n \<le> 57)"

definition digit :: "nat \<Rightarrow> char" where
  "digit n = char_of (48 + n)"

definition digit_value :: "char \<Rightarrow> nat" where
  "digit_value c = of_char c - 48"

lemma is_digit_digit [simp]: "n < 10 \<Longrightarrow> is_digit (digit n)"
  by (simp add: is_digit_def digit_def)

lemma digit_value_digit [simp]: "n < 10 \<Longrightarrow> digit_value (digit n) = n"
  by (simp add: digit_value_def digit_def)

text \<open>\<open>strconv.Itoa\<close>.\<close>

fun decimal :: "nat \<Rightarrow> string" where
  "decimal n = (if n < 10 then [digit n] else decimal (n div 10) @ [digit (n mod 10)])"

declare decimal.simps [simp del]

definition Itoa :: "int \<Rightarrow> string" where
  "Itoa x = (if x < 0 then CHR ''-'' # decimal (nat (- x)) else decimal (nat x))"

definition digits_value :: "string \<Rightarrow> nat" where
  "digits_value s = foldl (\<lambda>x c. x * 10 + digit_value c) 0 s"

lemma digits_value_snoc: "digits_value (s @ [c]) = digits_value s * 10 + digit_value c"
  by (simp add: digits_value_def)

lemma decimal_digits: "list_all is_digit (decimal n)"
  by (induction n rule: decimal.induct) (subst decimal.simps, simp)

lemma decimal_nonempty [simp]: "decimal n \<noteq> []"
  by (subst decimal.simps) simp

lemma digits_value_decimal [simp]: "digits_value (decimal n) = n"
proof (induction n rule: decimal.induct)
  case (1 n)
  then show ?case by (subst decimal.simps) (simp add: digits_value_snoc, simp add: digits_value_def)
qed

text \<open>
  \<open>strconv.Atoi\<close>: an optional sign and decimal digits, and an error for anything else or for a number
  beyond 64 bits.
\<close>

definition Atoi :: "string \<Rightarrow> int option" where
  "Atoi s =
     (let signed = s \<noteq> [] \<and> (hd s = CHR ''-'' \<or> hd s = CHR ''+'');
          ds = (if signed then tl s else s);
          x = (if signed \<and> hd s = CHR ''-'' then - int (digits_value ds) else int (digits_value ds))
      in if ds = [] \<or> \<not> list_all is_digit ds \<or> x < - (2 ^ 63) \<or> 2 ^ 63 \<le> x then None else Some x)"

lemma not_digit_sign [simp]: "\<not> is_digit CHR ''-''" "\<not> is_digit CHR ''+''" "\<not> is_digit CHR ''.''"
  by (simp_all add: is_digit_def)

lemma hd_decimal_digit: "is_digit (hd (decimal n))"
  using decimal_digits [of n] by (cases "decimal n") simp_all

lemma Atoi_decimal: "int n < 2 ^ 63 \<Longrightarrow> Atoi (decimal n) = Some (int n)"
proof -
  assume n: "int n < 2 ^ 63"
  have "hd (decimal n) \<noteq> CHR ''-''" "hd (decimal n) \<noteq> CHR ''+''"
    using hd_decimal_digit [of n] not_digit_sign by metis+
  then show ?thesis using n decimal_digits [of n] by (simp add: Atoi_def Let_def)
qed

lemma Atoi_Itoa: "- (2 ^ 63) \<le> x \<Longrightarrow> x < 2 ^ 63 \<Longrightarrow> Atoi (Itoa x) = Some x"
  using decimal_digits [of "nat (- x)"]
  by (cases "x < 0") (simp_all add: Itoa_def Atoi_decimal, simp add: Atoi_def Let_def)

subsection \<open>Writing a duration\<close>

definition microsecond :: nat where "microsecond = 1000"
definition millisecond :: nat where "millisecond = 1000000"
definition second :: nat where "second = 1000000000"

text \<open>\<open>fmtFrac\<close>: the last \<open>prec\<close> digits of \<open>v\<close> without the trailing zeros, and what is left of it.\<close>

fun frac_digits :: "nat \<Rightarrow> nat \<Rightarrow> bool \<Rightarrow> string \<times> bool \<times> nat" where
  "frac_digits 0 v printing = ([], printing, v)"
| "frac_digits (Suc i) v printing =
     (let p = printing \<or> v mod 10 \<noteq> 0
      in case frac_digits i (v div 10) p of
           (s, p', v') \<Rightarrow> (if p then s @ [digit (v mod 10)] else s, p', v'))"

definition fmtFrac :: "nat \<Rightarrow> nat \<Rightarrow> string \<times> nat" where
  "fmtFrac v prec = (case frac_digits prec v False of (s, p, v') \<Rightarrow> (if p then CHR ''.'' # s else s, v'))"

definition micro :: string where "micro = [CHR 0xC2, CHR 0xB5]"

definition body_of :: "nat \<Rightarrow> string" where
  "body_of u =
     (if u < second then
        (if u = 0 then ''0s''
         else
           (let (prec, unit) = (if u < microsecond then (0, ''ns'')
                                else if u < millisecond then (3, micro @ ''s'')
                                else (6, ''ms''));
                (fr, v) = fmtFrac u prec
            in decimal v @ fr @ unit))
      else
        (let (fr, secs) = fmtFrac u 9;
             s = decimal (secs mod 60) @ fr @ ''s'';
             mins = secs div 60
         in if mins = 0 then s
            else (let m = decimal (mins mod 60) @ ''m'' @ s; hours = mins div 60
                  in if hours = 0 then m else decimal hours @ ''h'' @ m)))"

definition Duration_String :: "duration \<Rightarrow> string" where
  "Duration_String d =
     (let u = nat \<bar>d\<bar> in if d < 0 then CHR ''-'' # body_of u else body_of u)"

text \<open>\<open>Duration.Round\<close>: to the nearest multiple, halves away from zero, saturating.\<close>

definition Duration_Round :: "duration \<Rightarrow> duration \<Rightarrow> duration" where
  "Duration_Round d m =
     (if m \<le> 0 then d
      else
        (let r = go_mod d m
         in if d < 0 then
              (if - r + - r < m then d - r
               else if min_duration \<le> d - (m + r) then d - (m + r) else min_duration)
            else
              (if r + r < m then d - r
               else if d + (m - r) \<le> max_duration then d + (m - r) else max_duration)))"

subsection \<open>Reading a duration\<close>

definition unitMap :: "(string \<times> nat) list" where
  "unitMap =
     [(''ns'', 1), (''us'', microsecond), (micro @ ''s'', microsecond), ([CHR 0xCE, CHR 0xBC] @ ''s'', microsecond),
      (''ms'', millisecond), (''s'', second), (''m'', 60 * second), (''h'', 3600 * second)]"

fun leadingInt :: "nat \<Rightarrow> string \<Rightarrow> (nat \<times> string) option" where
  "leadingInt x [] = Some (x, [])"
| "leadingInt x (c # s) =
     (if \<not> is_digit c then Some (x, c # s)
      else if x > 2 ^ 63 div 10 then None
      else (let y = x * 10 + digit_value c in if y > 2 ^ 63 then None else leadingInt y s))"

fun leadingFraction :: "nat \<Rightarrow> rat \<Rightarrow> bool \<Rightarrow> string \<Rightarrow> nat \<times> rat \<times> string" where
  "leadingFraction x scale overflow [] = (x, scale, [])"
| "leadingFraction x scale overflow (c # s) =
     (if \<not> is_digit c then (x, scale, c # s)
      else if overflow \<or> x > (2 ^ 63 - 1) div 10 then leadingFraction x scale True s
      else (let y = x * 10 + digit_value c
            in if y > 2 ^ 63 then leadingFraction x scale True s
               else leadingFraction y (f64 (scale * 10)) False s))"

definition unit_end :: "char \<Rightarrow> bool" where
  "unit_end c = (c = CHR ''.'' \<or> is_digit c)"

text \<open>One turn of the loop: a number, its fraction and its unit, added to \<open>d\<close>.\<close>

definition duration_item :: "nat \<Rightarrow> string \<Rightarrow> (nat \<times> string) option" where
  "duration_item d s =
     (if \<not> unit_end (hd s) then None
      else case leadingInt 0 s of
        None \<Rightarrow> None
      | Some (v, s1) \<Rightarrow>
          (let pre = length s \<noteq> length s1;
               (f, scale, post, s2) =
                 (if s1 \<noteq> [] \<and> hd s1 = CHR ''.''
                  then (case leadingFraction 0 1 False (tl s1) of
                          (f, scale, s2) \<Rightarrow> (f, scale, length (tl s1) \<noteq> length s2, s2))
                  else (0, 1, False, s1));
               u = takeWhile (\<lambda>c. \<not> unit_end c) s2; s3 = dropWhile (\<lambda>c. \<not> unit_end c) s2
           in if \<not> pre \<and> \<not> post then None
              else if u = [] then None
              else case map_of unitMap u of
                None \<Rightarrow> None
              | Some unit \<Rightarrow>
                  if v > 2 ^ 63 div unit then None
                  else
                    (let v1 = v * unit;
                         v2 = (if f > 0
                               then v1 + nat (trunc (f64 (f64 (of_nat f) * f64 (of_nat unit / scale))))
                               else v1);
                         d1 = (d + v2) mod 2 ^ 64
                     in if f > 0 \<and> v2 > 2 ^ 63 then None else if d1 > 2 ^ 63 then None else Some (d1, s3))))"

lemma length_leadingInt: "leadingInt x s = Some (v, r) \<Longrightarrow> length r \<le> length s"
  by (induction x s rule: leadingInt.induct) (auto simp: Let_def split: if_splits)

lemma length_leadingFraction: "leadingFraction x sc ov s = (f, sc', r) \<Longrightarrow> length r \<le> length s"
  by (induction x sc ov s rule: leadingFraction.induct) (auto simp: Let_def split: if_splits)

lemma length_dropWhile_less: "takeWhile P s \<noteq> [] \<Longrightarrow> length (dropWhile P s) < length s"
  using takeWhile_dropWhile_id [of P s] by (metis length_append length_greater_0_conv less_add_same_cancel2)

lemma duration_item_shorter:
  assumes "duration_item d s = Some (d', r)"
  shows "length r < length s"
proof -
  obtain v s1 where i: "leadingInt 0 s = Some (v, s1)"
    using assms by (auto simp: duration_item_def split: if_splits option.splits)
  define s2 where "s2 = (if s1 \<noteq> [] \<and> hd s1 = CHR ''.''
     then snd (snd (leadingFraction 0 1 False (tl s1))) else s1)"
  have "length s2 \<le> length s1"
    by (cases "leadingFraction 0 1 False (tl s1)") (auto simp: s2_def dest!: length_leadingFraction)
  moreover have "r = dropWhile (\<lambda>c. \<not> unit_end c) s2 \<and> takeWhile (\<lambda>c. \<not> unit_end c) s2 \<noteq> []"
    using assms i by (auto simp: duration_item_def s2_def Let_def split: if_splits option.splits prod.splits)
  ultimately show ?thesis
    using length_leadingInt [OF i] length_dropWhile_less [of "\<lambda>c. \<not> unit_end c" s2] by auto
qed

function duration_loop :: "nat \<Rightarrow> string \<Rightarrow> nat option" where
  "duration_loop d s =
     (if s = [] then Some d
      else case duration_item d s of None \<Rightarrow> None | Some (d', r) \<Rightarrow> duration_loop d' r)"
  by pat_completeness auto
termination
  by (relation "measure (length \<circ> snd)") (use duration_item_shorter in auto)

declare duration_loop.simps [simp del]

definition ParseDuration :: "string \<Rightarrow> duration option" where
  "ParseDuration s =
     (let neg = (s \<noteq> [] \<and> hd s = CHR ''-'');
          s1 = (if s \<noteq> [] \<and> (hd s = CHR ''-'' \<or> hd s = CHR ''+'') then tl s else s)
      in if s1 = ''0'' then Some 0
         else if s1 = [] then None
         else case duration_loop 0 s1 of
           None \<Rightarrow> None
         | Some d \<Rightarrow>
             if neg then Some (- int d)
             else if d > 2 ^ 63 - 1 then None else Some (int d))"

subsection \<open>Reading back what was written\<close>

lemma digits_value_Cons: "digits_value (c # s) = digit_value c * 10 ^ length s + digits_value s"
proof (induction s rule: rev_induct)
  case (snoc d s)
  have "digits_value (c # s @ [d]) = digits_value (c # s) * 10 + digit_value d"
    using digits_value_snoc [of "c # s" d] by simp
  then show ?case using snoc by (simp add: digits_value_snoc algebra_simps)
qed (simp add: digits_value_def)

lemma digits_value_Nil [simp]: "digits_value [] = 0"
  by (simp add: digits_value_def)

lemma digit_value_less: "is_digit c \<Longrightarrow> digit_value c < 10"
  by (auto simp: is_digit_def digit_value_def Let_def)

lemma leadingInt_digits:
  assumes "list_all is_digit ds" "r = [] \<or> \<not> is_digit (hd r)"
    and "x * 10 ^ length ds + digits_value ds \<le> 2 ^ 63"
  shows "leadingInt x (ds @ r) = Some (x * 10 ^ length ds + digits_value ds, r)"
  using assms
proof (induction ds arbitrary: x)
  case Nil
  then show ?case by (cases r) simp_all
next
  case (Cons c ds)
  let ?y = "x * 10 + digit_value c"
  have eq: "?y * 10 ^ length ds + digits_value ds = x * 10 ^ length (c # ds) + digits_value (c # ds)"
    by (simp add: digits_value_Cons algebra_simps)
  have "?y \<le> ?y * 10 ^ length ds" by simp
  then have y: "?y \<le> 2 ^ 63" using Cons.prems(3) eq by linarith
  then have "x \<le> 2 ^ 63 div 10" by simp
  moreover have "leadingInt ?y (ds @ r) = Some (?y * 10 ^ length ds + digits_value ds, r)"
    using Cons.prems eq by (intro Cons.IH) simp_all
  ultimately show ?case using Cons.prems(1) y eq by (simp add: Let_def)
qed

lemma f64_power_10: "k \<le> 9 \<Longrightarrow> f64 (10 ^ k) = 10 ^ k"
proof -
  assume "k \<le> 9"
  then have "(10::int) ^ k \<le> 10 ^ 9" by (intro power_increasing) simp_all
  then have "f64 (of_int (10 ^ k)) = of_int (10 ^ k)" by (intro f64_of_int) simp
  then show ?thesis by simp
qed

lemma leadingFraction_digits:
  assumes "list_all is_digit ds" "r = [] \<or> \<not> is_digit (hd r)"
    and "x < 10 ^ k" "k + length ds \<le> 9"
  shows "leadingFraction x (10 ^ k) False (ds @ r) =
           (x * 10 ^ length ds + digits_value ds, 10 ^ (k + length ds), r)"
  using assms
proof (induction ds arbitrary: x k)
  case Nil
  then show ?case by (cases r) simp_all
next
  case (Cons c ds)
  let ?y = "x * 10 + digit_value c"
  have y: "?y < 10 ^ Suc k" using Cons.prems(1,3) digit_value_less [of c] by simp
  also have "(10::nat) ^ Suc k \<le> 10 ^ 9" using Cons.prems(4) by (intro power_increasing) simp_all
  finally have y9: "?y < 10 ^ 9" .
  have "leadingFraction ?y (10 ^ Suc k) False (ds @ r) =
          (?y * 10 ^ length ds + digits_value ds, 10 ^ (Suc k + length ds), r)"
    using Cons.prems y by (intro Cons.IH) simp_all
  moreover have "f64 (10 ^ k * 10) = 10 ^ Suc k"
    using f64_power_10 [of "Suc k"] Cons.prems(4) by (simp add: mult.commute)
  moreover have "?y * 10 ^ length ds + digits_value ds = x * 10 ^ length (c # ds) + digits_value (c # ds)"
    by (simp add: digits_value_Cons algebra_simps)
  ultimately show ?case using Cons.prems(1) y9 by (simp add: Let_def)
qed

text \<open>\<open>frac_of prec s F\<close>: the text \<open>s\<close>, empty or a point and digits, is the fraction \<open>F / 10 ^ prec\<close>.\<close>

definition frac_of :: "nat \<Rightarrow> string \<Rightarrow> nat \<Rightarrow> bool" where
  "frac_of prec s n \<longleftrightarrow>
     s = [] \<and> n = 0
     \<or> (\<exists>ds. s = CHR ''.'' # ds \<and> list_all is_digit ds \<and> ds \<noteq> [] \<and> length ds \<le> prec
          \<and> digits_value ds * 10 ^ (prec - length ds) = n)"

lemma mod_power_Suc: "v mod 10 ^ Suc i = 10 * (v div 10 mod 10 ^ i) + v mod (10::nat)"
  by (simp add: mod_mult2_eq)

lemma frac_digits_spec:
  "frac_digits i v p = (s, p', v') \<Longrightarrow>
     v' = v div 10 ^ i \<and> list_all is_digit s \<and> length s \<le> i \<and> (p \<longrightarrow> length s = i)
     \<and> (p' \<longleftrightarrow> p \<or> s \<noteq> []) \<and> digits_value s * 10 ^ (i - length s) = v mod 10 ^ i"
proof (induction i v p arbitrary: s p' v' rule: frac_digits.induct)
  case (2 i v p)
  define q where "q = (p \<or> v mod 10 \<noteq> 0)"
  obtain t p1 v1 where r: "frac_digits i (v div 10) q = (t, p1, v1)" by (cases "frac_digits i (v div 10) q") auto
  have eqs: "s = (if q then t @ [digit (v mod 10)] else t)" "p' = p1" "v' = v1"
    using 2(2) r by (simp_all add: q_def Let_def split: if_splits)
  have IH: "v1 = v div 10 div 10 ^ i" "list_all is_digit t" "length t \<le> i" "q \<Longrightarrow> length t = i"
    "p1 \<longleftrightarrow> q \<or> t \<noteq> []" "digits_value t * 10 ^ (i - length t) = v div 10 mod 10 ^ i"
    using 2(1) [OF q_def r] by simp_all
  show ?case
  proof (cases q)
    case True
    then show ?thesis using IH eqs
      by (simp add: digits_value_snoc mod_power_Suc div_mult2_eq mult.commute del: power_Suc,
        metis div_mult2_eq power_Suc)
  next
    case False
    then have "v mod 10 = 0" "\<not> p" by (simp_all add: q_def)
    moreover have "digits_value t * 10 ^ (Suc i - length t) = 10 * (v div 10 mod 10 ^ i)"
      using IH(3,6) by (simp add: Suc_diff_le)
    ultimately show ?thesis using False IH eqs
      by (simp add: mod_power_Suc del: power_Suc) (simp add: div_mult2_eq)
  qed
qed simp

lemma fmtFrac_spec:
  assumes "fmtFrac v prec = (s, v')"
  shows "v' = v div 10 ^ prec \<and> frac_of prec s (v mod 10 ^ prec)"
proof -
  obtain t p w where r: "frac_digits prec v False = (t, p, w)" by (cases "frac_digits prec v False") auto
  show ?thesis
    using assms frac_digits_spec [OF r] r by (auto simp: fmtFrac_def frac_of_def split: if_splits)
qed

lemma fraction_exact:
  assumes "list_all is_digit ds" "length ds \<le> prec" "prec \<le> 9"
    and "digits_value ds * 10 ^ (prec - length ds) < 10 ^ 9"
  shows "nat (trunc (f64 (f64 (of_nat (digits_value ds)) * f64 (of_nat (10 ^ prec) / 10 ^ length ds))))
         = digits_value ds * 10 ^ (prec - length ds)"
proof -
  let ?f = "digits_value ds" and ?k = "prec - length ds"
  have int: "f64 (of_nat n) = of_nat n" if "n < 10 ^ 9" for n
    using f64_of_int [of "int n"] that by simp
  have "?f * 1 \<le> ?f * 10 ^ ?k" by (intro mult_le_mono) simp_all
  then have f: "?f < 10 ^ 9" using assms(4) by linarith
  have "(of_nat (10 ^ prec) :: rat) / 10 ^ length ds = 10 ^ ?k"
    using assms(2) by (simp add: power_diff)
  moreover have "f64 (10 ^ ?k) = (10 ^ ?k :: rat)" using assms(3) by (intro f64_power_10) simp
  moreover have "f64 (of_nat ?f * 10 ^ ?k) = of_nat (?f * 10 ^ ?k)"
    using int [OF assms(4)] by simp
  moreover have "trunc (of_nat ?f * 10 ^ ?k) = int (?f * 10 ^ ?k)"
    using trunc_of_int [of "int (?f * 10 ^ ?k)"] by simp
  ultimately show ?thesis using int [OF f] by (simp add: nat_mult_distrib nat_power_eq)
qed

text \<open>One number of the text, with its fraction and its unit.\<close>

lemma duration_item_reads:
  assumes s: "frac_of prec s n" "prec \<le> 9" "n < 10 ^ 9"
    and u: "map_of unitMap u = Some unit" "s \<noteq> [] \<Longrightarrow> unit = 10 ^ prec" "u \<noteq> []" "list_all (\<lambda>c. \<not> unit_end c) u"
    and r: "r = [] \<or> unit_end (hd r)"
    and bound: "d + (v * unit + n) \<le> 2 ^ 63" "0 < unit"
  shows "duration_item d (decimal v @ s @ u @ r) = Some (d + (v * unit + n), r)"
proof -
  have v: "v * 1 \<le> v * unit" using bound(2) by (intro mult_le_mono) simp_all
  have hd_u: "\<not> is_digit (hd (u @ r))" "hd (u @ r) \<noteq> CHR ''.''"
    using u(3,4) by (cases u; simp add: unit_end_def)+
  have hd_s: "\<not> is_digit (hd (s @ u @ r))" using s(1) hd_u by (auto simp: frac_of_def)
  have le63: "v \<le> 2 ^ 63" using v bound(1) by linarith
  have int: "leadingInt 0 (decimal v @ s @ u @ r) = Some (v, s @ u @ r)"
    using leadingInt_digits [of "decimal v" "s @ u @ r" 0] decimal_digits [of v] hd_s le63 by simp
  have first: "unit_end (hd (decimal v @ s @ u @ r))"
    using hd_decimal_digit [of v] by (simp add: unit_end_def hd_append)
  have all: "\<forall>c\<in>set u. \<not> unit_end c" using u(4) by (simp add: list_all_iff)
  have parts: "takeWhile (\<lambda>c. \<not> unit_end c) (u @ r) = u" "dropWhile (\<lambda>c. \<not> unit_end c) (u @ r) = r"
    using all r by (cases r; simp add: takeWhile_append dropWhile_append)+
  have le: "v \<le> 2 ^ 63 div unit" using bound by (simp add: less_eq_div_iff_mult_less_eq)
  have wrap: "(d + (v * unit + n)) mod 2 ^ 64 = d + (v * unit + n)" using bound by simp
  from s(1) consider "s = []" "n = 0"
    | ds where "s = CHR ''.'' # ds" "list_all is_digit ds" "ds \<noteq> []" "length ds \<le> prec"
        "digits_value ds * 10 ^ (prec - length ds) = n"
    by (auto simp: frac_of_def)
  then show ?thesis
  proof cases
    case 1
    then show ?thesis
      using int first parts u(1) le wrap hd_u u(3) bound by (simp add: duration_item_def Let_def)
  next
    case (2 ds)
    have "unit = 10 ^ prec" using u(2) 2(1) by simp
    moreover have "leadingFraction 0 1 False (ds @ u @ r) = (digits_value ds, 10 ^ length ds, u @ r)"
      using leadingFraction_digits [of ds "u @ r" 0 0] 2 hd_u s(2) by simp
    moreover have "nat (trunc (f64 (f64 (of_nat (digits_value ds)) * f64 (of_nat (10 ^ prec) / 10 ^ length ds)))) = n"
      using fraction_exact [of ds prec] 2 s by simp
    moreover have "n = 0" if "digits_value ds = 0" using that 2(5) by simp
    ultimately show ?thesis
      using 2(1) int first parts u(1,3) le wrap bound by (simp add: duration_item_def Let_def)
  qed
qed

lemmas unit_facts = unitMap_def micro_def unit_end_def is_digit_def microsecond_def millisecond_def second_def

lemma units:
  "map_of unitMap ''ns'' = Some (10 ^ 0)" "map_of unitMap (micro @ ''s'') = Some (10 ^ 3)"
  "map_of unitMap ''ms'' = Some (10 ^ 6)" "map_of unitMap ''s'' = Some (10 ^ 9)"
  "map_of unitMap ''m'' = Some (60 * second)" "map_of unitMap ''h'' = Some (3600 * second)"
  by (simp_all add: unit_facts)

lemma units_clean:
  "list_all (\<lambda>c. \<not> unit_end c) ''ns''" "list_all (\<lambda>c. \<not> unit_end c) (micro @ ''s'')"
  "list_all (\<lambda>c. \<not> unit_end c) ''ms''" "list_all (\<lambda>c. \<not> unit_end c) ''s''"
  "list_all (\<lambda>c. \<not> unit_end c) ''m''" "list_all (\<lambda>c. \<not> unit_end c) ''h''"
  by (simp_all add: unit_facts)

lemma duration_loop_step:
  "duration_item d s = Some (d', r) \<Longrightarrow> duration_loop d s = duration_loop d' r"
  using duration_item_shorter [of d s d' r] by (subst duration_loop.simps) auto

lemma duration_loop_Nil [simp]: "duration_loop d [] = Some d"
  by (subst duration_loop.simps) simp

lemma duration_loop_last:
  assumes "frac_of prec s n" "prec \<le> 9" "n < 10 ^ 9" "map_of unitMap u = Some (10 ^ prec)"
    and "u \<noteq> []" "list_all (\<lambda>c. \<not> unit_end c) u" "d + (v * 10 ^ prec + n) \<le> 2 ^ 63"
  shows "duration_loop d (decimal v @ s @ u) = Some (d + (v * 10 ^ prec + n))"
  using duration_item_reads [of prec s n u "10 ^ prec" "[]" d v] assms
  by (simp add: duration_loop_step)

lemma duration_loop_whole:
  assumes "map_of unitMap u = Some unit" "u \<noteq> []" "list_all (\<lambda>c. \<not> unit_end c) u" "0 < unit"
    and "unit_end (hd r)" "d + v * unit \<le> 2 ^ 63"
  shows "duration_loop d (decimal v @ u @ r) = duration_loop (d + v * unit) r"
  using duration_item_reads [of 0 "[]" 0 u unit r d v] assms
  by (simp add: duration_loop_step frac_of_def)

lemma unit_end_decimal: "unit_end (hd (decimal n @ r))"
  using hd_decimal_digit [of n] by (simp add: unit_end_def hd_append)

lemma seconds_read:
  assumes "fmtFrac u 9 = (fr, secs)" "d + (w + u mod 10 ^ 9) \<le> 2 ^ 63" "w = secs mod 60 * 10 ^ 9"
  shows "duration_loop d (decimal (secs mod 60) @ fr @ ''s'') = Some (d + (w + u mod 10 ^ 9))"
  using duration_loop_last [of 9 fr "u mod 10 ^ 9" "''s''" d "secs mod 60"]
    fmtFrac_spec [OF assms(1)] units(4) units_clean(4) assms(2,3) by simp

lemma small_read:
  assumes "fmtFrac u prec = (fr, v)" "prec \<le> 9" "u < 10 ^ 9"
    and "map_of unitMap un = Some (10 ^ prec)" "un \<noteq> []" "list_all (\<lambda>c. \<not> unit_end c) un"
  shows "duration_loop 0 (decimal v @ fr @ un) = Some u"
proof -
  have f: "v = u div 10 ^ prec" "frac_of prec fr (u mod 10 ^ prec)" using fmtFrac_spec [OF assms(1)] by simp_all
  have "u mod 10 ^ prec \<le> u" by simp
  then have "u mod 10 ^ prec < 10 ^ 9" using assms(3) by linarith
  moreover have "v * 10 ^ prec + u mod 10 ^ prec = u" unfolding f(1) by (rule div_mult_mod_eq)
  ultimately show ?thesis
    using duration_loop_last [of prec fr "u mod 10 ^ prec" un 0 v] f assms by simp
qed

lemma duration_loop_body:
  assumes "u \<le> 2 ^ 63"
  shows "duration_loop 0 (body_of u) = Some u"
proof (cases "u < second")
  case True
  show ?thesis
  proof (cases "u = 0")
    case True
    have "duration_loop 0 (decimal 0 @ [] @ ''s'') = Some 0"
      using duration_loop_last [of 9 "[]" 0 "''s''" 0 0] units(4) units_clean(4) by (simp add: frac_of_def)
    moreover have "decimal 0 = ''0''" by code_simp
    ultimately show ?thesis using True by (simp add: body_of_def second_def)
  next
    case False
    define prec where "prec = (if u < microsecond then 0 else if u < millisecond then 3 else 6 :: nat)"
    define un where "un = (if u < microsecond then ''ns'' else if u < millisecond then micro @ ''s'' else ''ms'')"
    obtain fr v where f: "fmtFrac u prec = (fr, v)" by fastforce
    have "body_of u = decimal v @ fr @ un"
      using False \<open>u < second\<close> f by (simp add: body_of_def prec_def un_def split: if_splits)
    moreover have "map_of unitMap un = Some (10 ^ prec)" "un \<noteq> []" "list_all (\<lambda>c. \<not> unit_end c) un" "prec \<le> 9"
      using units units_clean by (simp_all add: un_def prec_def)
    ultimately show ?thesis using small_read [OF f] \<open>u < second\<close> by (simp add: second_def)
  qed
next
  case False
  obtain fr secs where f: "fmtFrac u 9 = (fr, secs)" by fastforce
  have secs: "secs = u div 10 ^ 9" using fmtFrac_spec [OF f] by simp
  define s where "s = decimal (secs mod 60) @ fr @ ''s''"
  define mins where "mins = secs div 60"
  define hours where "hours = mins div 60"
  have split: "hours * (3600 * second) + (mins mod 60) * (60 * second) + (secs mod 60 * 10 ^ 9 + u mod 10 ^ 9) = u"
  proof -
    have "hours * 60 + mins mod 60 = mins" "mins * 60 + secs mod 60 = secs" "secs * 10 ^ 9 + u mod 10 ^ 9 = u"
      by (simp_all add: hours_def mins_def secs)
    then have "u = ((hours * 60 + mins mod 60) * 60 + secs mod 60) * 10 ^ 9 + u mod 10 ^ 9" by simp
    then show ?thesis by (simp add: second_def algebra_simps)
  qed
  have last: "duration_loop d s = Some (d + (secs mod 60 * 10 ^ 9 + u mod 10 ^ 9))"
    if "d + (secs mod 60 * 10 ^ 9 + u mod 10 ^ 9) \<le> 2 ^ 63" for d
    using seconds_read [OF f that refl] by (simp add: s_def)
  have mins_read: "duration_loop d (decimal (mins mod 60) @ ''m'' @ s) =
      duration_loop (d + mins mod 60 * (60 * second)) s" if "d + mins mod 60 * (60 * second) \<le> 2 ^ 63" for d
    using duration_loop_whole [of "''m''" "60 * second" s d "mins mod 60"] units(5) units_clean(5) that
      unit_end_decimal [of "secs mod 60" "fr @ ''s''"] by (simp add: s_def second_def)
  have hours_read: "duration_loop 0 (decimal hours @ ''h'' @ decimal (mins mod 60) @ ''m'' @ s) =
      duration_loop (hours * (3600 * second)) (decimal (mins mod 60) @ ''m'' @ s)"
    using duration_loop_whole [of "''h''" "3600 * second" "decimal (mins mod 60) @ ''m'' @ s" 0 hours]
      units(6) units_clean(6) unit_end_decimal [of "mins mod 60" "''m'' @ s"] split assms
    by (simp add: second_def)
  have body: "body_of u = (if mins = 0 then s else if hours = 0 then decimal (mins mod 60) @ ''m'' @ s
      else decimal hours @ ''h'' @ decimal (mins mod 60) @ ''m'' @ s)"
    using False f by (simp add: body_of_def Let_def s_def mins_def hours_def)
  have whole: "duration_loop (hours * (3600 * second)) (decimal (mins mod 60) @ ''m'' @ s) = Some u"
    using mins_read [of "hours * (3600 * second)"]
      last [of "hours * (3600 * second) + mins mod 60 * (60 * second)"] split assms by simp
  consider "mins = 0" | "mins \<noteq> 0" "hours = 0" | "hours \<noteq> 0" by blast
  then show ?thesis
  proof cases
    case 1
    then show ?thesis using last [of 0] split assms by (simp add: body hours_def)
  next
    case 2
    then show ?thesis using whole by (simp add: body)
  next
    case 3
    then show ?thesis using whole hours_read by (auto simp: body hours_def)
  qed
qed

text \<open>What reads as a duration starts neither with a sign nor is it a bare zero.\<close>

lemma reads_as_items:
  assumes "duration_loop d s = Some u" "s \<noteq> []"
  shows "unit_end (hd s)" "s \<noteq> ''0''"
proof -
  show "unit_end (hd s)"
    using assms by (subst (asm) duration_loop.simps) (auto simp: duration_item_def split: if_splits)
  have "duration_item d ''0'' = None"
    by (simp add: duration_item_def unit_end_def is_digit_def digit_value_def)
  then have "duration_loop d ''0'' = None" by (subst duration_loop.simps) simp
  then show "s \<noteq> ''0''" using assms(1) by auto
qed

lemma body_of_nonempty: "u \<le> 2 ^ 63 \<Longrightarrow> body_of u \<noteq> []"
  using duration_loop_body [of u] by (cases "u = 0") (auto simp: body_of_def second_def)

lemma Duration_String_reads_back:
  assumes "min_duration \<le> d" "d \<le> max_duration"
  shows "ParseDuration (Duration_String d) = Some d"
proof -
  define u where "u = nat \<bar>d\<bar>"
  have u: "u \<le> 2 ^ 63" "d < 0 \<or> u \<le> 2 ^ 63 - 1"
    using assms by (auto simp: u_def min_duration_def max_duration_def)
  have loop: "duration_loop 0 (body_of u) = Some u" using u(1) by (rule duration_loop_body)
  have d: "d = (if d < 0 then - int u else int u)" by (simp add: u_def)
  have nonempty: "body_of u \<noteq> []" using u(1) by (rule body_of_nonempty)
  note items = reads_as_items [OF loop nonempty]
  have plain: "hd (body_of u) \<noteq> CHR ''-''" "hd (body_of u) \<noteq> CHR ''+''"
    using items(1) by (auto simp: unit_end_def)
  then show ?thesis
    using loop nonempty items(2) plain u(2) d
    by (auto simp: Duration_String_def ParseDuration_def Let_def u_def [symmetric])
qed

subsection \<open>The durations of a configuration file\<close>

text \<open>
  \<open>UnmarshalYAML\<close>: the node decodes to a string or it does not.
\<close>

datatype duration_error = NotAString | InvalidDuration string

definition UnmarshalYAML :: "string option \<Rightarrow> duration_error + duration" where
  "UnmarshalYAML node =
     (case node of
        None \<Rightarrow> Inl NotAString
      | Some t \<Rightarrow> (case ParseDuration t of None \<Rightarrow> Inl (InvalidDuration t) | Some d \<Rightarrow> Inr d))"

definition MarshalYAML :: "duration \<Rightarrow> string" where
  "MarshalYAML d = Duration_String d"

text \<open>
  C22: Every duration a configuration can hold, negative ones and the two ends of the range included, is
  written in a form that is read back as exactly the same number of nanoseconds, although fractions are
  read in floating point.
\<close>

lemma duration_round_trip:
  assumes "min_duration \<le> d" "d \<le> max_duration"
  shows "UnmarshalYAML (Some (MarshalYAML d)) = Inr d"
  by (simp add: UnmarshalYAML_def MarshalYAML_def Duration_String_reads_back [OF assms])

lemma duration_round_trip_witness:
  "UnmarshalYAML (Some (MarshalYAML (- (2 ^ 63)))) = Inr (- (2 ^ 63))"
  using duration_round_trip [of "- (2 ^ 63)"] by (simp add: min_duration_def max_duration_def)

end
