(* ===== verification/Proxy.thy ===== *)
theory Proxy
  imports Strategies Health Breaker Retry_Budget Rate_Limit Sticky_Sessions Metrics Go_Format
begin

text \<open>
  \<open>internal/proxy/proxy.go\<close> and \<open>hashing.go\<close>: the proxy core. \<open>world\<close> is everything the
  requests in flight share: the heap of backends, the strategies, every \<open>settings\<close> ever stored (a
  request keeps the one it loaded), which of them is current, the health checker, the limiter and the metrics; the
  clock and the tape of random numbers are part of it. A request runs in pieces between which others
  run: \<open>admit\<close> up to the snapshot of the settings, \<open>begin_request\<close> up to its first forwarding,
  \<open>resume\<close> from the end of one forwarding to the next or to the answer. What happens on the wire
  (\<open>trip\<close>) is the argument of \<open>resume\<close>. A panic, which unwinds the deferred calls and which the HTTP
  server turns into a closed connection, is the answer \<open>Aborted\<close>.
\<close>

subsection \<open>The state\<close>

type_synonym sref = nat

record settings =
  se_strategy :: nat
  se_backends :: "bref list"
  se_breaker :: breaker
  se_budget :: retryBudget
  se_attempts :: int
  se_retryOn5xx :: bool
  se_maxBody :: int
  se_hashKey :: "request \<Rightarrow> string"
  se_pins :: "pins option"

record world =
  w_heap :: heap
  w_strategies :: "strategy list"
  w_settings :: "settings list"
  w_current :: sref
  w_checker :: HTTPChecker
  w_limiter :: rateLimiter
  w_metrics :: metrics
  w_secret :: string
  w_tape :: tape
  w_now :: time

definition observe :: "(metrics \<Rightarrow> metrics) \<Rightarrow> world \<Rightarrow> world" where
  "observe f w = w\<lparr>w_metrics := f (w_metrics w)\<rparr>"

definition on_settings :: "sref \<Rightarrow> (settings \<Rightarrow> settings) \<Rightarrow> world \<Rightarrow> world" where
  "on_settings i f w = w\<lparr>w_settings := (w_settings w)[i := f (w_settings w ! i)]\<rparr>"

definition on_budget :: "sref \<Rightarrow> (retryBudget \<Rightarrow> retryBudget) \<Rightarrow> world \<Rightarrow> world" where
  "on_budget i f = on_settings i (\<lambda>s. s\<lparr>se_budget := f (se_budget s)\<rparr>)"

definition attemptsFor :: "Config \<Rightarrow> int" where
  "attemptsFor cfg =
     (if c_failure_policy cfg = RetryNextBackend then wrap64 (1 + rt_max_retries (c_retry cfg)) else 1)"

definition settingsFor ::
  "(string \<Rightarrow> string \<Rightarrow> string) \<Rightarrow> Config \<Rightarrow> nat \<Rightarrow> heap \<Rightarrow> bref list \<Rightarrow> string \<Rightarrow> settings" where
  "settingsFor mac cfg strategy h bs secret =
     \<lparr>se_strategy = strategy,
      se_backends = bs,
      se_breaker = newBreaker (c_failure_policy cfg) (c_circuit_breaker cfg),
      se_budget = newRetryBudget (c_retry cfg),
      se_attempts = attemptsFor cfg,
      se_retryOn5xx = c_retry_on_5xx cfg,
      se_maxBody = li_max_request_body_bytes (c_limits cfg),
      se_hashKey = keyFor (c_consistent_hash cfg),
      se_pins = newPins mac (c_sticky cfg) secret h bs\<rparr>"

definition prepareMetrics :: "heap \<Rightarrow> bref list \<Rightarrow> metrics \<Rightarrow> metrics" where
  "prepareMetrics h bs m = foldl (\<lambda>m b. PrepareBackendFailures m (addr_of h b) reasons) m bs"

subsection \<open>The candidates of an attempt\<close>

fun available_loop ::
  "HTTPChecker \<Rightarrow> time \<Rightarrow> heap \<Rightarrow> string list \<Rightarrow> breaker \<Rightarrow> bref list \<Rightarrow> bref list \<times> bref list \<times> breaker" where
  "available_loop hc now h tried br [] = ([], [], br)"
| "available_loop hc now h tried br (b # bs) =
     (if addr_of h b \<in> set tried then available_loop hc now h tried br bs
      else
        (let (ok, br1) = (if IsHealthy hc (addr_of h b) then Breaker.allow now br (addr_of h b) else (False, br));
             (fit, untried, br2) = available_loop hc now h tried br1 bs
         in (if ok then b # fit else fit, b # untried, br2)))"

definition available :: "world \<Rightarrow> sref \<Rightarrow> string list \<Rightarrow> bref list \<times> world" where
  "available w i tried =
     (let active = w_settings w ! i;
          (fit, untried, br) =
            available_loop (w_checker w) (w_now w) (w_heap w) tried (se_breaker active) (se_backends active);
          w1 = on_settings i (\<lambda>s. s\<lparr>se_breaker := br\<rparr>) w
      in if fit = [] \<and> untried \<noteq> []
         then (untried, observe (\<lambda>m. ObserveRejection m ''no_healthy_backend'') w1)
         else (fit, w1))"

subsection \<open>Choosing one\<close>

definition placement :: "bref option \<Rightarrow> bref option \<Rightarrow> bref list \<Rightarrow> string" where
  "placement home chosen candidates =
     (if chosen = home then PlacementHome
      else if (case home of None \<Rightarrow> False | Some p \<Rightarrow> p \<in> set candidates) then PlacementOverloaded
      else PlacementUnavailable)"

definition choose_backend ::
  "(rat \<Rightarrow> rat) \<Rightarrow> world \<Rightarrow> sref \<Rightarrow> string \<Rightarrow> bref list \<Rightarrow> bool \<Rightarrow> choice \<times> world" where
  "choose_backend lg w i key candidates first =
     (let active = w_settings w ! i; k = se_strategy active; s = w_strategies w ! k
      in case keyed s of
           None \<Rightarrow>
             (case (if first then Select else SelectRetry) s (w_tape w) (w_heap w) candidates of
                (c, s', t') \<Rightarrow> (c, w\<lparr>w_strategies := (w_strategies w)[k := s'], w_tape := t'\<rparr>))
         | Some factor \<Rightarrow>
             if key = [] then
               (case Select s (w_tape w) (w_heap w) candidates of
                  (c, s', t') \<Rightarrow>
                    (c, (if first then observe (\<lambda>m. ObservePlacement m PlacementKeyless) else (\<lambda>w. w))
                          (w\<lparr>w_strategies := (w_strategies w)[k := s'], w_tape := t'\<rparr>)))
             else
               (case SelectFor lg factor (w_heap w) key candidates of
                  (Inl e, h1) \<Rightarrow> (Inl e, w\<lparr>w_heap := h1\<rparr>)
                | (Inr b, h1) \<Rightarrow>
                    if first then
                      (case Home lg h1 key (se_backends active) of
                         (home, h2) \<Rightarrow>
                           (Inr b, observe (\<lambda>m. ObservePlacement m (placement home b candidates)) (w\<lparr>w_heap := h2\<rparr>)))
                    else (Inr b, w\<lparr>w_heap := h1\<rparr>)))"

definition place ::
  "(rat \<Rightarrow> rat) \<Rightarrow> world \<Rightarrow> sref \<Rightarrow> string \<Rightarrow> bref option \<Rightarrow> cookieState \<Rightarrow> bref list \<Rightarrow> bool \<Rightarrow> choice \<times> world" where
  "place lg w i key pinned state candidates first =
     (if (case pinned of None \<Rightarrow> False | Some p \<Rightarrow> p \<in> set candidates)
      then (Inr pinned, if first then observe (\<lambda>m. ObserveSticky m StickyPinned) w else w)
      else choose_backend lg
             (if first \<and> se_pins (w_settings w ! i) \<noteq> None
              then observe (\<lambda>m. ObserveSticky m (stickyResult state)) w else w)
             i key candidates first)"

subsection \<open>The body\<close>

datatype body_error = BodyTooLarge | BodyUnreadable

text \<open>
  What the server reads of a body: with a declared length no more than that, and an error if the
  connection broke off, which it did if less arrived. Without one, \<open>rq_content_length\<close> is negative.
\<close>

definition body_read :: "request \<Rightarrow> body_source \<Rightarrow> string" where
  "body_read r src =
     (if rq_content_length r < 0 then bs_bytes src else take (nat (rq_content_length r)) (bs_bytes src))"

definition body_breaks :: "request \<Rightarrow> body_source \<Rightarrow> bool" where
  "body_breaks r src =
     (if rq_content_length r < 0 then bs_broken src
      else int (length (bs_bytes src)) < rq_content_length r)"

text \<open>
  \<open>io.ReadAll(io.LimitReader(body, maxBody+1))\<close>: a limit that has wrapped to a negative number reads
  nothing, and a reader that reaches its limit does not see the body's error.
\<close>

definition replayableBody :: "request \<Rightarrow> settings \<Rightarrow> body_error + string option" where
  "replayableBody r active =
     (case rq_body r of
        None \<Rightarrow> Inr None
      | Some src \<Rightarrow>
          if rq_content_length r > se_maxBody active then Inl BodyTooLarge
          else if se_attempts active = 1 then Inr None
          else
            (let most = nat (wrap64 (se_maxBody active + 1)); body = take most (body_read r src)
             in if body_breaks r src \<and> length (body_read r src) < most then Inl BodyUnreadable
                else if int (length body) > se_maxBody active then Inl BodyTooLarge
                else Inr (Some body)))"

subsection \<open>Answers\<close>

text \<open>
  What the client gets: the backend's answer with its status and the pin it carries, an error page of the
  balancer's with its status and headers, a connection closed part way, or nothing, for a client that left.
\<close>

datatype answer =
    Passed int "set_cookie option"
  | Refused int "(string \<times> string) list"
  | Aborted
  | Unanswered

definition unavailable :: answer where
  "unavailable = Refused 503 [(''Retry-After'', ''5'')]"

subsection \<open>Forwarding\<close>

record attempt =
  at_err :: "err option"
  at_status :: int
  at_aborted :: "err option"
  at_pin :: "set_cookie option"
  at_stickyCookie :: string

definition WriteHeader :: "attempt \<Rightarrow> int \<Rightarrow> attempt" where
  "WriteHeader a status = a\<lparr>at_status := status\<rparr>"

text \<open>\<open>ErrorHandler\<close> of the forwarder, and a read of \<open>watchedBody\<close> that fails.\<close>

definition ErrorHandler :: "attempt \<Rightarrow> err \<Rightarrow> attempt" where
  "ErrorHandler a e = a\<lparr>at_err := Some e\<rparr>"

definition watched_read :: "attempt \<Rightarrow> err \<Rightarrow> attempt" where
  "watched_read a e = (if \<not> error_is e EOF then a\<lparr>at_aborted := Some e\<rparr> else a)"

text \<open>\<open>ModifyResponse\<close>: an error for the error handler, or the cookie the answer is given.\<close>

definition ModifyResponse :: "world \<Rightarrow> attempt \<Rightarrow> int \<Rightarrow> err + set_cookie option" where
  "ModifyResponse w a status =
     (if se_retryOn5xx (w_settings w ! w_current w) \<and> status \<ge> 500 then Inl Retryable5xx else Inr (at_pin a))"

text \<open>
  What the wire gives: the round trip fails, or the backend answers with a status and a body that ends,
  fails to be read, or cannot be written to the client.
\<close>

datatype body_end = BodyEnds | BodyFails err | ClientWriteFails

datatype trip = TripFails err | Responds int body_end

text \<open>
  \<open>httputil.ReverseProxy\<close> as far as its callbacks see it: a failed round trip and a refused response go
  to the error handler; an accepted response has its status written and its body copied, and a copy that
  fails, on either side, panics. An answer that switches protocols goes to the error handler as well: the
  forwarder writes to such an answer's body, and \<open>ModifyResponse\<close> has put it into a \<open>watchedBody\<close>, which
  can only be read.
\<close>

definition forward :: "world \<Rightarrow> attempt \<Rightarrow> trip \<Rightarrow> attempt \<times> bool" where
  "forward w a t =
     (case t of
        TripFails e \<Rightarrow> (ErrorHandler a e, False)
      | Responds status body \<Rightarrow>
          (case ModifyResponse w a status of
             Inl e \<Rightarrow> (ErrorHandler a e, False)
           | Inr _ \<Rightarrow>
               if status = 101 then (ErrorHandler a OtherError, False)
               else (let a1 = WriteHeader a status
                in case body of
                     BodyEnds \<Rightarrow> (a1, False)
                   | BodyFails e \<Rightarrow> if e = EOF then (a1, False) else (watched_read a1 e, True)
                   | ClientWriteFails \<Rightarrow> (a1, True))))"

subsection \<open>One request\<close>

text \<open>
  The variables of \<open>Core.ServeHTTP\<close>, with \<open>sv_n\<close> the loop's counter and \<open>sv_tried\<close> the addresses
  tried, the latest first; and those of an attempt while the forwarder runs.
\<close>

record serving =
  sv_request :: request
  sv_active :: sref
  sv_body :: "string option"
  sv_key :: string
  sv_pinned :: "bref option"
  sv_cookie :: cookieState
  sv_tried :: "string list"
  sv_n :: nat

record flight =
  fl_serving :: serving
  fl_backend :: bref
  fl_retry :: bool
  fl_pin :: "set_cookie option"
  fl_started :: time

datatype process =
    Arrived request
  | Reading request sref
  | Forwarding flight
  | Finished answer

definition succeeded :: "world \<Rightarrow> sref \<Rightarrow> bref \<Rightarrow> string \<Rightarrow> duration \<Rightarrow> world" where
  "succeeded w i b status took =
     (let a = addr_of (w_heap w) b;
          w1 = w\<lparr>w_checker := ReportSuccess (w_checker w) a\<rparr>;
          w2 = on_settings i (\<lambda>s. s\<lparr>se_breaker := recordSuccess (se_breaker s) a\<rparr>) w1
      in observe (\<lambda>m. ObserveRequest m a status took) w2)"

definition failed :: "world \<Rightarrow> sref \<Rightarrow> bref \<Rightarrow> string \<Rightarrow> world" where
  "failed w i b reason =
     (let a = addr_of (w_heap w) b;
          w1 = w\<lparr>w_checker := ReportFailure (w_checker w) a\<rparr>;
          w2 = on_settings i (\<lambda>s. s\<lparr>se_breaker := recordFailure (w_now w) (se_breaker s) a\<rparr>) w1
      in observe (\<lambda>m. ObserveBackendFailure m a reason) w2)"

text \<open>The deferred \<open>requestFinished\<close>, and the answer.\<close>

definition finish :: "world \<Rightarrow> sref \<Rightarrow> answer \<Rightarrow> world \<times> process" where
  "finish w i a = (on_budget i requestFinished w, Finished a)"

definition refuse :: "world \<Rightarrow> sref \<Rightarrow> string \<Rightarrow> world \<times> process" where
  "refuse w i reason = finish (observe (\<lambda>m. ObserveRejection m reason) w) i unavailable"

text \<open>\<open>try\<close> and \<open>serve\<close> up to the forwarder.\<close>

definition begin_attempt :: "world \<Rightarrow> serving \<Rightarrow> bref \<Rightarrow> bool \<Rightarrow> world \<times> process" where
  "begin_attempt w v b retry =
     (w\<lparr>w_heap := Acquire (w_heap w) b\<rparr>,
      Forwarding \<lparr>fl_serving = v, fl_backend = b, fl_retry = retry,
                  fl_pin = renew (se_pins (w_settings w ! sv_active v)) (w_heap w) (sv_pinned v) b,
                  fl_started = w_now w\<rparr>)"

text \<open>One turn of the loop, up to the forwarder or the answer.\<close>

definition offer :: "(rat \<Rightarrow> rat) \<Rightarrow> world \<Rightarrow> serving \<Rightarrow> world \<times> process" where
  "offer lg w v =
     (let i = sv_active v
      in if \<not> int (sv_n v) < se_attempts (w_settings w ! i) then refuse w i ''no_backend_available''
         else
           (case available w i (sv_tried v) of
              (candidates, w1) \<Rightarrow>
                (case place lg w1 i (sv_key v) (sv_pinned v) (sv_cookie v) candidates (sv_n v = 0) of
                   (Inl ErrNoBackends, w2) \<Rightarrow> refuse w2 i ''no_backend_available''
                 | (Inl NilBackend, w2) \<Rightarrow> finish w2 i Aborted
                 | (Inr None, w2) \<Rightarrow> finish w2 i Aborted
                 | (Inr (Some b), w2) \<Rightarrow>
                     (let v' = v\<lparr>sv_tried := addr_of (w_heap w2) b # sv_tried v\<rparr>;
                          retry = sv_n v > 0
                      in if \<not> retry then begin_attempt w2 v' b retry
                         else if \<not> fst (tryRetry (se_budget (w_settings w2 ! i)))
                         then refuse (on_budget i (\<lambda>b. snd (tryRetry b)) w2) i ''retry_budget_exhausted''
                         else begin_attempt (observe ObserveRetry (on_budget i (\<lambda>b. snd (tryRetry b)) w2)) v' b retry))))"

text \<open>\<open>Core.ServeHTTP\<close> from the snapshot \<open>i\<close> up to the first attempt.\<close>

definition begin_request :: "(rat \<Rightarrow> rat) \<Rightarrow> world \<Rightarrow> request \<Rightarrow> sref \<Rightarrow> world \<times> process" where
  "begin_request lg w r i =
     (let active = w_settings w ! i
      in case replayableBody r active of
           Inl _ \<Rightarrow> (observe (\<lambda>m. ObserveRejection m ''body_too_large'') w, Finished (Refused 413 []))
         | Inr body \<Rightarrow>
             (case read (se_pins active) r of
                (pinned, cookie) \<Rightarrow>
                  offer lg (on_budget i requestStarted w)
                    \<lparr>sv_request = r, sv_active = i, sv_body = body, sv_key = se_hashKey active r,
                     sv_pinned = pinned, sv_cookie = cookie, sv_tried = [], sv_n = 0\<rparr>))"

text \<open>The deferred calls of \<open>serve\<close> and \<open>try\<close>.\<close>

definition end_attempt :: "world \<Rightarrow> flight \<Rightarrow> world" where
  "end_attempt w f =
     (let w1 = w\<lparr>w_heap := Release (w_heap w) (fl_backend f)\<rparr>
      in if fl_retry f then on_budget (sv_active (fl_serving f)) retryFinished w1 else w1)"

text \<open>
  \<open>serve\<close> from the end of forwarding, and the rest of the loop's turn. \<open>gone\<close> and \<open>gone_later\<close> are
  the two readings of the request's context, in \<open>serve\<close> and in the loop.
\<close>

definition resume :: "(rat \<Rightarrow> rat) \<Rightarrow> world \<Rightarrow> flight \<Rightarrow> trip \<Rightarrow> bool \<Rightarrow> bool \<Rightarrow> world \<times> process" where
  "resume lg w f t gone gone_later =
     (let v = fl_serving f; i = sv_active v; b = fl_backend f;
          a = \<lparr>at_err = None, at_status = 200, at_aborted = None, at_pin = fl_pin f,
               at_stickyCookie = cookieName (se_pins (w_settings w ! i))\<rparr>
      in case forward w a t of
           (a', True) \<Rightarrow>
             finish (end_attempt (if at_aborted a' \<noteq> None \<and> \<not> gone then failed w i b reasonCutOff else w) f)
               i Aborted
         | (a', False) \<Rightarrow>
             (case at_err a' of
                None \<Rightarrow>
                  finish (end_attempt (succeeded w i b (Itoa (at_status a')) (time_sub (w_now w) (fl_started f))) f)
                    i (Passed (at_status a') (at_pin a'))
              | Some e \<Rightarrow>
                  (let w1 = end_attempt (if \<not> gone then failed w i b (failureReason e) else w) f
                   in if gone \<or> gone_later then finish w1 i Unanswered
                      else if int (sv_n v) + 1 < se_attempts (w_settings w ! i)
                           \<and> \<not> retryable (rq_method (sv_request v)) e
                      then refuse w1 i ''not_retryable''
                      else offer lg w1 (v\<lparr>sv_n := sv_n v + 1\<rparr>))))"

subsection \<open>The handler around the core\<close>

text \<open>
  \<open>rateLimiter.wrap\<close> and \<open>validateRequest\<close> around what they serve, which is the snapshot the core takes
  first.
\<close>

definition limiter_wrap :: "(world \<Rightarrow> request \<Rightarrow> world \<times> process) \<Rightarrow> world \<Rightarrow> request \<Rightarrow> world \<times> process" where
  "limiter_wrap serve_next w r =
     (case Rate_Limit.allow (w_limiter w) (clientAddr r) (w_now w) of
        (ok, l) \<Rightarrow>
          (let w1 = w\<lparr>w_limiter := l\<rparr>
           in if \<not> ok
              then (observe (\<lambda>m. ObserveRejection m ''rate_limited'') w1,
                    Finished (Refused 429 [(''Retry-After'', ''1'')]))
              else serve_next w1 r))"

definition validateRequest :: "(world \<Rightarrow> request \<Rightarrow> world \<times> process) \<Rightarrow> world \<Rightarrow> request \<Rightarrow> world \<times> process" where
  "validateRequest serve_next w r =
     (if suspiciousFraming r
      then (observe (\<lambda>m. ObserveRejection m ''bad_framing'') w, Finished (Refused 400 []))
      else serve_next w r)"

definition admit :: "world \<Rightarrow> request \<Rightarrow> world \<times> process" where
  "admit = limiter_wrap (validateRequest (\<lambda>w r. (w, Reading r (w_current w))))"

lemmas admit_defs = admit_def limiter_wrap_def validateRequest_def

text \<open>The whole chain: the header every answer carries, and what becomes of the request.\<close>

definition Handler_ServeHTTP :: "string \<Rightarrow> world \<Rightarrow> request \<Rightarrow> (string \<times> string) \<times> world \<times> process" where
  "Handler_ServeHTTP fresh w r = (case withRequestID fresh r of (hdr, r') \<Rightarrow> (hdr, admit w r'))"

text \<open>\<open>Handler.Reload\<close> and \<open>Handler.Strategy\<close>: the backends are those the caller merged.\<close>

definition Handler_Reload ::
  "(string \<Rightarrow> string \<Rightarrow> string) \<Rightarrow> world \<Rightarrow> Config \<Rightarrow> nat \<Rightarrow> bref list \<Rightarrow> world" where
  "Handler_Reload mac w cfg strategy bs =
     (let w1 = w\<lparr>w_limiter := setRate (w_limiter w) (li_rate_limit_per_ip (c_limits cfg)),
                 w_settings := w_settings w @ [settingsFor mac cfg strategy (w_heap w) bs (w_secret w)],
                 w_current := length (w_settings w)\<rparr>
      in observe (prepareMetrics (w_heap w) bs) w1)"

definition Handler_Strategy :: "world \<Rightarrow> nat" where
  "Handler_Strategy w = se_strategy (w_settings w ! w_current w)"

end
