(* ===== verification/Proxy_Frames.thy ===== *)
theory Proxy_Frames
  imports Proxy
begin

text \<open>
  What the pieces of a request leave alone. \<open>quiet w w'\<close>: between the two worlds no counter of requests
  in flight has moved and nothing a request can see of a configuration has changed but its breaker.
  Finding candidates, choosing one and reporting an outcome are quiet; the lemmas on \<open>offer\<close> and
  \<open>resume\<close> then say exactly which counters move.
\<close>

subsection \<open>Placing a request only caches hashes\<close>

lemma addrHash_caches: "caches h (snd (addrHash h p))"
  by (auto simp: addrHash_def Let_def caches_def nth_update_cell intro!: nth_equalityI)

lemma score_caches: "caches h (snd (score lg h kh p))"
  using addrHash_caches [of h p] by (simp add: score_def case_prod_beta)

lemma home_loop_caches: "caches h (snd (home_loop lg h kh ps best s))"
proof (induction ps arbitrary: h best s)
  case (Cons p ps)
  show ?case
    using score_caches [of h lg kh p] Cons.IH [of "snd (score lg h kh p)"]
    by (auto simp: case_prod_beta intro: caches_trans)
qed simp

lemma Home_caches: "caches h (snd (Home lg h key bs))"
  by (simp add: Home_def home_loop_caches)

lemma score_all_caches: "caches h (snd (score_all lg h kh ps))"
proof (induction ps arbitrary: h)
  case (Cons p ps)
  show ?case
    using score_caches [of h lg kh p] Cons.IH [of "snd (score lg h kh p)"]
    by (auto simp: case_prod_beta intro: caches_trans)
qed simp

lemma home_loop_member: "fst (home_loop lg h kh ps best s) = Some p \<Longrightarrow> p \<in> set ps \<or> best = Some p"
  by (induction ps arbitrary: h best s) (fastforce simp: case_prod_beta split: if_splits)+

lemma Home_among: "fst (Home lg h key bs) = Some p \<Longrightarrow> p \<in> set bs"
  using home_loop_member [of lg h "hashKey key" bs None NegInf p] by (simp add: Home_def)

lemma score_all_refs: "fst ` set (fst (score_all lg h kh ps)) = set ps"
  by (induction ps arbitrary: h) (auto simp: case_prod_beta)

lemma SelectFor_caches_always: "caches h (snd (SelectFor lg factor h key bs))"
proof -
  obtain home h1 where home: "Home lg h key bs = (home, h1)" by fastforce
  have c1: "caches h h1" using Home_caches [of h lg key bs] home by simp
  obtain rs h2 where rs: "score_all lg h1 (hashKey key) bs = (rs, h2)" by fastforce
  have "caches h h2" using caches_trans [OF c1] score_all_caches [of h1 lg "hashKey key" bs] rs by simp
  then show ?thesis using c1 home rs by (auto simp: SelectFor_def split: option.splits)
qed

lemma set_sort_ranked: "set (sort_ranked rs) = set rs"
proof -
  have "set (foldl (\<lambda>acc x. insert_ranked x acc) ys xs) = set xs \<union> set ys" for xs ys
    by (induction xs arbitrary: ys) (auto simp: set_insert_ranked)
  then show ?thesis by (simp add: sort_ranked_def)
qed

lemma SelectFor_among:
  assumes "fst (SelectFor lg factor h key bs) = chose p"
  shows "p \<in> set bs"
proof -
  obtain home h1 where home: "Home lg h key bs = (home, h1)" by fastforce
  then have mem: "\<And>q. home = Some q \<Longrightarrow> q \<in> set bs" using Home_among [of lg h key bs] by simp
  obtain rs h2 where rs: "score_all lg h1 (hashKey key) bs = (rs, h2)" by fastforce
  have "fst c \<in> set bs" if "find P (sort_ranked rs) = Some c" for P c
    using that score_all_refs [of lg h1 "hashKey key" bs] rs set_sort_ranked [of rs]
    by (auto dest!: find_SomeD)
  then show ?thesis using assms home rs mem by (auto simp: SelectFor_def split: option.splits if_splits)
qed

subsection \<open>Quiet changes\<close>

definition frozen :: "settings \<Rightarrow> settings" where
  "frozen s = s\<lparr>se_breaker := newBreaker FailFast \<lparr>cb_failure_threshold = 0, cb_open_duration = 0\<rparr>\<rparr>"

definition quiet :: "world \<Rightarrow> world \<Rightarrow> bool" where
  "quiet w w' \<longleftrightarrow> caches (w_heap w) (w_heap w') \<and> map frozen (w_settings w') = map frozen (w_settings w)
     \<and> length (w_strategies w') = length (w_strategies w) \<and> w_current w' = w_current w"

lemma quiet_refl [simp, wf_intros]: "quiet w w"
  by (simp add: quiet_def)

lemma quiet_trans: "quiet w w1 \<Longrightarrow> quiet w1 w2 \<Longrightarrow> quiet w w2"
  by (auto simp: quiet_def intro: caches_trans)

lemma frozen_fields:
  assumes "frozen s' = frozen s"
  shows "se_strategy s' = se_strategy s" "se_backends s' = se_backends s" "se_budget s' = se_budget s"
    "se_attempts s' = se_attempts s" "se_retryOn5xx s' = se_retryOn5xx s" "se_maxBody s' = se_maxBody s"
    "se_hashKey s' = se_hashKey s" "se_pins s' = se_pins s"
  using assms by (cases s; cases s'; simp add: frozen_def)+

lemma quiet_settings:
  assumes "quiet w w'"
  shows "length (w_settings w') = length (w_settings w)"
    and "i < length (w_settings w) \<Longrightarrow> frozen (w_settings w' ! i) = frozen (w_settings w ! i)"
proof -
  have eq: "map frozen (w_settings w') = map frozen (w_settings w)" using assms by (simp add: quiet_def)
  then show len: "length (w_settings w') = length (w_settings w)" by (rule map_eq_imp_length_eq)
  show "i < length (w_settings w) \<Longrightarrow> frozen (w_settings w' ! i) = frozen (w_settings w ! i)"
    using arg_cong [OF eq, of "\<lambda>xs. xs ! i"] len by simp
qed

lemma quiet_heap:
  assumes "quiet w w'"
  shows "length (w_heap w') = length (w_heap w)"
    and "p < length (w_heap w) \<Longrightarrow> addr_of (w_heap w') p = addr_of (w_heap w) p"
    and "p < length (w_heap w) \<Longrightarrow> ActiveConnections (w_heap w') p = ActiveConnections (w_heap w) p"
proof -
  have c: "caches (w_heap w) (w_heap w')" using assms by (simp add: quiet_def)
  then show "length (w_heap w') = length (w_heap w)" by (rule caches_length)
  show "p < length (w_heap w) \<Longrightarrow> addr_of (w_heap w') p = addr_of (w_heap w) p"
    by (rule caches_cell(1) [OF c])
  show "p < length (w_heap w) \<Longrightarrow> ActiveConnections (w_heap w') p = ActiveConnections (w_heap w) p"
    by (rule caches_reads(3) [OF c])
qed

lemma quiet_observe [simp, wf_intros]: "quiet w (observe f w)" "quiet w (observe f w') = quiet w w'"
    "quiet (observe f w) w' = quiet w w'"
  by (simp_all add: quiet_def observe_def)

lemma observe_fields [simp, frame_simps]:
  "w_heap (observe f w) = w_heap w" "w_settings (observe f w) = w_settings w"
  "w_strategies (observe f w) = w_strategies w" "w_current (observe f w) = w_current w"
  "w_checker (observe f w) = w_checker w" "w_limiter (observe f w) = w_limiter w"
  "w_tape (observe f w) = w_tape w" "w_now (observe f w) = w_now w" "w_metrics (observe f w) = f (w_metrics w)"
  by (simp_all add: observe_def)

lemma on_settings_fields [simp, frame_simps]:
  "w_heap (on_settings i g w) = w_heap w" "length (w_settings (on_settings i g w)) = length (w_settings w)"
  "w_strategies (on_settings i g w) = w_strategies w" "w_current (on_settings i g w) = w_current w"
  "w_checker (on_settings i g w) = w_checker w" "w_limiter (on_settings i g w) = w_limiter w"
  "w_metrics (on_settings i g w) = w_metrics w" "w_tape (on_settings i g w) = w_tape w"
  "w_now (on_settings i g w) = w_now w"
  by (simp_all add: on_settings_def)

lemma nth_on_settings:
  "j < length (w_settings w) \<Longrightarrow>
     w_settings (on_settings i g w) ! j = (if i = j then g (w_settings w ! j) else w_settings w ! j)"
  by (simp add: on_settings_def nth_list_update)

lemma quiet_breaker:
  "quiet w (on_settings i (\<lambda>s. s\<lparr>se_breaker := br s\<rparr>) w)"
proof -
  have "frozen (w_settings (on_settings i (\<lambda>s. s\<lparr>se_breaker := br s\<rparr>) w) ! j) = frozen (w_settings w ! j)"
    if "j < length (w_settings w)" for j
    using that by (auto simp: nth_on_settings frozen_def)
  then show ?thesis by (simp add: quiet_def list_eq_iff_nth_eq)
qed

lemma quiet_fields:
  assumes "quiet w w1" "w_heap w2 = w_heap w1" "w_settings w2 = w_settings w1"
    "length (w_strategies w2) = length (w_strategies w1)" "w_current w2 = w_current w1"
  shows "quiet w w2"
  using assms by (simp add: quiet_def)

lemma quiet_available: "quiet w (snd (available w i tried))"
  using quiet_breaker [of w i] by (auto simp: available_def Let_def case_prod_beta)

lemma quiet_choose: "quiet w (snd (choose_backend lg w i key candidates first))"
proof -
  have strat: "quiet w (w\<lparr>w_strategies := (w_strategies w)[k := s], w_tape := t\<rparr>)" for k s t
    by (simp add: quiet_def)
  have heap: "quiet w (w\<lparr>w_heap := h\<rparr>)" if "caches (w_heap w) h" for h
    using that by (simp add: quiet_def)
  have heap2: "caches (w_heap w) (snd (Home lg (snd (SelectFor lg f (w_heap w) key candidates)) key bs))" for f bs
    using SelectFor_caches_always Home_caches by (rule caches_trans)
  show ?thesis
    using SelectFor_caches_always [of "w_heap w"] heap2
    by (auto simp: choose_backend_def Let_def case_prod_beta strat heap split: option.splits sum.splits)
qed

lemma quiet_place: "quiet w (snd (place lg w i key pinned state candidates first))"
  using quiet_choose [of w] quiet_choose [of "observe f w" for f] by (auto simp: place_def split: option.splits)

lemma quiet_succeeded: "quiet w (succeeded w i b status took)"
  unfolding succeeded_def Let_def quiet_observe
  by (rule quiet_trans [OF _ quiet_breaker]) (simp add: quiet_def)

lemma quiet_failed: "quiet w (failed w i b reason)"
  unfolding failed_def Let_def quiet_observe
  by (rule quiet_trans [OF _ quiet_breaker]) (simp add: quiet_def)

subsection \<open>Candidates and the choice among them\<close>

lemma available_loop_untried:
  "fst (snd (available_loop hc now h tried br bs)) = filter (\<lambda>b. addr_of h b \<notin> set tried) bs"
  by (induction bs arbitrary: br) (simp_all add: case_prod_beta Let_def)

lemma available_loop_fit:
  "set (fst (available_loop hc now h tried br bs)) \<subseteq>
     {b \<in> set bs. addr_of h b \<notin> set tried \<and> IsHealthy hc (addr_of h b)}"
  by (induction bs arbitrary: br) (auto simp: case_prod_beta Let_def split: if_splits)

lemma available_cases:
  fixes w i tried
  defines "untried \<equiv> filter (\<lambda>b. addr_of (w_heap w) b \<notin> set tried) (se_backends (w_settings w ! i))"
  obtains fit where "set fit \<subseteq> {b \<in> set untried. IsHealthy (w_checker w) (addr_of (w_heap w) b)}"
    "fst (available w i tried) = (if fit = [] \<and> untried \<noteq> [] then untried else fit)"
proof -
  obtain fit un br where loop: "available_loop (w_checker w) (w_now w) (w_heap w) tried
      (se_breaker (w_settings w ! i)) (se_backends (w_settings w ! i)) = (fit, un, br)"
    by (metis prod_cases3)
  have un: "un = untried"
    using available_loop_untried [of "w_checker w" "w_now w" "w_heap w" tried "se_breaker (w_settings w ! i)"
        "se_backends (w_settings w ! i)"] unfolding loop untried_def by simp
  have "set fit \<subseteq> {b \<in> set untried. IsHealthy (w_checker w) (addr_of (w_heap w) b)}"
    using available_loop_fit [of "w_checker w" "w_now w" "w_heap w" tried "se_breaker (w_settings w ! i)"
        "se_backends (w_settings w ! i)"] loop
    by (auto simp: untried_def)
  moreover have "fst (available w i tried) = (if fit = [] \<and> untried \<noteq> [] then untried else fit)"
    using loop un by (simp add: available_def Let_def)
  ultimately show thesis by (rule that)
qed

lemma available_members:
  assumes "b \<in> set (fst (available w i tried))"
  shows "b \<in> set (se_backends (w_settings w ! i))" "addr_of (w_heap w) b \<notin> set tried"
proof -
  have "b \<in> set (filter (\<lambda>b. addr_of (w_heap w) b \<notin> set tried) (se_backends (w_settings w ! i)))"
    by (rule available_cases [of w tried i]) (use assms in \<open>auto split: if_splits\<close>)
  then show "b \<in> set (se_backends (w_settings w ! i))" "addr_of (w_heap w) b \<notin> set tried" by auto
qed

lemma available_empty:
  "fst (available w i tried) = [] \<longleftrightarrow> (\<forall>b\<in>set (se_backends (w_settings w ! i)). addr_of (w_heap w) b \<in> set tried)"
proof (rule available_cases [of w tried i])
  fix fit
  assume "set fit \<subseteq> {b \<in> set (filter (\<lambda>b. addr_of (w_heap w) b \<notin> set tried) (se_backends (w_settings w ! i))).
      IsHealthy (w_checker w) (addr_of (w_heap w) b)}"
    and "fst (available w i tried) =
      (if fit = [] \<and> filter (\<lambda>b. addr_of (w_heap w) b \<notin> set tried) (se_backends (w_settings w ! i)) \<noteq> []
       then filter (\<lambda>b. addr_of (w_heap w) b \<notin> set tried) (se_backends (w_settings w ! i)) else fit)"
  then show ?thesis by (cases fit) (auto simp: filter_empty_conv)
qed

lemma choose_among:
  "fst (choose_backend lg w i key candidates first) = chose b \<Longrightarrow> b \<in> set candidates"
  using strat.select_in [of "w_strategies w ! se_strategy (w_settings w ! i)"] 
    strat_retry.select_in [of "w_strategies w ! se_strategy (w_settings w ! i)"]
    SelectFor_among [of lg _ "w_heap w" key candidates b]
  by (auto simp: choose_backend_def Let_def case_prod_beta split: option.splits sum.splits if_splits)

lemma place_among:
  "fst (place lg w i key pinned state candidates first) = chose b \<Longrightarrow> b \<in> set candidates"
  using choose_among by (auto simp: place_def split: option.splits if_splits)

lemma choose_empty: "fst (choose_backend lg w i key [] first) = Inl ErrNoBackends"
  by (auto simp: choose_backend_def Let_def case_prod_beta strat.select_empty strat_retry.select_empty SelectFor_def
      split: option.splits)

lemma place_empty: "fst (place lg w i key pinned state [] first) = Inl ErrNoBackends"
  by (auto simp: place_def choose_empty split: option.splits)

subsection \<open>What stays for good\<close>

text \<open>
  \<open>static s\<close> is what of a configuration never changes: all but its breaker and its budget's counters.
  \<open>steady w w'\<close>: every configuration and every backend of \<open>w\<close> is still there, with its address.
\<close>

definition static :: "settings \<Rightarrow> nat \<times> bref list \<times> int \<times> bool \<times> int \<times> pins option" where
  "static s = (se_strategy s, se_backends s, se_attempts s, se_retryOn5xx s, se_maxBody s, se_pins s)"

definition steady :: "world \<Rightarrow> world \<Rightarrow> bool" where
  "steady w w' \<longleftrightarrow>
     length (w_heap w) \<le> length (w_heap w') \<and> length (w_settings w) \<le> length (w_settings w')
     \<and> length (w_strategies w) \<le> length (w_strategies w')
     \<and> (\<forall>p<length (w_heap w). addr_of (w_heap w') p = addr_of (w_heap w) p)
     \<and> (\<forall>i<length (w_settings w). static (w_settings w' ! i) = static (w_settings w ! i))"

lemma steady_refl [simp, wf_intros]: "steady w w"
  by (simp add: steady_def)

lemma steady_trans: "steady w w1 \<Longrightarrow> steady w1 w2 \<Longrightarrow> steady w w2"
  by (simp add: steady_def)

lemma static_fields:
  assumes "static s' = static s"
  shows "se_strategy s' = se_strategy s" "se_backends s' = se_backends s" "se_attempts s' = se_attempts s"
    "se_retryOn5xx s' = se_retryOn5xx s" "se_maxBody s' = se_maxBody s" "se_pins s' = se_pins s"
  using assms by (simp_all add: static_def)

lemma quiet_steady: "quiet w w' \<Longrightarrow> steady w w'"
proof -
  assume q: "quiet w w'"
  have "static (w_settings w' ! i) = static (w_settings w ! i)" if "i < length (w_settings w)" for i
    using frozen_fields [OF quiet_settings(2) [OF q that]] by (simp add: static_def)
  moreover have "length (w_strategies w') = length (w_strategies w)" using q by (simp add: quiet_def)
  ultimately show ?thesis using quiet_settings(1) [OF q] quiet_heap [OF q] by (simp add: steady_def)
qed

lemma steady_on_budget: "steady w (on_budget i g w)"
  by (simp add: steady_def on_budget_def nth_on_settings static_def)

lemma steady_heap_op:
  "steady w (w\<lparr>w_heap := Acquire (w_heap w) b\<rparr>)" "steady w (w\<lparr>w_heap := Release (w_heap w) b\<rparr>)"
  by (simp_all add: steady_def)

lemma steady_at:
  assumes "steady w w'" "i < length (w_settings w)"
  shows "i < length (w_settings w')" "static (w_settings w' ! i) = static (w_settings w ! i)"
  using assms by (auto simp: steady_def)

definition settings_ok :: "world \<Rightarrow> settings \<Rightarrow> bool" where
  "settings_ok w s \<longleftrightarrow> se_strategy s < length (w_strategies w) \<and> refs_ok (w_heap w) (se_backends s)"

definition world_ok :: "world \<Rightarrow> bool" where
  "world_ok w \<longleftrightarrow> w_current w < length (w_settings w) \<and> (\<forall>s\<in>set (w_settings w). settings_ok w s)"

lemma world_ok_nth: "world_ok w \<Longrightarrow> i < length (w_settings w) \<Longrightarrow> settings_ok w (w_settings w ! i)"
  by (simp add: world_ok_def)

lemma world_ok_steady:
  assumes "world_ok w" "steady w w'" "length (w_settings w') = length (w_settings w)" "w_current w' = w_current w"
  shows "world_ok w'"
proof -
  have "settings_ok w' (w_settings w' ! i)" if "i < length (w_settings w)" for i
  proof -
    have "settings_ok w (w_settings w ! i)" using assms(1) that by (rule world_ok_nth)
    then show ?thesis
      using assms(2) static_fields(1,2) [OF steady_at(2) [OF assms(2) that]]
      by (auto simp: settings_ok_def steady_def refs_ok_def intro: less_le_trans)
  qed
  then show ?thesis using assms(1,3,4) by (auto simp: world_ok_def in_set_conv_nth)
qed

definition serving_ok :: "world \<Rightarrow> serving \<Rightarrow> bool" where
  "serving_ok w v \<longleftrightarrow>
     sv_active v < length (w_settings w) \<and> distinct (sv_tried v)
     \<and> set (sv_tried v) \<subseteq> addr_of (w_heap w) ` set (se_backends (w_settings w ! sv_active v))"

definition flight_ok :: "world \<Rightarrow> flight \<Rightarrow> bool" where
  "flight_ok w f \<longleftrightarrow>
     (let v = fl_serving f; s = w_settings w ! sv_active v
      in serving_ok w v \<and> length (sv_tried v) = sv_n v + 1 \<and> fl_backend f \<in> set (se_backends s)
         \<and> hd (sv_tried v) = addr_of (w_heap w) (fl_backend f) \<and> int (sv_n v) < se_attempts s
         \<and> fl_retry f = (0 < sv_n v))"

fun process_ok :: "world \<Rightarrow> process \<Rightarrow> bool" where
  "process_ok w (Arrived r) = True"
| "process_ok w (Reading r i) = (i < length (w_settings w))"
| "process_ok w (Forwarding f) = flight_ok w f"
| "process_ok w (Finished a) = True"

lemma addrs_steady:
  assumes "steady w w'" "refs_ok (w_heap w) bs"
  shows "addr_of (w_heap w') ` set bs = addr_of (w_heap w) ` set bs"
  using assms by (intro image_cong) (auto simp: steady_def refs_ok_def)

lemma serving_ok_steady:
  assumes "serving_ok w v" "world_ok w" "steady w w'"
  shows "serving_ok w' v"
proof -
  have i: "sv_active v < length (w_settings w)" using assms(1) by (simp add: serving_ok_def)
  have "refs_ok (w_heap w) (se_backends (w_settings w ! sv_active v))"
    using world_ok_nth [OF assms(2) i] by (simp add: settings_ok_def)
  note addrs_steady [OF assms(3) this]
  then show ?thesis
    using assms(1) steady_at(1) [OF assms(3) i] static_fields(2) [OF steady_at(2) [OF assms(3) i]]
    by (simp add: serving_ok_def)
qed

lemma flight_ok_steady:
  assumes "flight_ok w f" "world_ok w" "steady w w'"
  shows "flight_ok w' f"
proof -
  have v: "serving_ok w (fl_serving f)" using assms(1) by (simp add: flight_ok_def Let_def)
  then have i: "sv_active (fl_serving f) < length (w_settings w)" by (simp add: serving_ok_def)
  have "refs_ok (w_heap w) (se_backends (w_settings w ! sv_active (fl_serving f)))"
    using world_ok_nth [OF assms(2) i] by (simp add: settings_ok_def)
  then have "addr_of (w_heap w') (fl_backend f) = addr_of (w_heap w) (fl_backend f)"
    using assms(1,3) by (simp add: flight_ok_def Let_def steady_def refs_ok_def)
  then show ?thesis
    using assms(1) serving_ok_steady [OF v assms(2,3)] static_fields(2,3) [OF steady_at(2) [OF assms(3) i]]
    by (simp add: flight_ok_def Let_def)
qed

lemma process_ok_steady: "process_ok w p \<Longrightarrow> world_ok w \<Longrightarrow> steady w w' \<Longrightarrow> process_ok w' p"
  by (cases p) (auto intro: flight_ok_steady dest: steady_at)

end
