(* ===== verification/Proxy_Requests.thy ===== *)
theory Proxy_Requests
  imports Proxy_Frames
begin

text \<open>
  What a piece of a request does to the counters it shares with the others. \<open>flying\<close>, \<open>serving_in\<close> and
  \<open>retrying_in\<close> are what a process contributes to a backend's requests in flight, to a budget's load and
  to its retries: every piece changes each counter by exactly the change of its own contribution, on
  every path, a panic included. The properties of this theory speak of one request; \<open>System\<close> puts them
  together.
\<close>

subsection \<open>One turn of the loop\<close>

definition retryTaken :: "retryBudget \<Rightarrow> retryBudget" where
  "retryTaken b = b\<lparr>rb_retries := rb_retries b + 1\<rparr>"

abbreviation requests_of :: "world \<Rightarrow> sref \<Rightarrow> int" where
  "requests_of w i \<equiv> rb_requests (se_budget (w_settings w ! i))"

abbreviation retries_of :: "world \<Rightarrow> sref \<Rightarrow> int" where
  "retries_of w i \<equiv> rb_retries (se_budget (w_settings w ! i))"

lemma on_budget_fields [simp, frame_simps]:
  "w_heap (on_budget i g w) = w_heap w" "length (w_settings (on_budget i g w)) = length (w_settings w)"
  "w_strategies (on_budget i g w) = w_strategies w" "w_current (on_budget i g w) = w_current w"
  "w_checker (on_budget i g w) = w_checker w" "w_limiter (on_budget i g w) = w_limiter w"
  "w_metrics (on_budget i g w) = w_metrics w" "w_tape (on_budget i g w) = w_tape w"
  "w_now (on_budget i g w) = w_now w"
  by (simp_all add: on_budget_def)

lemma nth_on_budget:
  "j < length (w_settings w) \<Longrightarrow>
     w_settings (on_budget i g w) ! j =
       (if i = j then (w_settings w ! j)\<lparr>se_budget := g (se_budget (w_settings w ! j))\<rparr> else w_settings w ! j)"
  by (simp add: on_budget_def nth_on_settings)

lemma on_budget_observe: "observe f (on_budget i g w) = on_budget i g (observe f w)"
  by (simp add: observe_def on_budget_def on_settings_def)

lemma on_budget_cong:
  "g (se_budget (w_settings w ! i)) = g' (se_budget (w_settings w ! i)) \<Longrightarrow> on_budget i g w = on_budget i g' w"
  by (simp add: on_budget_def on_settings_def)

lemma on_budget_same: "g (se_budget (w_settings w ! i)) = se_budget (w_settings w ! i) \<Longrightarrow> on_budget i g w = w"
  by (simp add: on_budget_def on_settings_def)

lemma refs_of_settings:
  "world_ok w \<Longrightarrow> i < length (w_settings w) \<Longrightarrow> b \<in> set (se_backends (w_settings w ! i)) \<Longrightarrow> b < length (w_heap w)"
  using world_ok_nth [of w i] by (simp add: settings_ok_def refs_ok_def)

lemma quiet_budget:
  "quiet w w' \<Longrightarrow> i < length (w_settings w) \<Longrightarrow> se_budget (w_settings w' ! i) = se_budget (w_settings w ! i)"
  by (rule frozen_fields(3)) (rule quiet_settings(2))

lemma offer_cases:
  assumes "world_ok w" "serving_ok w v"
  obtains (answered) w2 a where "quiet w w2" "a = unavailable \<or> a = Aborted" "offer lg w v = finish w2 (sv_active v) a"
  | (sent) w2 b where "quiet w w2" "b \<in> set (se_backends (w_settings w ! sv_active v))"
      "addr_of (w_heap w) b \<notin> set (sv_tried v)" "int (sv_n v) < se_attempts (w_settings w ! sv_active v)"
      "0 < sv_n v \<Longrightarrow> retries_of w (sv_active v) < limit (se_budget (w_settings w ! sv_active v))"
      "offer lg w v = begin_attempt (if 0 < sv_n v then on_budget (sv_active v) retryTaken w2 else w2)
         (v\<lparr>sv_tried := addr_of (w_heap w) b # sv_tried v\<rparr>) b (0 < sv_n v)"
proof -
  let ?i = "sv_active v" and ?s = "w_settings w ! sv_active v"
  have i: "?i < length (w_settings w)" using assms(2) by (simp add: serving_ok_def)
  obtain cands w1 where av: "available w ?i (sv_tried v) = (cands, w1)" by fastforce
  obtain c w2 where pl: "place lg w1 ?i (sv_key v) (sv_pinned v) (sv_cookie v) cands (sv_n v = 0) = (c, w2)" by fastforce
  have q: "quiet w w2"
    using quiet_trans [OF quiet_available [of w ?i "sv_tried v", unfolded av snd_conv]]
      quiet_place [of w1 lg ?i "sv_key v" "sv_pinned v" "sv_cookie v" cands "sv_n v = 0", unfolded pl snd_conv] by blast
  note offer = offer_def [of lg w v, unfolded Let_def av prod.case pl]
  show thesis
  proof (cases "int (sv_n v) < se_attempts ?s")
    case False
    then show thesis using answered [of "observe (\<lambda>m. ObserveRejection m ''no_backend_available'') w" unavailable]
      by (simp add: offer refuse_def)
  next
    case True
    note offer = offer [simplified True, simplified]
    show thesis
    proof (cases c)
      case (Inl e)
      then show thesis
        using q True answered [of "observe (\<lambda>m. ObserveRejection m ''no_backend_available'') w2" unavailable]
          answered [of w2 Aborted]
        by (cases e) (simp_all add: offer refuse_def)
    next
      case (Inr bo)
      show thesis
      proof (cases bo)
        case None
        then show thesis using Inr True answered [OF q, of Aborted] by (simp add: offer)
      next
        case (Some b)
        have "b \<in> set cands" using place_among [of lg w1 ?i] pl Inr Some by (metis fst_conv)
        then have b: "b \<in> set (se_backends ?s)" "addr_of (w_heap w) b \<notin> set (sv_tried v)"
          using available_members [of b w ?i "sv_tried v"] av by simp_all
        have addr: "addr_of (w_heap w2) b = addr_of (w_heap w) b"
          by (rule quiet_heap(2) [OF q refs_of_settings [OF assms(1) i b(1)]])
        have bud: "se_budget (w_settings w2 ! ?i) = se_budget ?s" by (rule quiet_budget [OF q i])
        note out = offer [unfolded Inr Some sum.case option.case prod.case addr bud]
        show thesis
        proof (cases "0 < sv_n v")
          case False
          then show thesis using sent [OF q b True] True out by simp
        next
          case retry: True
          show thesis
          proof (cases "fst (tryRetry (se_budget ?s))")
            case False
            then have "snd (tryRetry (se_budget ?s)) = se_budget ?s" by (simp add: tryRetry_eq split: if_splits)
            then have "on_budget ?i (\<lambda>b. snd (tryRetry b)) w2 = w2" using bud by (intro on_budget_same) simp
            then show thesis
              using False retry True out q answered [of "observe (\<lambda>m. ObserveRejection m ''retry_budget_exhausted'') w2" unavailable]
              by (simp add: refuse_def)
          next
            case granted: True
            then have less: "retries_of w ?i < limit (se_budget ?s)"
              and "snd (tryRetry (se_budget ?s)) = retryTaken (se_budget ?s)"
              by (simp_all add: tryRetry_eq retryTaken_def split: if_splits)
            then have "on_budget ?i (\<lambda>b. snd (tryRetry b)) w2 = on_budget ?i retryTaken w2"
              using bud by (intro on_budget_cong) simp
            then show thesis
              using granted retry True out less q sent [of "observe ObserveRetry w2", OF _ b True]
              by (simp add: on_budget_observe)
          qed
        qed
      qed
    qed
  qed
qed

subsection \<open>Contributions\<close>

fun flying :: "bref \<Rightarrow> process \<Rightarrow> int" where
  "flying b (Forwarding f) = (if fl_backend f = b then 1 else 0)"
| "flying b _ = 0"

fun serving_in :: "sref \<Rightarrow> process \<Rightarrow> int" where
  "serving_in i (Forwarding f) = (if sv_active (fl_serving f) = i then 1 else 0)"
| "serving_in i _ = 0"

fun retrying_in :: "sref \<Rightarrow> process \<Rightarrow> int" where
  "retrying_in i (Forwarding f) = (if sv_active (fl_serving f) = i \<and> fl_retry f then 1 else 0)"
| "retrying_in i _ = 0"

text \<open>
  The counters move from \<open>w\<close> to \<open>w'\<close> by \<open>da\<close>, \<open>dr\<close> and \<open>dt\<close>, and all that is static stays.
\<close>

definition moved :: "world \<Rightarrow> world \<Rightarrow> (bref \<Rightarrow> int) \<Rightarrow> (sref \<Rightarrow> int) \<Rightarrow> (sref \<Rightarrow> int) \<Rightarrow> bool" where
  "moved w w' da dr dt \<longleftrightarrow>
     steady w w' \<and> length (w_heap w') = length (w_heap w) \<and> length (w_settings w') = length (w_settings w)
     \<and> w_current w' = w_current w
     \<and> (\<forall>b<length (w_heap w). ActiveConnections (w_heap w') b = ActiveConnections (w_heap w) b + da b)
     \<and> (\<forall>i<length (w_settings w). requests_of w' i = requests_of w i + dr i)
     \<and> (\<forall>i<length (w_settings w). retries_of w' i = retries_of w i + dt i)"

definition only_at :: "nat \<Rightarrow> int \<Rightarrow> nat \<Rightarrow> int" where
  "only_at i d j = (if j = i then d else 0)"

abbreviation still :: "nat \<Rightarrow> int" where
  "still \<equiv> \<lambda>_. 0"

lemma moved_trans:
  "moved w w1 da dr dt \<Longrightarrow> moved w1 w2 da' dr' dt' \<Longrightarrow>
     moved w w2 (\<lambda>b. da b + da' b) (\<lambda>i. dr i + dr' i) (\<lambda>i. dt i + dt' i)"
  by (auto simp: moved_def intro: steady_trans)

lemma moved_steady: "moved w w' da dr dt \<Longrightarrow> steady w w'"
  by (simp add: moved_def)

lemma moved_world: "moved w w' da dr dt \<Longrightarrow> world_ok w \<Longrightarrow> world_ok w'"
  by (auto simp: moved_def intro: world_ok_steady)

lemma moved_quiet: "quiet w w' \<Longrightarrow> moved w w' still still still"
  using quiet_steady [of w w'] quiet_heap [of w w'] quiet_settings(1) [of w w'] quiet_budget [of w w']
  by (simp add: moved_def quiet_def)

lemma moved_budget:
  assumes "\<And>b. rb_requests (g b) = rb_requests b + r" "\<And>b. rb_retries (g b) = rb_retries b + t"
  shows "moved w (on_budget i g w) still (only_at i r) (only_at i t)"
  using steady_on_budget [of w i g] assms by (simp add: moved_def nth_on_budget only_at_def)

lemma moved_acquire:
  "b < length (w_heap w) \<Longrightarrow> moved w (w\<lparr>w_heap := Acquire (w_heap w) b\<rparr>) (only_at b 1) still still"
  using steady_heap_op(1) [of w b] by (simp add: moved_def only_at_def)

lemma moved_release:
  "b < length (w_heap w) \<Longrightarrow> moved w (w\<lparr>w_heap := Release (w_heap w) b\<rparr>) (only_at b (- 1)) still still"
  using steady_heap_op(2) [of w b] by (simp add: moved_def only_at_def)

lemma moved_cong:
  "moved w w' da dr dt \<Longrightarrow> (\<And>b. da b = da' b) \<Longrightarrow> (\<And>i. dr i = dr' i) \<Longrightarrow> (\<And>i. dt i = dt' i) \<Longrightarrow> moved w w' da' dr' dt'"
  by (simp add: moved_def)

lemma only_at_0 [simp]: "only_at i 0 = still"
  by (simp add: only_at_def fun_eq_iff)

lemma moved_finish: "moved w (fst (finish w i a)) still (only_at i (- 1)) still"
  using moved_budget [of requestFinished "- 1" 0 w i] by (auto simp: finish_def requestFinished_def intro: moved_cong)

lemma moved_begin_attempt:
  "b < length (w_heap w) \<Longrightarrow> moved w (fst (begin_attempt w v b retry)) (only_at b 1) still still"
  using moved_acquire [of b w] by (simp add: begin_attempt_def)

lemma moved_end_attempt:
  assumes "fl_backend f < length (w_heap w)"
  shows "moved w (end_attempt w f) (only_at (fl_backend f) (- 1)) still
           (only_at (sv_active (fl_serving f)) (if fl_retry f then - 1 else 0))"
proof -
  note release = moved_release [OF assms]
  show ?thesis
  proof (cases "fl_retry f")
    case True
    have "moved w1 (on_budget (sv_active (fl_serving f)) retryFinished w1) still still (only_at (sv_active (fl_serving f)) (- 1))" for w1
      using moved_budget [of retryFinished 0 "- 1" w1] by (simp add: retryFinished_def)
    from moved_trans [OF release this] show ?thesis using True by (simp add: end_attempt_def)
  qed (use release in \<open>auto simp: end_attempt_def intro: moved_cong\<close>)
qed

text \<open>A request that has taken its turn: it flies, or it is answered and no longer counted.\<close>

definition turned :: "world \<Rightarrow> serving \<Rightarrow> world \<Rightarrow> process \<Rightarrow> bool" where
  "turned w v w' p \<longleftrightarrow>
     moved w w' (\<lambda>b. flying b p) (\<lambda>i. serving_in i p - only_at (sv_active v) 1 i) (\<lambda>i. retrying_in i p) \<and> process_ok w' p"

lemma turned_finish: "turned w v (fst (finish w (sv_active v) a)) (snd (finish w (sv_active v) a))"
  using moved_finish [of w "sv_active v" a]
  by (auto simp: turned_def finish_def only_at_def intro: moved_cong)

lemma offer_turned:
  assumes "world_ok w" "serving_ok w v" "length (sv_tried v) = sv_n v"
  shows "turned w v (fst (offer lg w v)) (snd (offer lg w v))"
  using assms(1,2)
proof (cases rule: offer_cases [where lg = lg])
  case (answered w2 a)
  then show ?thesis using turned_finish [of w2 v a] moved_trans [OF moved_quiet [OF answered(1)]]
    by (fastforce simp: turned_def)
next
  case (sent w2 b)
  let ?i = "sv_active v" and ?s = "w_settings w ! sv_active v"
  let ?w3 = "if 0 < sv_n v then on_budget ?i retryTaken w2 else w2"
  let ?v = "v\<lparr>sv_tried := addr_of (w_heap w) b # sv_tried v\<rparr>"
  have i: "?i < length (w_settings w)" using assms(2) by (simp add: serving_ok_def)
  have b: "b < length (w_heap w)" by (rule refs_of_settings [OF assms(1) i sent(2)])
  have quiet: "moved w w2 still still still" by (rule moved_quiet [OF sent(1)])
  have "moved w2 (on_budget ?i retryTaken w2) still (only_at ?i 0) (only_at ?i 1)"
    by (rule moved_budget) (simp_all add: retryTaken_def)
  then have "moved w2 ?w3 still still (only_at ?i (if 0 < sv_n v then 1 else 0))"
    by (simp add: moved_quiet)
  note taken = moved_trans [OF quiet this]
  have len: "length (w_heap ?w3) = length (w_heap w)" using taken by (simp add: moved_def)
  have steady: "steady w (fst (begin_attempt ?w3 ?v b (0 < sv_n v)))"
    and m: "moved w (fst (begin_attempt ?w3 ?v b (0 < sv_n v))) (only_at b 1) still (only_at ?i (if 0 < sv_n v then 1 else 0))"
  proof -
    show "moved w (fst (begin_attempt ?w3 ?v b (0 < sv_n v))) (only_at b 1) still (only_at ?i (if 0 < sv_n v then 1 else 0))"
      using moved_trans [OF taken moved_begin_attempt [of b ?w3 ?v "0 < sv_n v"]] b len by simp
    then show "steady w (fst (begin_attempt ?w3 ?v b (0 < sv_n v)))" by (rule moved_steady)
  qed
  obtain f where f: "snd (begin_attempt ?w3 ?v b (0 < sv_n v)) = Forwarding f"
    "fl_serving f = ?v" "fl_backend f = b" "fl_retry f = (0 < sv_n v)"
    by (simp add: begin_attempt_def)
  have "flight_ok w f"
    using assms(2,3) sent(2-4) f by (simp add: flight_ok_def serving_ok_def Let_def)
  then have "flight_ok (fst (begin_attempt ?w3 ?v b (0 < sv_n v))) f"
    by (rule flight_ok_steady [OF _ assms(1) steady])
  with m f show ?thesis
    unfolding sent(6) turned_def by (auto simp: only_at_def intro: moved_cong)
qed

subsection \<open>One attempt's end\<close>

abbreviation fresh_attempt :: "world \<Rightarrow> flight \<Rightarrow> attempt" where
  "fresh_attempt w f \<equiv> \<lparr>at_err = None, at_status = 200, at_aborted = None, at_pin = fl_pin f,
     at_stickyCookie = cookieName (se_pins (w_settings w ! sv_active (fl_serving f)))\<rparr>"

text \<open>The error that fails an attempt, as the retry loop sees it.\<close>

definition attempt_error :: "world \<Rightarrow> flight \<Rightarrow> trip \<Rightarrow> err option" where
  "attempt_error w f t = at_err (fst (forward w (fresh_attempt w f) t))"

lemma attempt_error_eq:
  "attempt_error w f t =
     (case t of TripFails e \<Rightarrow> Some e
      | Responds status body \<Rightarrow>
          if se_retryOn5xx (w_settings w ! w_current w) \<and> 500 \<le> status then Some Retryable5xx
          else if status = 101 then Some OtherError else None)"
  by (cases t) (auto simp: attempt_error_def forward_def ErrorHandler_def ModifyResponse_def WriteHeader_def
      watched_read_def Let_def split: body_end.split)

lemma forward_panics: "snd (forward w a t) \<Longrightarrow> at_err (fst (forward w a t)) = at_err a"
  by (auto simp: forward_def WriteHeader_def watched_read_def Let_def split: trip.splits sum.splits body_end.splits if_splits)

lemma end_attempt_observe: "observe g (end_attempt w f) = end_attempt (observe g w) f"
  by (simp add: end_attempt_def observe_def on_budget_def on_settings_def Let_def)

lemma resume_cases:
  fixes lg w f t gone gone_later
  defines "v \<equiv> fl_serving f"
  obtains (answered) w1 a where "quiet w w1"
      "resume lg w f t gone gone_later = finish (end_attempt w1 f) (sv_active v) a"
  | (again) w1 e where "quiet w w1" "attempt_error w f t = Some e" "\<not> gone" "\<not> gone_later"
      "int (sv_n v) + 1 < se_attempts (w_settings w ! sv_active v) \<Longrightarrow> retryable (rq_method (sv_request v)) e"
      "resume lg w f t gone gone_later = offer lg (end_attempt w1 f) (v\<lparr>sv_n := sv_n v + 1\<rparr>)"
proof -
  obtain a panicked where fw: "forward w (fresh_attempt w f) t = (a, panicked)" by fastforce
  note resume = resume_def [of lg w f t, unfolded Let_def fw]
  have q: "quiet w (if c then failed w i b r else w)" for c i b r by (simp add: quiet_failed)
  show thesis
  proof (cases panicked)
    case True
    then show thesis using answered [OF q] by (simp add: resume v_def)
  next
    case ok: False
    show thesis
    proof (cases "at_err a")
      case None
      then show thesis using ok answered [OF quiet_succeeded] by (simp add: resume v_def)
    next
      case (Some e)
      then have err: "attempt_error w f t = Some e" using fw by (simp add: attempt_error_def)
      consider "gone \<or> gone_later"
        | "\<not> gone" "\<not> gone_later" "int (sv_n v) + 1 < se_attempts (w_settings w ! sv_active v)"
          "\<not> retryable (rq_method (sv_request v)) e"
        | "\<not> gone" "\<not> gone_later" "int (sv_n v) + 1 < se_attempts (w_settings w ! sv_active v) \<Longrightarrow>
             retryable (rq_method (sv_request v)) e"
        by blast
      then show thesis
      proof cases
        case 1
        then show thesis using ok Some answered [OF q] by (simp add: resume v_def)
      next
        case 2
        then show thesis
          using ok Some answered [of "observe (\<lambda>m. ObserveRejection m ''not_retryable'')
              (failed w (sv_active v) (fl_backend f) (failureReason e))" unavailable]
          by (simp add: resume v_def refuse_def quiet_failed end_attempt_observe)
      next
        case 3
        then have "resume lg w f t gone gone_later =
            offer lg (end_attempt (failed w (sv_active v) (fl_backend f) (failureReason e)) f) (v\<lparr>sv_n := sv_n v + 1\<rparr>)"
          using ok Some by (auto simp: resume v_def)
        with 3 show thesis by (intro again [OF quiet_failed err]) auto
      qed
    qed
  qed
qed

lemma end_attempt_moved:
  assumes "world_ok w" "flight_ok w f" "quiet w w1"
  shows "moved w (end_attempt w1 f) (\<lambda>b. - flying b (Forwarding f)) still (\<lambda>i. - retrying_in i (Forwarding f))"
proof -
  have i: "sv_active (fl_serving f) < length (w_settings w)"
    and b: "fl_backend f \<in> set (se_backends (w_settings w ! sv_active (fl_serving f)))"
    using assms(2) by (simp_all add: flight_ok_def serving_ok_def Let_def)
  have "fl_backend f < length (w_heap w1)"
    using refs_of_settings [OF assms(1) i b] quiet_heap(1) [OF assms(3)] by simp
  from moved_trans [OF moved_quiet [OF assms(3)] moved_end_attempt [OF this]]
  show ?thesis by (auto simp: only_at_def intro: moved_cong)
qed

text \<open>What a process in flight and what it becomes contribute differ by how the counters move.\<close>

lemma resume_accounts:
  assumes "world_ok w" "flight_ok w f" "resume lg w f t gone gone_later = (w', p)"
  shows "moved w w' (\<lambda>b. flying b p - flying b (Forwarding f)) (\<lambda>i. serving_in i p - serving_in i (Forwarding f))
           (\<lambda>i. retrying_in i p - retrying_in i (Forwarding f)) \<and> process_ok w' p"
proof -
  let ?v = "fl_serving f"
  have sv: "serving_ok w ?v" "length (sv_tried ?v) = sv_n ?v + 1"
    using assms(2) by (simp_all add: flight_ok_def Let_def)
  have settle: ?thesis if "quiet w w1" "turned (end_attempt w1 f) v' w' p" "sv_active v' = sv_active ?v" for w1 v'
  proof -
    have "moved (end_attempt w1 f) w' (\<lambda>b. flying b p) (\<lambda>i. serving_in i p - only_at (sv_active ?v) 1 i) (\<lambda>i. retrying_in i p)"
      and ok: "process_ok w' p"
      using that(2,3) by (simp_all add: turned_def)
    from moved_trans [OF end_attempt_moved [OF assms(1,2) that(1)] this(1)] ok
    show ?thesis by (auto simp: only_at_def intro: moved_cong)
  qed
  show ?thesis
  proof (cases rule: resume_cases [where w = w and f = f and lg = lg and t = t and gone = gone and gone_later = gone_later])
    case (answered w1 a)
    have "turned (end_attempt w1 f) ?v w' p"
      using turned_finish [of "end_attempt w1 f" ?v a] assms(3) answered(2) by (metis fst_conv snd_conv)
    then show ?thesis by (rule settle [OF answered(1)]) simp
  next
    case (again w1 e)
    let ?next = "?v\<lparr>sv_n := sv_n ?v + 1\<rparr>"
    note m = end_attempt_moved [OF assms(1,2) again(1)]
    have "serving_ok (end_attempt w1 f) ?next"
      using serving_ok_steady [OF sv(1) assms(1) moved_steady [OF m]] by (simp add: serving_ok_def)
    then have "turned (end_attempt w1 f) ?next w' p"
      using offer_turned [OF moved_world [OF m assms(1)], of ?next lg] sv(2) again(6) assms(3)
      by (auto simp: prod_eq_iff)
    then show ?thesis by (rule settle [OF again(1)]) simp
  qed
qed

lemma begin_request_accounts:
  assumes "world_ok w" "i < length (w_settings w)" "begin_request lg w r i = (w', p)"
  shows "moved w w' (\<lambda>b. flying b p) (\<lambda>i. serving_in i p) (\<lambda>i. retrying_in i p) \<and> process_ok w' p"
proof (cases "replayableBody r (w_settings w ! i)")
  case (Inl e)
  then show ?thesis using assms(3) moved_quiet [of w] by (auto simp: begin_request_def Let_def)
next
  case (Inr body)
  obtain pinned cookie where pin: "read (se_pins (w_settings w ! i)) r = (pinned, cookie)" by fastforce
  let ?w1 = "on_budget i requestStarted w"
  let ?v = "\<lparr>sv_request = r, sv_active = i, sv_body = body, sv_key = se_hashKey (w_settings w ! i) r,
     sv_pinned = pinned, sv_cookie = cookie, sv_tried = [], sv_n = 0\<rparr>"
  have m: "moved w ?w1 still (only_at i 1) still"
    using moved_budget [of requestStarted 1 0 w i] by (simp add: requestStarted_def)
  have "turned ?w1 ?v (fst (offer lg ?w1 ?v)) (snd (offer lg ?w1 ?v))"
    using assms(2) by (intro offer_turned moved_world [OF m assms(1)]) (simp_all add: serving_ok_def)
  then have t: "turned ?w1 ?v w' p" using assms(3) Inr pin by (simp add: begin_request_def)
  have "moved ?w1 w' (\<lambda>b. flying b p) (\<lambda>j. serving_in j p - only_at i 1 j) (\<lambda>j. retrying_in j p)" "process_ok w' p"
    using t by (simp_all add: turned_def)
  from moved_trans [OF m this(1)] this(2) show ?thesis by (auto intro: moved_cong)
qed

end
