(* ===== verification/Observability.thy ===== *)
theory Observability
  imports Health
begin

text \<open>
  \<open>internal/observability\<close> without the counters: the live state of the pool (\<open>pool.go\<close>), as gauges
  and as the document of \<open>/status\<close>; the probes \<open>/healthz\<close> and \<open>/readyz\<close> (\<open>probes.go\<close>); and the
  level of the logger (\<open>logging.go\<close>). The checker and the heap of backends are shared with the proxy and
  are arguments. The lemmas: what \<open>/status\<close> and the gauges say agree with each other and with the
  checker, and \<open>/readyz\<close> agrees with \<open>/status\<close>.
\<close>

subsection \<open>The pool\<close>

record pool =
  po_algorithm :: string
  po_sticky :: string
  po_backends :: "bref list"
  po_reloads :: int

definition NewPool :: "string \<Rightarrow> bref list \<Rightarrow> pool" where
  "NewPool algorithm bs = \<lparr>po_algorithm = algorithm, po_sticky = [], po_backends = bs, po_reloads = 0\<rparr>"

definition Pool_Reload :: "pool \<Rightarrow> string \<Rightarrow> bref list \<Rightarrow> pool" where
  "Pool_Reload p algorithm bs = p\<lparr>po_algorithm := algorithm, po_backends := bs, po_reloads := po_reloads p + 1\<rparr>"

definition SetSticky :: "pool \<Rightarrow> string \<Rightarrow> pool" where
  "SetSticky p mode = p\<lparr>po_sticky := mode\<rparr>"

definition snapshot :: "pool \<Rightarrow> string \<times> bref list" where
  "snapshot p = (po_algorithm p, po_backends p)"

text \<open>A gauge: its name, its value, and the backend it is about.\<close>

type_synonym gauge = "string \<times> rat \<times> string"

definition Pool_Collect :: "pool \<Rightarrow> HTTPChecker \<Rightarrow> heap \<Rightarrow> gauge list" where
  "Pool_Collect p hc h =
     concat (map (\<lambda>b. [(''lb_backend_active_connections'', float_of_int (ActiveConnections h b), addr_of h b),
                        (''lb_backend_healthy'', if IsHealthy hc (addr_of h b) then 1 else 0, addr_of h b)])
       (snd (snapshot p)))"

record backendStatus =
  bs_addr :: string
  bs_weight :: int
  bs_healthy :: bool
  bs_active :: int

record status =
  ss_algorithm :: string
  ss_sticky :: string
  ss_reloads :: int
  ss_healthy :: int
  ss_total :: int
  ss_backends :: "backendStatus list"

fun status_loop :: "HTTPChecker \<Rightarrow> heap \<Rightarrow> status \<Rightarrow> bref list \<Rightarrow> status" where
  "status_loop hc h current [] = current"
| "status_loop hc h current (b # bs) =
     (let healthy = IsHealthy hc (addr_of h b);
          counted = (if healthy then current\<lparr>ss_healthy := ss_healthy current + 1\<rparr> else current)
      in status_loop hc h
           (counted\<lparr>ss_backends := ss_backends counted @
              [\<lparr>bs_addr = addr_of h b, bs_weight = Weight h b, bs_healthy = healthy,
                bs_active = ActiveConnections h b\<rparr>]\<rparr>) bs)"

definition StatusHandler :: "pool \<Rightarrow> HTTPChecker \<Rightarrow> heap \<Rightarrow> status" where
  "StatusHandler p hc h =
     (case snapshot p of
        (algorithm, bs) \<Rightarrow>
          status_loop hc h
            \<lparr>ss_algorithm = algorithm, ss_sticky = po_sticky p, ss_reloads = po_reloads p, ss_healthy = 0,
             ss_total = int (length bs), ss_backends = []\<rparr> bs)"

subsection \<open>The probes\<close>

record probes =
  pr_draining :: bool

definition NewProbes :: probes where
  "NewProbes = \<lparr>pr_draining = False\<rparr>"

definition Drain :: "probes \<Rightarrow> probes" where
  "Drain p = p\<lparr>pr_draining := True\<rparr>"

definition answer_text :: "int \<Rightarrow> string \<Rightarrow> int \<times> string" where
  "answer_text code message = (code, message @ [CHR 0x0A])"

definition LiveHandler :: "int \<times> string" where
  "LiveHandler = answer_text 200 ''ok''"

definition anyHealthy :: "pool \<Rightarrow> HTTPChecker \<Rightarrow> heap \<Rightarrow> bool" where
  "anyHealthy p hc h = list_ex (\<lambda>b. IsHealthy hc (addr_of h b)) (snd (snapshot p))"

definition ReadyHandler :: "probes \<Rightarrow> pool \<Rightarrow> HTTPChecker \<Rightarrow> heap \<Rightarrow> int \<times> string" where
  "ReadyHandler pr p hc h =
     (if pr_draining pr then answer_text 503 ''shutting down''
      else if \<not> anyHealthy p hc h then answer_text 503 ''no healthy backend''
      else answer_text 200 ''ok'')"

subsection \<open>The logger's level\<close>

definition slog_debug :: int where "slog_debug = - 4"
definition slog_info :: int where "slog_info = 0"
definition slog_warn :: int where "slog_warn = 4"
definition slog_error :: int where "slog_error = 8"

definition levelOf :: "string \<Rightarrow> int" where
  "levelOf level =
     (if level = LevelDebug then slog_debug
      else if level = LevelWarn then slog_warn
      else if level = LevelError then slog_error
      else slog_info)"

subsection \<open>What is reported\<close>

lemma status_loop_spec:
  "status_loop hc h s bs =
     s\<lparr>ss_healthy := ss_healthy s + int (length (filter (\<lambda>b. IsHealthy hc (addr_of h b)) bs)),
       ss_backends := ss_backends s @ map (\<lambda>b. \<lparr>bs_addr = addr_of h b, bs_weight = Weight h b,
         bs_healthy = IsHealthy hc (addr_of h b), bs_active = ActiveConnections h b\<rparr>) bs\<rparr>"
  by (induction bs arbitrary: s) (simp_all add: Let_def)

lemma StatusHandler_spec:
  "StatusHandler p hc h =
     \<lparr>ss_algorithm = po_algorithm p, ss_sticky = po_sticky p, ss_reloads = po_reloads p,
      ss_healthy = int (length (filter (\<lambda>b. IsHealthy hc (addr_of h b)) (po_backends p))),
      ss_total = int (length (po_backends p)),
      ss_backends = map (\<lambda>b. \<lparr>bs_addr = addr_of h b, bs_weight = Weight h b,
         bs_healthy = IsHealthy hc (addr_of h b), bs_active = ActiveConnections h b\<rparr>) (po_backends p)\<rparr>"
  by (simp add: StatusHandler_def snapshot_def status_loop_spec)

text \<open>
  \<open>/readyz\<close> answers 200 exactly while the balancer is not draining and \<open>/status\<close> counts a healthy
  backend; and the healthy count of \<open>/status\<close> is the number of its entries marked healthy, never more than
  the total.
\<close>

lemma ready_agrees_with_status:
  "(fst (ReadyHandler pr p hc h) = 200 \<longleftrightarrow> \<not> pr_draining pr \<and> 0 < ss_healthy (StatusHandler p hc h))
   \<and> ss_healthy (StatusHandler p hc h) = int (length (filter bs_healthy (ss_backends (StatusHandler p hc h))))
   \<and> ss_healthy (StatusHandler p hc h) \<le> ss_total (StatusHandler p hc h)
   \<and> ss_total (StatusHandler p hc h) = int (length (ss_backends (StatusHandler p hc h)))"
  by (auto simp: ReadyHandler_def answer_text_def anyHealthy_def snapshot_def StatusHandler_spec list_ex_iff
      filter_map o_def filter_empty_conv)

text \<open>The gauges of a scrape and the document say the same of every backend.\<close>

lemma Pool_Collect_agrees_with_status:
  "Pool_Collect p hc h =
     concat (map (\<lambda>s. [(''lb_backend_active_connections'', float_of_int (bs_active s), bs_addr s),
                        (''lb_backend_healthy'', if bs_healthy s then 1 else 0, bs_addr s)])
       (ss_backends (StatusHandler p hc h)))"
  by (simp add: Pool_Collect_def StatusHandler_spec snapshot_def o_def)

lemma Drain_is_final: "fst (ReadyHandler (Drain pr) p hc h) = 503"
  by (simp add: ReadyHandler_def Drain_def answer_text_def)

end
