(* ===== verification/Server.thy ===== *)
theory Server
  imports Configuration
begin

text \<open>
  \<open>internal/server\<close>: the two servers, how one runs and stops (\<open>server.go\<close>), and the listener that bounds
  the connections open at once (\<open>limitlistener.go\<close>). Binding a socket and \<open>http.Server\<close> are the
  library's: their outcomes are arguments. The listener is a state machine, since connections are accepted
  and closed by many goroutines: \<open>Accept\<close> waits for a slot, then for a connection; \<open>Close\<close> closes the
  connection and then gives its slot back, once. The lemmas: slots are neither leaked nor given back twice,
  and no more connections are open than the limit.
\<close>

subsection \<open>The servers\<close>

definition shutdownGrace :: duration where
  "shutdownGrace = 30 * nanos_per_second"

record server =
  sr_name :: string
  sr_addr :: string
  sr_slots :: "int option"
  sr_read_timeout :: duration
  sr_write_timeout :: duration
  sr_idle_timeout :: duration

datatype server_error = ListenFailed string | ServeFailed string | ShutdownFailed string

text \<open>\<open>net.Listen\<close>: the address bound, or the error.\<close>

definition listen :: "(string \<Rightarrow> string + string) \<Rightarrow> string \<Rightarrow> server_error + string" where
  "listen net addr = (case net addr of Inl e \<Rightarrow> Inl (ListenFailed addr) | Inr bound \<Rightarrow> Inr bound)"

definition New :: "(string \<Rightarrow> string + string) \<Rightarrow> Config \<Rightarrow> server_error + server" where
  "New net cfg =
     (case listen net (c_listen_addr cfg) of
        Inl e \<Rightarrow> Inl e
      | Inr bound \<Rightarrow>
          Inr \<lparr>sr_name = ''proxy'', sr_addr = bound, sr_slots = Some (li_max_connections (c_limits cfg)),
               sr_read_timeout = to_read (c_timeouts cfg), sr_write_timeout = to_write (c_timeouts cfg),
               sr_idle_timeout = to_idle (c_timeouts cfg)\<rparr>)"

definition NewMetrics :: "(string \<Rightarrow> string + string) \<Rightarrow> Config \<Rightarrow> server_error + server" where
  "NewMetrics net cfg =
     (case listen net (c_metrics_addr cfg) of
        Inl e \<Rightarrow> Inl e
      | Inr bound \<Rightarrow>
          Inr \<lparr>sr_name = ''metrics'', sr_addr = bound, sr_slots = None,
               sr_read_timeout = to_read (c_timeouts cfg), sr_write_timeout = to_write (c_timeouts cfg),
               sr_idle_timeout = to_idle (c_timeouts cfg)\<rparr>)"

text \<open>
  What \<open>Run\<close> waits for: \<open>Serve\<close> returning, with \<open>None\<close> for \<open>http.ErrServerClosed\<close>, or the context,
  after which \<open>Shutdown\<close> ends within the grace period or does not.
\<close>

datatype run_end = ServeReturned "string option" | ContextDone "string option"

definition shutdown :: "string option \<Rightarrow> server_error option" where
  "shutdown result = (case result of Some e \<Rightarrow> Some (ShutdownFailed e) | None \<Rightarrow> None)"

definition Run :: "run_end \<Rightarrow> server_error option" where
  "Run ev =
     (case ev of
        ServeReturned None \<Rightarrow> None
      | ServeReturned (Some e) \<Rightarrow> Some (ServeFailed e)
      | ContextDone result \<Rightarrow> shutdown result)"

subsection \<open>The listener\<close>

text \<open>
  A connection handed out: whether the network connection is still open, and whether its slot was given back
  (\<open>once\<close>). \<open>li_waiting\<close> are the calls of \<open>Accept\<close> that hold a slot and wait for a connection.
\<close>

record limitConn =
  lc_open :: bool
  lc_released :: bool

record limitListener =
  ll_limit :: nat
  ll_slots :: nat
  ll_waiting :: nat
  ll_conns :: "limitConn list"

definition newLimitListener :: "nat \<Rightarrow> limitListener" where
  "newLimitListener limit = \<lparr>ll_limit = limit, ll_slots = 0, ll_waiting = 0, ll_conns = []\<rparr>"

text \<open>\<open>Accept\<close>: the send on \<open>slots\<close>, which blocks while the channel is full, and the two ends of the wait.\<close>

definition take_slot :: "limitListener \<Rightarrow> limitListener option" where
  "take_slot l =
     (if ll_slots l < ll_limit l
      then Some (l\<lparr>ll_slots := ll_slots l + 1, ll_waiting := ll_waiting l + 1\<rparr>) else None)"

definition accepted :: "limitListener \<Rightarrow> bool \<Rightarrow> limitListener" where
  "accepted l ok =
     (if \<not> ok then l\<lparr>ll_slots := ll_slots l - 1, ll_waiting := ll_waiting l - 1\<rparr>
      else l\<lparr>ll_waiting := ll_waiting l - 1, ll_conns := ll_conns l @ [\<lparr>lc_open = True, lc_released = False\<rparr>]\<rparr>)"

text \<open>\<open>Close\<close>: the connection first, then the slot, unless an earlier \<open>Close\<close> gave it back.\<close>

definition close_conn :: "limitListener \<Rightarrow> nat \<Rightarrow> limitListener" where
  "close_conn l i = l\<lparr>ll_conns := (ll_conns l)[i := (ll_conns l ! i)\<lparr>lc_open := False\<rparr>]\<rparr>"

definition release_once :: "limitListener \<Rightarrow> nat \<Rightarrow> limitListener" where
  "release_once l i =
     (if lc_released (ll_conns l ! i) then l
      else l\<lparr>ll_slots := ll_slots l - 1, ll_conns := (ll_conns l)[i := (ll_conns l ! i)\<lparr>lc_released := True\<rparr>]\<rparr>)"

inductive listener_step :: "limitListener \<Rightarrow> limitListener \<Rightarrow> bool" where
  Slot: "take_slot l = Some l' \<Longrightarrow> listener_step l l'"
| Accepted: "0 < ll_waiting l \<Longrightarrow> listener_step l (accepted l ok)"
| CloseConn: "i < length (ll_conns l) \<Longrightarrow> listener_step l (close_conn l i)"
| Release: "i < length (ll_conns l) \<Longrightarrow> \<not> lc_open (ll_conns l ! i) \<Longrightarrow> listener_step l (release_once l i)"

inductive listener_reach :: "nat \<Rightarrow> limitListener \<Rightarrow> bool" for limit where
  Start: "listener_reach limit (newLimitListener limit)"
| Step: "listener_reach limit l \<Longrightarrow> listener_step l l' \<Longrightarrow> listener_reach limit l'"

inductive_cases listener_stepE: "listener_step l l'"

definition held_slots :: "limitConn list \<Rightarrow> nat" where
  "held_slots cs = length (filter (\<lambda>c. \<not> lc_released c) cs)"

definition open_conns :: "limitConn list \<Rightarrow> nat" where
  "open_conns cs = length (filter lc_open cs)"

definition listener_inv :: "nat \<Rightarrow> limitListener \<Rightarrow> bool" where
  "listener_inv limit l \<longleftrightarrow>
     ll_limit l = limit \<and> ll_slots l = ll_waiting l + held_slots (ll_conns l) \<and> ll_slots l \<le> limit
     \<and> list_all (\<lambda>c. lc_open c \<longrightarrow> \<not> lc_released c) (ll_conns l)"

lemma held_slots_simps [simp]:
  "held_slots [] = 0" "held_slots (c # cs) = (if lc_released c then 0 else 1) + held_slots cs"
  "held_slots (cs @ ds) = held_slots cs + held_slots ds"
  by (simp_all add: held_slots_def)

lemma held_slots_update:
  "i < length cs \<Longrightarrow> held_slots (cs[i := c]) + (if lc_released (cs ! i) then 0 else 1) =
     held_slots cs + (if lc_released c then 0 else 1)"
proof (induction cs arbitrary: i)
  case (Cons x cs)
  show ?case
  proof (cases i)
    case (Suc j)
    then show ?thesis using Cons.IH [of j] Cons.prems by simp
  qed simp
qed simp

lemma list_all_update: "list_all P cs \<Longrightarrow> P c \<Longrightarrow> list_all P (cs[i := c])"
  unfolding list_all_iff by (metis insertE set_update_subset_insert subsetD)

lemma listener_inv_step:
  assumes "listener_inv limit l" "listener_step l l'"
  shows "listener_inv limit l'"
  using assms(2)
proof (cases rule: listener_step.cases)
  case Slot
  with assms(1) show ?thesis by (auto simp: listener_inv_def take_slot_def split: if_splits)
next
  case (Accepted ok)
  with assms(1) show ?thesis by (auto simp: listener_inv_def accepted_def)
next
  case (CloseConn i)
  have "held_slots ((ll_conns l)[i := (ll_conns l ! i)\<lparr>lc_open := False\<rparr>]) = held_slots (ll_conns l)"
    using held_slots_update [OF CloseConn(2), of "(ll_conns l ! i)\<lparr>lc_open := False\<rparr>"] by simp
  then show ?thesis using assms(1) CloseConn by (auto simp: listener_inv_def close_conn_def intro!: list_all_update)
next
  case (Release i)
  have "held_slots ((ll_conns l)[i := (ll_conns l ! i)\<lparr>lc_released := True\<rparr>]) + (if lc_released (ll_conns l ! i) then 0 else 1) =
      held_slots (ll_conns l)"
    using held_slots_update [OF Release(2), of "(ll_conns l ! i)\<lparr>lc_released := True\<rparr>"] by simp
  then show ?thesis
    using assms(1) Release by (auto simp: listener_inv_def release_once_def intro!: list_all_update)
qed

lemma listener_reach_inv: "listener_reach limit l \<Longrightarrow> listener_inv limit l"
proof (induction rule: listener_reach.induct)
  case Start
  show ?case by (simp add: listener_inv_def newLimitListener_def)
qed (rule listener_inv_step)

text \<open>
  C28: However accepting and closing interleave, and however often a connection is closed, no more
  connections are open than the limit; and once every connection is closed and its slot given back, every
  slot but those of the waiting calls is free again.
\<close>

lemma connections_within_limit:
  assumes "listener_reach limit l"
  shows "open_conns (ll_conns l) + ll_waiting l \<le> limit
     \<and> (list_all lc_released (ll_conns l) \<longrightarrow> ll_slots l = ll_waiting l)"
proof -
  note inv = listener_reach_inv [OF assms]
  have "open_conns cs \<le> held_slots cs" if "list_all (\<lambda>c. lc_open c \<longrightarrow> \<not> lc_released c) cs" for cs
    using that by (induction cs) (auto simp: open_conns_def)
  moreover have "held_slots cs = 0" if "list_all lc_released cs" for cs
    using that by (induction cs) auto
  ultimately show ?thesis using inv by (fastforce simp: listener_inv_def)
qed

definition ex_listener :: limitListener where
  "ex_listener = close_conn (accepted (the (take_slot (newLimitListener 1))) True) 0"

lemma ex_listener_reached: "listener_reach 1 ex_listener"
proof -
  have "listener_reach 1 (the (take_slot (newLimitListener 1)))"
    by (rule listener_reach.Step [OF listener_reach.Start listener_step.Slot]) (simp add: take_slot_def newLimitListener_def)
  then have "listener_reach 1 (accepted (the (take_slot (newLimitListener 1))) True)"
    by (rule listener_reach.Step [OF _ listener_step.Accepted]) (simp add: take_slot_def newLimitListener_def)
  then show ?thesis unfolding ex_listener_def
    by (rule listener_reach.Step [OF _ listener_step.CloseConn])
      (simp add: take_slot_def newLimitListener_def accepted_def)
qed

lemma connections_within_limit_witness: "open_conns (ll_conns ex_listener) + ll_waiting ex_listener \<le> 1"
  using connections_within_limit [OF ex_listener_reached] by simp

end
