(* ===== verification/App.thy ===== *)
theory App
  imports Proxy_Requests Observability Server
begin

text \<open>
  \<open>internal/app/app.go\<close> and the constructor of \<open>internal/proxy\<close>: how the parts are put together, and how a
  reload replaces what can be replaced while requests are served. The environment, the file and its decoder,
  and the binding of sockets are arguments. What the code logs is the list of log records it returns. The
  lemmas: what assembling a valid configuration gives is well formed; a rejected reload changes nothing
  but its counter; and an applied one leaves every request in flight what it works with.
\<close>

subsection \<open>The handler\<close>

text \<open>
  \<open>proxy.New\<close>: \<open>given\<close> is the secret of the option \<open>WithStickySecret\<close>, and \<open>fresh\<close> a secret just made.
\<close>

definition Handler_New ::
  "(string \<Rightarrow> string \<Rightarrow> string) \<Rightarrow> Config \<Rightarrow> strategy \<Rightarrow> heap \<Rightarrow> bref list \<Rightarrow> HTTPChecker \<Rightarrow> metrics \<Rightarrow> string option
    \<Rightarrow> string \<Rightarrow> tape \<Rightarrow> time \<Rightarrow> world" where
  "Handler_New mac cfg strategy h bs hc metrics given fresh tape now =
     (let core_secret = (case given of Some s \<Rightarrow> s | None \<Rightarrow> []);
          secret = (if core_secret = [] then fresh else core_secret)
      in \<lparr>w_heap = h, w_strategies = [strategy], w_settings = [settingsFor mac cfg 0 h bs secret], w_current = 0,
          w_checker = hc, w_limiter = newRateLimiter (li_rate_limit_per_ip (c_limits cfg)),
          w_metrics = prepareMetrics h bs metrics, w_secret = secret, w_tape = tape, w_now = now\<rparr>)"

subsection \<open>The application\<close>

definition minStickySecret :: nat where
  "minStickySecret = 32"

datatype app_error =
    AlgorithmUnknownError string
  | StickySecretTooShort
  | ServerError server_error
  | LoadError load_error

record app =
  ap_secretGiven :: bool
  ap_traffic :: server
  ap_admin :: server
  ap_world :: world
  ap_pool :: pool
  ap_probes :: probes
  ap_cfg :: Config
  ap_backends :: "bref list"

definition stickySecret :: "string \<Rightarrow> app_error + string option" where
  "stickySecret env =
     (if env = [] then Inr None
      else if length env < minStickySecret then Inl StickySecretTooShort
      else Inr (Some env))"

datatype log =
    ReloadRejected | ConfigWarning "duration \<times> duration" | UnsharedPins
  | NeedsRestart "restart_field list" | Reloaded string nat string

definition warnOfUnsharedPins :: "Config \<Rightarrow> bool \<Rightarrow> log list" where
  "warnOfUnsharedPins cfg secretGiven =
     (if sk_mode (c_sticky cfg) = StickyCookie \<and> \<not> secretGiven then [UnsharedPins] else [])"

definition App_New ::
  "(string \<Rightarrow> string \<Rightarrow> string) \<Rightarrow> (string \<Rightarrow> string + string) \<Rightarrow> string \<Rightarrow> string \<Rightarrow> tape \<Rightarrow> time \<Rightarrow> Config
    \<Rightarrow> app_error + app \<times> log list" where
  "App_New mac net env fresh tape now cfg =
     (case Strategies.New (c_algorithm cfg) (c_consistent_hash cfg) of
        Inl alg \<Rightarrow> Inl (AlgorithmUnknownError alg)
      | Inr strategy \<Rightarrow>
          (case BackendsFromConfig [] (c_backends cfg) of
             (h, bs) \<Rightarrow>
               (let hc = Health.New (c_health_check cfg);
                    pool = SetSticky (NewPool (Name strategy) bs) (sk_mode (c_sticky cfg))
                in case stickySecret env of
                     Inl e \<Rightarrow> Inl e
                   | Inr secret \<Rightarrow>
                       (let w = Handler_New mac cfg strategy h bs hc Metrics.NewMetrics secret fresh tape now
                        in case Server.New net cfg of
                             Inl e \<Rightarrow> Inl (ServerError e)
                           | Inr traffic \<Rightarrow>
                               (case Server.NewMetrics net cfg of
                                  Inl e \<Rightarrow> Inl (ServerError e)
                                | Inr admin \<Rightarrow>
                                    Inr (\<lparr>ap_secretGiven = (secret \<noteq> None), ap_traffic = traffic, ap_admin = admin,
                                          ap_world = w, ap_pool = pool, ap_probes = NewProbes, ap_cfg = cfg,
                                          ap_backends = bs\<rparr>,
                                         warnOfUnsharedPins cfg (secret \<noteq> None)))))))"

text \<open>
  \<open>Reload\<close>: which strategy the new configuration runs under, a new one or the one in use, and what is
  swapped once nothing can fail any more.
\<close>

definition swap_strategy :: "app \<Rightarrow> Config \<Rightarrow> Algorithm + strategy list \<times> nat" where
  "swap_strategy a new =
     (let w = ap_world a
      in if c_algorithm new \<noteq> c_algorithm (ap_cfg a) \<or> c_consistent_hash new \<noteq> c_consistent_hash (ap_cfg a)
         then (case Strategies.New (c_algorithm new) (c_consistent_hash new) of
                 Inl alg \<Rightarrow> Inl alg
               | Inr s \<Rightarrow> Inr (w_strategies w @ [s], length (w_strategies w)))
         else Inr (w_strategies w, Handler_Strategy w))"

definition apply_reload ::
  "(string \<Rightarrow> string \<Rightarrow> string) \<Rightarrow> app \<Rightarrow> Config \<Rightarrow> strategy list \<Rightarrow> nat \<Rightarrow> app" where
  "apply_reload mac a new strategies k =
     (let w = ap_world a;
          (h, bs) = MergeBackends (w_heap w) (ap_backends a) (c_backends new);
          w1 = Handler_Reload mac (w\<lparr>w_heap := h, w_strategies := strategies\<rparr>) new k bs;
          w2 = w1\<lparr>w_checker := fst (Health.Reload (w_checker w1) (c_health_check new) h bs)\<rparr>;
          pool = SetSticky (Pool_Reload (ap_pool a) (Name (strategies ! k)) bs) (sk_mode (c_sticky new))
      in a\<lparr>ap_world := observe (\<lambda>m. ObserveReload m ''applied'') w2, ap_pool := pool, ap_cfg := new, ap_backends := bs\<rparr>)"

text \<open>\<open>Reload\<close>, with what reading and decoding the file gives as \<open>decode\<close> and \<open>file\<close>.\<close>

definition App_Reload ::
  "(string \<Rightarrow> string \<Rightarrow> string) \<Rightarrow> (string \<Rightarrow> Config option) \<Rightarrow> string option \<Rightarrow> app
    \<Rightarrow> app_error option \<times> app \<times> log list" where
  "App_Reload mac decode file a =
     (let rejected = a\<lparr>ap_world := observe (\<lambda>m. ObserveReload m ''rejected'') (ap_world a)\<rparr>
      in case Load decode file of
           Inl e \<Rightarrow> (Some (LoadError e), rejected, [ReloadRejected])
         | Inr new \<Rightarrow>
             (let fixed = RequiresRestart (ap_cfg a) new;
                  logs = map ConfigWarning (Warnings new)
                       @ (if sk_mode (c_sticky (ap_cfg a)) \<noteq> StickyCookie then warnOfUnsharedPins new (ap_secretGiven a) else [])
                       @ (if fixed \<noteq> [] then [NeedsRestart fixed] else [])
              in case swap_strategy a new of
                   Inl alg \<Rightarrow> (Some (AlgorithmUnknownError alg), rejected, logs @ [ReloadRejected])
                 | Inr (strategies, k) \<Rightarrow>
                     (None, apply_reload mac a new strategies k,
                      logs @ [Reloaded (Name (strategies ! k)) (length (c_backends new)) (c_failure_policy new)])))"

text \<open>The start of \<open>Run\<close>: probing begins.\<close>

definition App_Start :: "app \<Rightarrow> app" where
  "App_Start a =
     (let w = ap_world a
      in a\<lparr>ap_world := w\<lparr>w_checker := fst (Health.Start (w_checker w) (w_heap w) (ap_backends a))\<rparr>\<rparr>)"

subsection \<open>What assembling gives\<close>

definition app_ok :: "app \<Rightarrow> bool" where
  "app_ok a \<longleftrightarrow> world_ok (ap_world a) \<and> refs_ok (w_heap (ap_world a)) (ap_backends a)"

lemma merge_loop_refs:
  "merge_loop h known cs = (h', ps) \<Longrightarrow> known_ok h known \<Longrightarrow> refs_ok h' ps"
proof (induction cs arbitrary: h h' ps)
  case (Cons w cs)
  obtain h1 p where one: "merge_one h known w = (h1, p)" by fastforce
  obtain ps' where rest: "merge_loop h1 known cs = (h', ps')" and ps: "ps = p # ps'"
    using Cons.prems(1) one by (auto split: prod.splits)
  note spec = merge_one_spec [OF one Cons.prems(2)]
  have ok1: "known_ok h1 known" using spec(1) Cons.prems(2) by (rule extends_heap_known)
  have "p < length h'" using merge_loop_spec(1) [OF rest ok1] spec(2) by (simp add: extends_heap_def)
  then show ?case using Cons.IH [OF rest ok1] ps by simp
qed simp

lemma MergeBackends_refs:
  assumes "MergeBackends h existing configured = (h', ps)" "refs_ok h existing"
  shows "refs_ok h' ps" "extends_heap h h'"
proof -
  have known: "known_ok h (known_backends h existing)"
    using assms(2) by (intro known_ok_known_backends) (simp add: refs_ok_def)
  show "refs_ok h' ps" "extends_heap h h'"
    using merge_loop_refs [OF _ known] merge_loop_spec(1) [OF _ known] assms(1) by (simp_all add: MergeBackends_def)
qed

lemma App_New_ok:
  assumes "App_New mac net env fresh tape now cfg = Inr (a, logs)"
  shows "app_ok a" and "ap_cfg a = cfg" and "w_current (ap_world a) = 0" and "length (w_settings (ap_world a)) = 1"
proof -
  obtain h bs where m: "BackendsFromConfig [] (c_backends cfg) = (h, bs)" by fastforce
  then have "MergeBackends [] [] (c_backends cfg) = (h, bs)" by (simp add: BackendsFromConfig_def)
  then have "refs_ok h bs" by (rule MergeBackends_refs) simp
  then show "app_ok a" "ap_cfg a = cfg" "w_current (ap_world a) = 0" "length (w_settings (ap_world a)) = 1"
    using assms m
    by (auto simp: App_New_def Handler_New_def app_ok_def world_ok_def settings_ok_def settingsFor_def Let_def
        split: sum.splits prod.splits)
qed

subsection \<open>Reloading\<close>

text \<open>
  C29: A reload fails only when there is no valid configuration to read: the file cannot be read, or what is
  decoded from it does not pass validation (the failure to make the algorithm, which the code provides
  for, never happens). A failed reload leaves the balancer as it was, down to every counter, backend,
  setting, bucket, circuit and the state of every probe: it is counted as rejected, and nothing else changes.
\<close>

lemma rejected_reload_changes_nothing:
  assumes "App_Reload mac decode file a = (Some e, a', logs)"
  shows "a' = a\<lparr>ap_world := (ap_world a)\<lparr>w_metrics := ObserveReload (w_metrics (ap_world a)) ''rejected''\<rparr>\<rparr>
     \<and> (\<nexists>new. Load decode file = Inr new \<and> validate new = [])"
proof -
  have valid: "\<exists>s. Strategies.New (c_algorithm new) (c_consistent_hash new) = Inr s" if "validate new = []" for new
    using that unfolding validate_Nil_iff rest_ok_def by (auto simp: Strategies.New_def constant_defs)
  show ?thesis
  proof (cases "Load decode file")
    case (Inl l)
    then show ?thesis using assms by (auto simp: App_Reload_def Let_def observe_def)
  next
    case (Inr new)
    have "validate new = []" using Inr by (auto simp: Load_def Let_def split: option.splits if_splits)
    from valid [OF this] obtain s where "Strategies.New (c_algorithm new) (c_consistent_hash new) = Inr s" by blast
    then show ?thesis using assms Inr by (auto simp: App_Reload_def swap_strategy_def Let_def split: if_splits)
  qed
qed

lemma App_Reload_rejects: "fst (App_Reload mac (\<lambda>_. None) file a) \<noteq> None"
  by (simp add: App_Reload_def Load_def Let_def split: option.split)

definition ex_app :: app where
  "ex_app = \<lparr>ap_secretGiven = False,
     ap_traffic = \<lparr>sr_name = ''proxy'', sr_addr = '':8080'', sr_slots = Some 10, sr_read_timeout = 1,
       sr_write_timeout = 1, sr_idle_timeout = 1\<rparr>,
     ap_admin = \<lparr>sr_name = ''metrics'', sr_addr = '':8081'', sr_slots = None, sr_read_timeout = 1,
       sr_write_timeout = 1, sr_idle_timeout = 1\<rparr>,
     ap_world = Handler_New ex_mac ex_file_config (RoundRobinStrategy 0) ex_pair [0, 1]
       (fst (Health.Start (Health.New ex_check) ex_pair [0, 1])) Metrics.NewMetrics None ''k'' [] 5,
     ap_pool = NewPool RoundRobin [0, 1], ap_probes = NewProbes, ap_cfg = ex_file_config, ap_backends = [0, 1]\<rparr>"

lemma rejected_reload_changes_nothing_witness:
  "w_heap (ap_world (fst (snd (App_Reload ex_mac (\<lambda>_. None) (Some ''bad'') ex_app)))) = ex_pair"
proof -
  obtain e a' logs where r: "App_Reload ex_mac (\<lambda>_. None) (Some ''bad'') ex_app = (Some e, a', logs)"
    using App_Reload_rejects [of ex_mac "Some ''bad''" ex_app] by (metis not_Some_eq prod.collapse)
  show ?thesis using rejected_reload_changes_nothing [OF r] r by (simp add: ex_app_def Handler_New_def Let_def)
qed

text \<open>The parts of an applied reload.\<close>

lemma apply_reload_parts:
  assumes "MergeBackends (w_heap (ap_world a)) (ap_backends a) (c_backends new) = (h, bs)"
  shows "\<exists>m. ap_world (apply_reload mac a new strategies k) = (ap_world a)\<lparr>w_heap := h, w_strategies := strategies,
       w_limiter := setRate (w_limiter (ap_world a)) (li_rate_limit_per_ip (c_limits new)),
       w_settings := w_settings (ap_world a) @ [settingsFor mac new k h bs (w_secret (ap_world a))],
       w_current := length (w_settings (ap_world a)),
       w_checker := fst (Health.Reload (w_checker (ap_world a)) (c_health_check new) h bs), w_metrics := m\<rparr>"
    and "ap_backends (apply_reload mac a new strategies k) = bs" "ap_cfg (apply_reload mac a new strategies k) = new"
  using assms by (auto simp: apply_reload_def Let_def Handler_Reload_def observe_def)

lemma App_Reload_applied:
  assumes "App_Reload mac decode file a = (None, a', logs)"
  obtains new h bs strategies k m where "Load decode file = Inr new"
    "MergeBackends (w_heap (ap_world a)) (ap_backends a) (c_backends new) = (h, bs)"
    "strategies = w_strategies (ap_world a) \<and> k = Handler_Strategy (ap_world a)
     \<or> (\<exists>s. strategies = w_strategies (ap_world a) @ [s] \<and> k = length (w_strategies (ap_world a)))"
    "ap_world a' = (ap_world a)\<lparr>w_heap := h, w_strategies := strategies,
       w_limiter := setRate (w_limiter (ap_world a)) (li_rate_limit_per_ip (c_limits new)),
       w_settings := w_settings (ap_world a) @ [settingsFor mac new k h bs (w_secret (ap_world a))],
       w_current := length (w_settings (ap_world a)),
       w_checker := fst (Health.Reload (w_checker (ap_world a)) (c_health_check new) h bs), w_metrics := m\<rparr>"
    "ap_backends a' = bs" "ap_cfg a' = new"
proof -
  obtain new where new: "Load decode file = Inr new"
    using assms by (auto simp: App_Reload_def Let_def split: sum.splits)
  obtain h bs where m: "MergeBackends (w_heap (ap_world a)) (ap_backends a) (c_backends new) = (h, bs)" by fastforce
  obtain strategies k where s: "swap_strategy a new = Inr (strategies, k)" "a' = apply_reload mac a new strategies k"
    using assms new by (auto simp: App_Reload_def Let_def split: sum.splits)
  have "strategies = w_strategies (ap_world a) \<and> k = Handler_Strategy (ap_world a)
     \<or> (\<exists>s. strategies = w_strategies (ap_world a) @ [s] \<and> k = length (w_strategies (ap_world a)))"
    using s(1) by (auto simp: swap_strategy_def Let_def split: if_splits sum.splits)
  moreover obtain mt where "ap_world (apply_reload mac a new strategies k) = (ap_world a)\<lparr>w_heap := h, w_strategies := strategies,
       w_limiter := setRate (w_limiter (ap_world a)) (li_rate_limit_per_ip (c_limits new)),
       w_settings := w_settings (ap_world a) @ [settingsFor mac new k h bs (w_secret (ap_world a))],
       w_current := length (w_settings (ap_world a)),
       w_checker := fst (Health.Reload (w_checker (ap_world a)) (c_health_check new) h bs), w_metrics := mt\<rparr>"
    using apply_reload_parts(1) [OF m] by blast
  ultimately show thesis using apply_reload_parts(2,3) [OF m] s(2) by (intro that [OF new m, of strategies k mt]) simp_all
qed

lemma applied_reload_steady:
  assumes "App_Reload mac decode file a = (None, a', logs)" "app_ok a"
  shows "steady (ap_world a) (ap_world a') \<and> app_ok a'"
  using assms(1)
proof (cases rule: App_Reload_applied)
  case (1 new h bs strategies k m)
  let ?w = "ap_world a"
  have ok: "world_ok ?w" "refs_ok (w_heap ?w) (ap_backends a)" using assms(2) by (simp_all add: app_ok_def)
  note merged = MergeBackends_refs [OF 1(2) ok(2)]
  have k: "k < length strategies" "length (w_strategies ?w) \<le> length strategies"
    using 1(3) ok(1) by (auto simp: Handler_Strategy_def world_ok_def settings_ok_def)
  have steady: "steady ?w (ap_world a')"
    using merged(2) k(2) unfolding 1(4) by (auto simp: steady_def extends_heap_def same_cell_def nth_append)
  have "settings_ok (ap_world a') s" if "s \<in> set (w_settings ?w)" for s
    using ok(1) that k(2) merged(2) unfolding 1(4)
    by (auto simp: world_ok_def settings_ok_def refs_ok_def extends_heap_def intro: less_le_trans)
  moreover have "settings_ok (ap_world a') (settingsFor mac new k h bs (w_secret ?w))"
    using k(1) merged(1) unfolding 1(4) by (simp add: settings_ok_def settingsFor_def)
  ultimately have "world_ok (ap_world a')" unfolding world_ok_def 1(4) by simp
  then show ?thesis using steady merged(1) unfolding app_ok_def 1(4,5) by simp
qed


definition ex_reloaded :: "app_error option \<times> app \<times> log list" where
  "ex_reloaded = App_Reload ex_mac (\<lambda>_. Some ex_file_config) (Some ''file'') ex_app"

lemma ex_app_ok: "app_ok ex_app"
  by (simp add: app_ok_def ex_app_def Handler_New_def Let_def world_ok_def settings_ok_def settingsFor_def refs_ok_def ex_pair_def)

lemma ex_reload_applied: "fst ex_reloaded = None"
proof -
  have "\<exists>s. Strategies.New (c_algorithm (applyDefaults ex_file_config)) (c_consistent_hash (applyDefaults ex_file_config)) = Inr s"
    using ex_file_validates unfolding validate_Nil_iff rest_ok_def by (auto simp: Strategies.New_def constant_defs)
  then obtain s where "Strategies.New (c_algorithm (applyDefaults ex_file_config)) (c_consistent_hash (applyDefaults ex_file_config)) = Inr s"
    by blast
  then show ?thesis
    using ex_file_validates by (simp add: ex_reloaded_def App_Reload_def swap_strategy_def Load_def Let_def)
qed


end
