(* ===== verification/Proxy_Properties.thy ===== *)
theory Proxy_Properties
  imports Proxy_Requests
begin

text \<open>
  What the proxy core promises of one request: which backends it is offered to and when it is offered to
  another, what happens when the client hangs up, what is read of its body, what the candidates are when
  none is fit, and what a sticky cookie and the checks before the core decide.
\<close>

subsection \<open>A concrete balancer\<close>

text \<open>Two backends in turn, one retry, 5xx answers retried, a body of at most ten bytes.\<close>

definition ex_settings :: settings where
  "ex_settings =
     \<lparr>se_strategy = 0, se_backends = [0, 1],
      se_breaker = newBreaker RetryNextBackend \<lparr>cb_failure_threshold = 2, cb_open_duration = 30\<rparr>,
      se_budget = newRetryBudget \<lparr>rt_max_retries = 1, rt_budget_percent = Fin 20, rt_min_retry_concurrency = 3\<rparr>,
      se_attempts = 2, se_retryOn5xx = True, se_maxBody = 10, se_hashKey = (\<lambda>r. []), se_pins = None\<rparr>"

definition ex_world :: world where
  "ex_world =
     \<lparr>w_heap = ex_pair, w_strategies = [RoundRobinStrategy 0], w_settings = [ex_settings], w_current = 0,
      w_checker = fst (Health.Start (Health.New ex_check) ex_pair [0, 1]), w_limiter = newRateLimiter 0,
      w_metrics = NewMetrics, w_secret = ''k'', w_tape = [], w_now = 5\<rparr>"

lemma ex_world_ok: "world_ok ex_world"
  by (simp add: world_ok_def settings_ok_def ex_world_def ex_settings_def ex_pair_def refs_ok_def)

definition ex_get :: request where
  "ex_get = ex_request []"

text \<open>The request is offered to the first backend; it answers 502 and the request to the second.\<close>

definition ex_serving :: serving where
  "ex_serving = \<lparr>sv_request = ex_get, sv_active = 0, sv_body = None, sv_key = [], sv_pinned = None,
     sv_cookie = cookieAbsent, sv_tried = [''a:1''], sv_n = 0\<rparr>"

definition ex_flight :: flight where
  "ex_flight = \<lparr>fl_serving = ex_serving, fl_backend = 0, fl_retry = False, fl_pin = None, fl_started = 5\<rparr>"

lemma ex_flight_ok: "flight_ok ex_world ex_flight"
  by (simp add: flight_ok_def serving_ok_def ex_flight_def ex_serving_def ex_world_def ex_settings_def ex_pair_def)

definition ex_flying_world :: world where
  "ex_flying_world = fst (begin_request ex_log ex_world ex_get 0)"

lemmas ex_defs = ex_world_def ex_settings_def ex_get_def ex_request_def ex_flight_def ex_serving_def ex_pair_def
  ex_check_def newRetryBudget_def newBreaker_def Health.New_def newRateLimiter_def RetryNextBackend_def CircuitBreakerPolicy_def

lemmas serve_defs = begin_request_def replayableBody_def read_def offer_def available_def place_def choose_backend_def
  begin_attempt_def renew_def on_budget_def on_settings_def requestStarted_def IsHealthy_def Health.Start_def
  Health.Reload_def reload_loop_def Breaker.allow_def RoundRobin_Select_def RoundRobin_SelectRetry_def

lemma ex_begin_request:
  "begin_request ex_log ex_world ex_get 0 =
     (ex_world\<lparr>w_heap := Acquire ex_pair 0, w_strategies := [RoundRobinStrategy 1],
               w_settings := [ex_settings\<lparr>se_budget := requestStarted (se_budget ex_settings)\<rparr>]\<rparr>,
      Forwarding ex_flight)"
  by (simp add: ex_defs serve_defs)

lemma ex_flying_world_eq:
  "ex_flying_world = ex_world\<lparr>w_heap := Acquire ex_pair 0, w_strategies := [RoundRobinStrategy 1],
     w_settings := [ex_settings\<lparr>se_budget := requestStarted (se_budget ex_settings)\<rparr>]\<rparr>"
  by (simp add: ex_flying_world_def ex_begin_request)

lemma ex_flying_ok: "world_ok ex_flying_world" "flight_ok ex_flying_world ex_flight"
proof -
  have i: "0 < length (w_settings ex_world)" by (simp add: ex_world_def)
  have b: "begin_request ex_log ex_world ex_get 0 = (ex_flying_world, Forwarding ex_flight)"
    using ex_begin_request by (simp add: ex_flying_world_eq)
  note acc = begin_request_accounts [OF ex_world_ok i b]
  show "world_ok ex_flying_world" using acc ex_world_ok by (blast intro: moved_world)
  show "flight_ok ex_flying_world ex_flight" using acc by simp
qed

subsection \<open>Another attempt\<close>

lemma end_attempt_fields [simp]:
  "length (w_settings (end_attempt w f)) = length (w_settings w)"
  "addr_of (w_heap (end_attempt w f)) b = addr_of (w_heap w) b"
  "w_checker (end_attempt w f) = w_checker w" "w_metrics (end_attempt w f) = w_metrics w"
  "w_now (end_attempt w f) = w_now w"
  by (simp_all add: end_attempt_def Let_def)

lemma end_attempt_settings:
  "i < length (w_settings w) \<Longrightarrow> se_breaker (w_settings (end_attempt w f) ! i) = se_breaker (w_settings w ! i)"
  "i < length (w_settings w) \<Longrightarrow> static (w_settings (end_attempt w f) ! i) = static (w_settings w ! i)"
  by (auto simp: end_attempt_def Let_def nth_on_budget static_def)

lemma limit_end_attempt:
  "i < length (w_settings w) \<Longrightarrow> limit (se_budget (w_settings (end_attempt w f) ! i)) = limit (se_budget (w_settings w ! i))"
  by (auto simp: end_attempt_def Let_def nth_on_budget retryFinished_def)

lemma place_total:
  assumes "candidates \<noteq> []" "keyed (w_strategies w ! se_strategy (w_settings w ! i)) = None \<or> key = []"
  shows "\<exists>b. fst (place lg w i key pinned state candidates first) = chose b"
  using strat.select_member [OF assms(1), of "w_strategies w ! se_strategy (w_settings w ! i)"]
    strat_retry.select_member [OF assms(1), of "w_strategies w ! se_strategy (w_settings w ! i)"] assms(2)
  by (fastforce simp: place_def choose_backend_def Let_def case_prod_beta split: option.splits if_splits)

text \<open>While there is a backend to try, an attempt left and room in the budget, the request goes out.\<close>

lemma offer_sends:
  assumes "world_ok w" "serving_ok w v" "int (sv_n v) < se_attempts (w_settings w ! sv_active v)"
    and "b \<in> set (se_backends (w_settings w ! sv_active v))" "addr_of (w_heap w) b \<notin> set (sv_tried v)"
    and "keyed (w_strategies w ! se_strategy (w_settings w ! sv_active v)) = None"
    and "0 < sv_n v \<Longrightarrow> retries_of w (sv_active v) < limit (se_budget (w_settings w ! sv_active v))"
  shows "\<exists>f. snd (offer lg w v) = Forwarding f"
proof -
  let ?i = "sv_active v"
  have i: "?i < length (w_settings w)" using assms(2) by (simp add: serving_ok_def)
  obtain cands w1 where av: "available w ?i (sv_tried v) = (cands, w1)" by fastforce
  have "cands \<noteq> []" using available_empty [of w ?i "sv_tried v"] av assms(4,5) by auto
  moreover have q1: "quiet w w1" using quiet_available [of w ?i "sv_tried v"] av by simp
  moreover have "w_strategies w1 = w_strategies w"
    using av by (auto simp: available_def Let_def case_prod_beta split: if_splits)
  ultimately obtain b where b: "fst (place lg w1 ?i (sv_key v) (sv_pinned v) (sv_cookie v) cands (sv_n v = 0)) = chose b"
    using place_total [of cands w1 ?i] assms(6) frozen_fields(1) [OF quiet_settings(2) [OF q1 i]] by fastforce
  then obtain w2 where pl: "place lg w1 ?i (sv_key v) (sv_pinned v) (sv_cookie v) cands (sv_n v = 0) = (chose b, w2)"
    by (metis prod.collapse)
  have "quiet w w2" using quiet_trans [OF q1] quiet_place [of w1] pl by (metis snd_conv)
  then have "se_budget (w_settings w2 ! ?i) = se_budget (w_settings w ! ?i)" using i by (rule quiet_budget)
  then show ?thesis
    using assms(3,7) av pl by (auto simp: offer_def begin_attempt_def tryRetry_eq Let_def)
qed

lemma ex_retry:
  "\<exists>f. snd (resume ex_log ex_flying_world ex_flight (Responds 502 BodyEnds) False False) = Forwarding f"
proof -
  let ?w = "end_attempt (failed ex_flying_world 0 0 reason5xx) ex_flight" and ?v = "ex_serving\<lparr>sv_n := 1\<rparr>"
  have "failureReason Retryable5xx = reason5xx" by (simp add: failureReason_def error_is_def)
  then have r: "resume ex_log ex_flying_world ex_flight (Responds 502 BodyEnds) False False = offer ex_log ?w ?v"
    by (simp add: ex_flying_world_eq resume_def forward_def ModifyResponse_def ErrorHandler_def ex_world_def
        ex_settings_def ex_flight_def ex_serving_def retryable_def idempotent_def ex_get_def ex_request_def)
  note m = end_attempt_moved [OF ex_flying_ok quiet_failed [of _ 0 0 reason5xx]]
  have i: "0 < length (w_settings ex_flying_world)" by (simp add: ex_flying_world_eq)
  note same = static_fields [OF steady_at(2) [OF moved_steady [OF m] i]]
  have "serving_ok ex_flying_world ?v" using ex_flying_ok(2) by (simp add: flight_ok_def serving_ok_def ex_flight_def Let_def)
  then have sv: "serving_ok ?w ?v" by (rule serving_ok_steady [OF _ ex_flying_ok(1) moved_steady [OF m]])
  have "rb_minimum (se_budget (w_settings ?w ! 0)) = 3" "retries_of ?w 0 = 0"
    by (simp_all add: end_attempt_def failed_def on_settings_def ex_flying_world_eq ex_flight_def ex_settings_def
        newRetryBudget_def requestStarted_def Let_def)
  then have budget: "retries_of ?w 0 < limit (se_budget (w_settings ?w ! 0))"
    using limit_minimum [of "se_budget (w_settings ?w ! 0)"] by simp
  have strategies: "w_strategies ?w = [RoundRobinStrategy 1]"
    by (simp add: end_attempt_def failed_def ex_flying_world_eq ex_flight_def Let_def)
  have at0: "se_attempts (w_settings ex_flying_world ! 0) = 2" "se_backends (w_settings ex_flying_world ! 0) = [0, 1]"
    "se_strategy (w_settings ex_flying_world ! 0) = 0"
    by (simp_all add: ex_flying_world_eq ex_settings_def)
  have addr: "addr_of (w_heap ?w) 1 = ''b:2''"
    using m by (simp add: moved_def steady_def) (simp add: ex_flying_world_eq ex_pair_def Acquire_def update_cell_def)
  show ?thesis
    unfolding r
    by (rule offer_sends [OF moved_world [OF m ex_flying_ok(1)] sv, of 1])
      (use addr in \<open>simp_all add: same at0 strategies budget ex_serving_def\<close>)
qed

text \<open>
  C3: A request is offered to another backend only when its client is still there, the attempt failed, and
  sending it again is safe: its method is idempotent, or the attempt failed to connect. The other backend
  is of the pool the request started with and was not tried before, and the retry is within the budget.
\<close>

lemma another_attempt_is_safe:
  assumes "world_ok w" "flight_ok w f" "resume lg w f t gone gone_later = (w', Forwarding f')"
  shows "\<not> gone \<and> \<not> gone_later
     \<and> (\<exists>e. attempt_error w f t = Some e \<and> (idempotent (rq_method (sv_request (fl_serving f))) \<or> dialFailed e))
     \<and> fl_backend f' \<in> set (se_backends (w_settings w ! sv_active (fl_serving f)))
     \<and> addr_of (w_heap w) (fl_backend f') \<notin> set (sv_tried (fl_serving f))
     \<and> sv_n (fl_serving f') = sv_n (fl_serving f) + 1 \<and> fl_retry f'
     \<and> retries_of w (sv_active (fl_serving f)) - (if fl_retry f then 1 else 0)
         < limit (se_budget (w_settings w ! sv_active (fl_serving f)))"
proof (cases rule: resume_cases [where w = w and f = f and lg = lg and t = t and gone = gone and gone_later = gone_later])
  case (answered w1 a)
  then show ?thesis using assms(3) by (simp add: finish_def)
next
  case (again w1 e)
  let ?v = "fl_serving f" and ?i = "sv_active (fl_serving f)" and ?w2 = "end_attempt w1 f"
  have sv: "serving_ok w ?v" "length (sv_tried ?v) = sv_n ?v + 1" and i: "?i < length (w_settings w)"
    using assms(2) by (simp_all add: flight_ok_def serving_ok_def Let_def)
  note m = end_attempt_moved [OF assms(1,2) again(1)]
  have i1: "?i < length (w_settings w1)" using quiet_settings(1) [OF again(1)] i by simp
  have st: "static (w_settings ?w2 ! ?i) = static (w_settings w ! ?i)"
    using steady_at(2) [OF moved_steady [OF m] i] .
  note same = static_fields [OF st]
  have lim: "limit (se_budget (w_settings ?w2 ! ?i)) = limit (se_budget (w_settings w ! ?i))"
    unfolding limit_end_attempt [OF i1] quiet_budget [OF again(1) i] ..
  have ret: "retries_of ?w2 ?i = retries_of w ?i - (if fl_retry f then 1 else 0)"
    using m i by (simp add: moved_def)
  have "serving_ok ?w2 (?v\<lparr>sv_n := sv_n ?v + 1\<rparr>)"
    using serving_ok_steady [OF sv(1) assms(1) moved_steady [OF m]] by (simp add: serving_ok_def)
  with moved_world [OF m assms(1)] show ?thesis
  proof (cases rule: offer_cases [where lg = lg])
    case (answered w3 a)
    then show ?thesis using again(6) assms(3) by (simp add: finish_def)
  next
    case (sent w3 b)
    have b: "b < length (w_heap w)" using refs_of_settings [OF assms(1) i] sent(2) same(2) by simp
    then have "addr_of (w_heap ?w2) b = addr_of (w_heap w) b" using m by (simp add: moved_def steady_def)
    then show ?thesis
      using sent again(2-6) assms(3) same lim ret by (auto simp: begin_attempt_def retryable_def)
  qed
qed

lemma another_attempt_is_safe_witness:
  "\<exists>f. snd (resume ex_log ex_flying_world ex_flight (Responds 502 BodyEnds) False False) = Forwarding f
     \<and> ''a:1'' \<noteq> addr_of ex_pair (fl_backend f)"
proof -
  obtain f' where f': "snd (resume ex_log ex_flying_world ex_flight (Responds 502 BodyEnds) False False) = Forwarding f'"
    using ex_retry by blast
  have "addr_of (w_heap ex_flying_world) (fl_backend f') \<notin> set (sv_tried (fl_serving ex_flight))"
    using another_attempt_is_safe [OF ex_flying_ok, of ex_log "Responds 502 BodyEnds" False False _ f'] f'
    by (metis prod.collapse)
  then show ?thesis using f' by (simp add: ex_flying_world_eq) (simp add: ex_flight_def ex_serving_def)
qed

subsection \<open>A client that hangs up\<close>

lemma resume_gone:
  assumes "attempt_error w f t \<noteq> None \<or> snd (forward w (fresh_attempt w f) t)"
  shows "resume lg w f t True gone_later = finish (end_attempt w f) (sv_active (fl_serving f)) Unanswered
     \<or> resume lg w f t True gone_later = finish (end_attempt w f) (sv_active (fl_serving f)) Aborted"
  using assms by (auto simp: resume_def Let_def attempt_error_def split: prod.splits option.splits bool.splits)

lemma finish_fields:
  "w_checker (fst (finish w i a)) = w_checker w" "w_metrics (fst (finish w i a)) = w_metrics w"
  "j < length (w_settings w) \<Longrightarrow> se_breaker (w_settings (fst (finish w i a)) ! j) = se_breaker (w_settings w ! j)"
  by (simp_all add: finish_def nth_on_budget)

text \<open>
  An attempt that fails while its client has hung up is held against no backend: the checker, every
  circuit breaker and the failure counters are as before, no other backend is tried, and what the attempt
  held is given back.
\<close>

lemma hung_up_client_blames_nobody:
  assumes "world_ok w" "flight_ok w f" "attempt_error w f t \<noteq> None \<or> snd (forward w (fresh_attempt w f) t)"
    and "resume lg w f t True gone_later = (w', p)"
  shows "w_checker w' = w_checker w \<and> w_metrics w' = w_metrics w
     \<and> map se_breaker (w_settings w') = map se_breaker (w_settings w)
     \<and> (p = Finished Unanswered \<or> p = Finished Aborted)
     \<and> ActiveConnections (w_heap w') (fl_backend f) = ActiveConnections (w_heap w) (fl_backend f) - 1"
proof -
  let ?i = "sv_active (fl_serving f)"
  have i: "?i < length (w_settings w)" and b: "fl_backend f < length (w_heap w)"
    using assms(1,2) refs_of_settings [OF assms(1)] by (auto simp: flight_ok_def serving_ok_def Let_def)
  obtain a where a: "(w', p) = finish (end_attempt w f) ?i a" "a = Unanswered \<or> a = Aborted"
    using resume_gone [OF assms(3), of lg gone_later] assms(4) by auto
  then have w': "w' = fst (finish (end_attempt w f) ?i a)" "p = Finished a" by (simp_all add: finish_def)
  have "se_breaker (w_settings w' ! j) = se_breaker (w_settings w ! j)" if "j < length (w_settings w)" for j
    using that by (simp add: w' finish_fields(3) end_attempt_settings(1))
  then have "map se_breaker (w_settings w') = map se_breaker (w_settings w)"
    by (simp add: list_eq_iff_nth_eq w') (simp add: finish_def)
  then show ?thesis
    using a(2) w' finish_fields(1,2) [of "end_attempt w f" ?i a] resume_accounts [OF assms(1,2,4)] b
    by (simp add: moved_def)
qed

lemma hung_up_client_blames_nobody_witness:
  "w_checker (fst (resume ex_log ex_flying_world ex_flight (TripFails Canceled) True True)) = w_checker ex_world"
proof -
  have "attempt_error ex_flying_world ex_flight (TripFails Canceled) \<noteq> None"
    by (simp add: attempt_error_eq)
  then have "w_checker (fst (resume ex_log ex_flying_world ex_flight (TripFails Canceled) True True)) = w_checker ex_flying_world"
    using hung_up_client_blames_nobody [OF ex_flying_ok, of "TripFails Canceled" ex_log True] by (metis prod.collapse)
  then show ?thesis by (simp add: ex_flying_world_eq)
qed

subsection \<open>The body\<close>

text \<open>
  C32: With more than one attempt, a body is sent again only whole: what is kept for a retry is every byte
  the client sent, as many as it declared if it declared a length, within \<open>max_request_body_bytes\<close>; a
  request whose body is over the limit, declared or not, and one whose body breaks off before its end, the
  declared length included, is refused. The limit must be below the largest 64-bit integer, where the code
  reads nothing and sends an empty body (\<open>largest_limit_drops_body\<close>).
\<close>

lemma replayed_body_is_whole:
  assumes "0 \<le> se_maxBody active" "se_maxBody active < 2 ^ 63 - 1" "rq_body r = Some src" "se_attempts active \<noteq> 1"
  shows "replayableBody r active =
     (if rq_content_length r > se_maxBody active
         \<or> rq_content_length r < 0 \<and> int (length (bs_bytes src)) > se_maxBody active
      then Inl BodyTooLarge
      else if (if rq_content_length r < 0 then bs_broken src else int (length (bs_bytes src)) < rq_content_length r)
      then Inl BodyUnreadable
      else Inr (Some (if rq_content_length r < 0 then bs_bytes src
                      else take (nat (rq_content_length r)) (bs_bytes src))))"
proof -
  have "wrap64 (se_maxBody active + 1) = se_maxBody active + 1"
    using assms(1,2) by (simp add: wrap64_def mod_pos_pos_trivial)
  then have most: "nat (wrap64 (se_maxBody active + 1)) = nat (se_maxBody active) + 1" using assms(1) by simp
  have over: "int (length b) > se_maxBody active \<longleftrightarrow> length b \<ge> nat (se_maxBody active) + 1" for b :: string
    using assms(1) by linarith
  show ?thesis
  proof (cases "rq_content_length r < 0")
    case True
    then show ?thesis
      using assms(1,3,4) over [of "bs_bytes src"]
      by (auto simp: replayableBody_def body_read_def body_breaks_def Let_def most min_def)
  next
    case False
    show ?thesis
    proof (cases "rq_content_length r > se_maxBody active")
      case True
      then show ?thesis using assms(3) by (simp add: replayableBody_def)
    next
      case small: False
      have "length (body_read r src) < nat (se_maxBody active) + 1"
        using False small by (simp add: body_read_def)
      then show ?thesis
        using False small assms(3,4) over [of "body_read r src"]
        by (auto simp: replayableBody_def body_read_def body_breaks_def Let_def most)
    qed
  qed
qed

lemma replayed_body_is_whole_witness:
  "replayableBody (ex_get\<lparr>rq_body := Some \<lparr>bs_bytes = ''abc'', bs_broken = False\<rparr>, rq_content_length := 3\<rparr>) ex_settings
     = Inr (Some ''abc'')
   \<and> replayableBody (ex_get\<lparr>rq_body := Some \<lparr>bs_bytes = ''abc'', bs_broken = True\<rparr>, rq_content_length := 5\<rparr>) ex_settings
     = Inl BodyUnreadable"
  using replayed_body_is_whole
      [of ex_settings "ex_get\<lparr>rq_body := Some \<lparr>bs_bytes = ''abc'', bs_broken = False\<rparr>, rq_content_length := 3\<rparr>"
        "\<lparr>bs_bytes = ''abc'', bs_broken = False\<rparr>"]
    replayed_body_is_whole
      [of ex_settings "ex_get\<lparr>rq_body := Some \<lparr>bs_bytes = ''abc'', bs_broken = True\<rparr>, rq_content_length := 5\<rparr>"
        "\<lparr>bs_bytes = ''abc'', bs_broken = True\<rparr>"]
  by (simp add: ex_settings_def)

text \<open>
  Under the largest limit that validation accepts, the limit's successor wraps to a negative number and
  nothing of a body is read: what is sent for every request that may be retried is an empty body.
\<close>

lemma largest_limit_drops_body:
  assumes "se_maxBody active = 2 ^ 63 - 1" "rq_body r = Some src" "se_attempts active \<noteq> 1"
    and "rq_content_length r \<le> 2 ^ 63 - 1"
  shows "replayableBody r active = Inr (Some [])"
proof -
  have "wrap64 (se_maxBody active + 1) = - (2 ^ 63)" using assms(1) by (simp add: wrap64_def)
  then show ?thesis using assms by (simp add: replayableBody_def)
qed

lemma largest_limit_drops_body_witness:
  "replayableBody (ex_get\<lparr>rq_body := Some \<lparr>bs_bytes = ''abc'', bs_broken = False\<rparr>, rq_content_length := 3\<rparr>)
     (ex_settings\<lparr>se_maxBody := 2 ^ 63 - 1\<rparr>) = Inr (Some [])"
  by (rule largest_limit_drops_body [where src = "\<lparr>bs_bytes = ''abc'', bs_broken = False\<rparr>"])
    (simp_all add: ex_settings_def)

text \<open>A body that is streamed has no limit but the length its client announced, if it did.\<close>

lemma streamed_body_has_no_limit:
  "se_attempts active = 1 \<Longrightarrow> rq_content_length r \<le> se_maxBody active \<Longrightarrow> replayableBody r active = Inr None"
  by (auto simp: replayableBody_def split: option.split)

subsection \<open>The candidates\<close>

lemma available_fit:
  assumes "b \<in> set (se_backends (w_settings w ! i))" "addr_of (w_heap w) b \<notin> set tried"
    and "IsHealthy (w_checker w) (addr_of (w_heap w) b)" "\<not> br_enabled (se_breaker (w_settings w ! i))"
  shows "fst (available w i tried) = filter (\<lambda>b. addr_of (w_heap w) b \<notin> set tried \<and> IsHealthy (w_checker w) (addr_of (w_heap w) b))
     (se_backends (w_settings w ! i))"
proof -
  have loop: "fst (available_loop hc now h tried br bs) = filter (\<lambda>b. addr_of h b \<notin> set tried \<and> IsHealthy hc (addr_of h b)) bs"
    if "\<not> br_enabled br" for hc now h br bs
    using that by (induction bs) (simp_all add: case_prod_beta Let_def disabled_allows)
  show ?thesis
    using assms loop [of "se_breaker (w_settings w ! i)" "w_checker w" "w_now w" "w_heap w"]
    by (auto simp: available_def Let_def case_prod_beta filter_empty_conv)
qed

text \<open>
  The candidates of an attempt are backends of the pool that the request has not tried. While a healthy
  one is left they are exactly the healthy ones, in the order of the pool; when none is, they are all that
  are left: a request finds no candidate only once it has tried every backend. (Without circuit breaking.)
\<close>

lemma candidates_of_an_attempt:
  assumes "\<not> br_enabled (se_breaker (w_settings w ! i))"
  shows "fst (available w i tried) =
     (let untried = filter (\<lambda>b. addr_of (w_heap w) b \<notin> set tried) (se_backends (w_settings w ! i));
          fit = filter (\<lambda>b. IsHealthy (w_checker w) (addr_of (w_heap w) b)) untried
      in if fit = [] then untried else fit)"
proof (cases "\<exists>b\<in>set (se_backends (w_settings w ! i)).
      addr_of (w_heap w) b \<notin> set tried \<and> IsHealthy (w_checker w) (addr_of (w_heap w) b)")
  case True
  then show ?thesis using available_fit [OF _ _ _ assms, of _ tried]
    by (auto simp: filter_empty_conv Let_def conj_commute)
next
  case False
  show ?thesis
  proof (rule available_cases [of w tried i])
    fix fit
    assume "set fit \<subseteq> {b \<in> set (filter (\<lambda>b. addr_of (w_heap w) b \<notin> set tried) (se_backends (w_settings w ! i))).
        IsHealthy (w_checker w) (addr_of (w_heap w) b)}"
      and fst: "fst (available w i tried) =
        (if fit = [] \<and> filter (\<lambda>b. addr_of (w_heap w) b \<notin> set tried) (se_backends (w_settings w ! i)) \<noteq> []
         then filter (\<lambda>b. addr_of (w_heap w) b \<notin> set tried) (se_backends (w_settings w ! i)) else fit)"
    then have "fit = []" using False by (cases fit) auto
    then show ?thesis using fst False by (auto simp: filter_empty_conv Let_def)
  qed
qed

lemma candidates_of_an_attempt_witness: "fst (available ex_world 0 [''a:1'']) = [1]"
proof -
  have "fst (available ex_world 0 [''a:1'']) =
     (let untried = filter (\<lambda>b. addr_of (w_heap ex_world) b \<notin> set [''a:1'']) (se_backends (w_settings ex_world ! 0));
          fit = filter (\<lambda>b. IsHealthy (w_checker ex_world) (addr_of (w_heap ex_world) b)) untried
      in if fit = [] then untried else fit)"
    by (rule candidates_of_an_attempt)
      (simp add: ex_world_def ex_settings_def newBreaker_def RetryNextBackend_def CircuitBreakerPolicy_def)
  then show ?thesis by (simp add: ex_world_def ex_settings_def ex_pair_def Let_def)
qed

subsection \<open>Circuit breaking and the candidates\<close>

lemma available_breaker:
  "i < length (w_settings w) \<Longrightarrow>
     se_breaker (w_settings (snd (available w i tried)) ! i) =
       snd (snd (available_loop (w_checker w) (w_now w) (w_heap w) tried (se_breaker (w_settings w ! i))
                   (se_backends (w_settings w ! i))))"
  by (simp add: available_def Let_def case_prod_beta nth_on_settings)

text \<open>Asking the breaker about every candidate takes the probe of each one whose open period is over.\<close>

lemma available_loop_other:
  "a \<notin> addr_of h ` set bs \<Longrightarrow> br_circuits (snd (snd (available_loop hc now h tried br bs))) a = br_circuits br a"
  by (induction bs arbitrary: br) (auto simp: case_prod_beta Let_def)

lemma available_loop_enabled: "br_enabled (snd (snd (available_loop hc now h tried br bs))) = br_enabled br"
  by (induction bs arbitrary: br) (auto simp: case_prod_beta Let_def)

lemma available_loop_probes:
  assumes "br_enabled br" "b \<in> set bs" "distinct (map (addr_of h) bs)" "addr_of h b \<notin> set tried" "IsHealthy hc (addr_of h b)"
    and "circuit_phase br (addr_of h b) = Open u n" "u \<le> now"
  shows "circuit_phase (snd (snd (available_loop hc now h tried br bs))) (addr_of h b) = Probing u n"
  using assms
proof (induction bs arbitrary: br)
  case (Cons c bs)
  show ?case
  proof (cases "c = b")
    case True
    then show ?thesis
      using Cons.prems allow_refines [OF Cons.prems(1), of now "addr_of h b"]
        available_loop_other [of "addr_of h b" h bs]
      by (simp add: case_prod_beta Let_def)
  next
    case False
    then have b: "b \<in> set bs" using Cons.prems(2) by simp
    then have "addr_of h b \<in> addr_of h ` set bs" by (rule imageI)
    then have other: "addr_of h b \<noteq> addr_of h c" using Cons.prems(3) by auto
    then have IH: "circuit_phase br' (addr_of h b) = Open u n \<Longrightarrow> br_enabled br' \<Longrightarrow>
        circuit_phase (snd (snd (available_loop hc now h tried br' bs))) (addr_of h b) = Probing u n" for br'
      using Cons.IH [of br'] Cons.prems b by simp
    show ?thesis
      using Cons.prems(1,6) other by (simp add: case_prod_beta Let_def IH)
  qed
qed simp

lemma breaker_after_choice:
  "se_breaker (w_settings (snd (place lg w i key pinned state cands first)) ! j) = se_breaker (w_settings w ! j)"
  by (auto simp: place_def choose_backend_def Let_def case_prod_beta split: option.splits sum.splits if_splits)

text \<open>
  C39: The breaker lets one request through to a backend that is due to be probed, and remembers that it did,
  whenever the backend is a candidate. If that request then goes to another backend, nothing goes to this
  one any more: until an outcome is recorded for it, which only a request to it would do, it is shut out.
\<close>

lemma unchosen_backend_is_shut_out:
  assumes "world_ok w" "serving_ok w v" "length (sv_tried v) = sv_n v" "sv_n v = 0"
    and "distinct (map (addr_of (w_heap w)) (se_backends (w_settings w ! sv_active v)))"
    and "b \<in> set (se_backends (w_settings w ! sv_active v))" "IsHealthy (w_checker w) (addr_of (w_heap w) b)"
    and "br_enabled (se_breaker (w_settings w ! sv_active v))"
    and "circuit_phase (se_breaker (w_settings w ! sv_active v)) (addr_of (w_heap w) b) = Open until k" "until \<le> w_now w"
    and "offer lg w v = (w', Forwarding f)" "fl_backend f \<noteq> b"
    and "breaker_steps (se_breaker (w_settings w' ! sv_active v)) es br" "no_outcome (addr_of (w_heap w) b) es"
  shows "\<not> fst (Breaker.allow now br (addr_of (w_heap w) b))"
proof -
  let ?i = "sv_active v" and ?a = "addr_of (w_heap w) b"
  have i: "?i < length (w_settings w)" using assms(2) by (simp add: serving_ok_def)
  obtain cands w1 where av: "available w ?i (sv_tried v) = (cands, w1)" by fastforce
  obtain c w2 where pl: "place lg w1 ?i (sv_key v) (sv_pinned v) (sv_cookie v) cands (sv_n v = 0) = (c, w2)" by fastforce
  have br1: "se_breaker (w_settings w1 ! ?i) =
      snd (snd (available_loop (w_checker w) (w_now w) (w_heap w) (sv_tried v) (se_breaker (w_settings w ! ?i))
                   (se_backends (w_settings w ! ?i))))"
    using available_breaker [OF i, of "sv_tried v"] av by simp
  then have probing: "circuit_phase (se_breaker (w_settings w1 ! ?i)) ?a = Probing until k"
      "br_enabled (se_breaker (w_settings w1 ! ?i))"
    using available_loop_probes [of "se_breaker (w_settings w ! ?i)" b "se_backends (w_settings w ! ?i)" "w_heap w" "sv_tried v"
        "w_checker w" until k "w_now w"] assms(3-10)
    by (simp_all add: available_loop_enabled)
  have "se_breaker (w_settings w2 ! ?i) = se_breaker (w_settings w1 ! ?i)"
    using breaker_after_choice [of lg w1 ?i "sv_key v" "sv_pinned v" "sv_cookie v" cands "sv_n v = 0" ?i] pl by simp
  moreover have "w_settings w' = w_settings w2"
    using assms(4,11) av pl
    by (auto simp: offer_def Let_def begin_attempt_def refuse_def finish_def split: if_splits sum.splits select_error.splits option.splits)
  ultimately have "circuit_phase (se_breaker (w_settings w' ! ?i)) ?a = Probing until k" "br_enabled (se_breaker (w_settings w' ! ?i))"
    using probing by simp_all
  then show ?thesis
    using steps_probing [OF assms(13) _ _ assms(14)] breaker_steps_settings [OF assms(13)] allow_refines(1) [of br now ?a]
    by simp
qed

text \<open>The second backend's circuit opened at 3 for 30; at 40 the first request after that goes to the first.\<close>

definition ex_tripped :: world where
  "ex_tripped = ex_world\<lparr>w_now := 40,
     w_settings := [ex_settings\<lparr>se_attempts := 1,
       se_breaker := \<lparr>br_enabled = True, br_failureThreshold = 2, br_openDuration = 30,
         br_circuits = [''b:2'' \<mapsto> \<lparr>ci_failures = 2, ci_openedUntil = Some 33, ci_probing = False\<rparr>]\<rparr>\<rparr>]\<rparr>"

definition ex_first :: serving where
  "ex_first = ex_serving\<lparr>sv_tried := []\<rparr>"

lemma ex_tripped_offer:
  "\<exists>f. snd (offer ex_log ex_tripped ex_first) = Forwarding f \<and> fl_backend f = 0"
  by (simp add: ex_tripped_def ex_first_def ex_defs serve_defs Let_def)

lemma unchosen_backend_is_shut_out_witness:
  "\<not> fst (Breaker.allow 10000 (se_breaker (w_settings (fst (offer ex_log ex_tripped ex_first)) ! 0)) ''b:2'')"
proof -
  obtain f where f: "snd (offer ex_log ex_tripped ex_first) = Forwarding f" "fl_backend f \<noteq> 1"
    using ex_tripped_offer by fastforce
  have offer: "offer ex_log ex_tripped ex_first = (fst (offer ex_log ex_tripped ex_first), Forwarding f)"
    using f(1) by (metis prod.collapse)
  have ok: "world_ok ex_tripped" "serving_ok ex_tripped ex_first" "length (sv_tried ex_first) = sv_n ex_first" "sv_n ex_first = 0"
    "distinct (map (addr_of (w_heap ex_tripped)) (se_backends (w_settings ex_tripped ! sv_active ex_first)))"
    "1 \<in> set (se_backends (w_settings ex_tripped ! sv_active ex_first))"
    "IsHealthy (w_checker ex_tripped) (addr_of (w_heap ex_tripped) 1)"
    "br_enabled (se_breaker (w_settings ex_tripped ! sv_active ex_first))"
    "circuit_phase (se_breaker (w_settings ex_tripped ! sv_active ex_first)) (addr_of (w_heap ex_tripped) 1) = Open 33 2"
    "33 \<le> w_now ex_tripped"
    by (simp_all add: ex_tripped_def ex_first_def world_ok_def settings_ok_def refs_ok_def serving_ok_def IsHealthy_def
        Health.Start_def Health.Reload_def reload_loop_def ex_defs)
  have "\<not> fst (Breaker.allow 10000 (se_breaker (w_settings (fst (offer ex_log ex_tripped ex_first)) ! sv_active ex_first))
      (addr_of (w_heap ex_tripped) 1))"
    by (rule unchosen_backend_is_shut_out [OF ok offer f(2) breaker_steps.steps_Nil]) simp
  then show ?thesis by (simp add: ex_first_def ex_serving_def) (simp add: ex_tripped_def ex_world_def ex_pair_def)
qed

text \<open>
  With every circuit open the breaker holds nothing back: a pool in which no backend may be tried is
  offered whole, whatever the open periods.
\<close>

lemma open_pool_is_offered_whole:
  assumes "\<forall>b\<in>set (se_backends (w_settings w ! i)). \<exists>u n. w_now w < u
      \<and> circuit_phase (se_breaker (w_settings w ! i)) (addr_of (w_heap w) b) = Open u n"
    and "br_enabled (se_breaker (w_settings w ! i))"
  shows "fst (available w i []) = se_backends (w_settings w ! i)"
proof -
  have loop: "fst (available_loop hc now h [] br bs) = []"
    if "br_enabled br" "\<forall>b\<in>set bs. \<exists>u n. now < u \<and> circuit_phase br (addr_of h b) = Open u n" for hc now h br bs
    using that
  proof (induction bs)
    case (Cons b bs)
    then obtain u n where "now < u" "circuit_phase br (addr_of h b) = Open u n" by auto
    then have "Breaker.allow now br (addr_of h b) = (False, br)"
      using Cons.prems(1)
      by (cases "br_circuits br (addr_of h b)") (auto simp: Breaker.allow_def split: option.splits if_splits)
    with Cons show ?case by (simp add: case_prod_beta Let_def)
  qed simp
  then have "fst (available_loop (w_checker w) (w_now w) (w_heap w) [] (se_breaker (w_settings w ! i))
      (se_backends (w_settings w ! i))) = []"
    using assms by blast
  then show ?thesis
    by (auto simp: available_def Let_def case_prod_beta available_loop_untried)
qed

lemma open_pool_is_offered_whole_witness:
  "fst (available (ex_tripped\<lparr>w_now := 10,
     w_settings := [(w_settings ex_tripped ! 0)\<lparr>se_backends := [1]\<rparr>]\<rparr>) 0 []) = [1]"
  using open_pool_is_offered_whole
    [of "ex_tripped\<lparr>w_now := 10, w_settings := [(w_settings ex_tripped ! 0)\<lparr>se_backends := [1]\<rparr>]\<rparr>" 0]
  by (simp add: ex_tripped_def ex_world_def ex_pair_def)

subsection \<open>Sticky cookies, and the settings an answer is judged by\<close>

text \<open>
  A request pinned to a backend that is among the candidates goes there, whatever the algorithm: no turn
  is taken, no random number drawn and no key read. Pinned to one that is not, it is placed by the algorithm
  and the answer carries a new pin.
\<close>

lemma pinned_request_stays:
  assumes "p \<in> set candidates" "p < length (w_heap w)" "read (se_pins (w_settings w ! i)) r = (Some p, state)"
  shows "fst (place lg w i key (Some p) state candidates first) = chose p
     \<and> (let w' = snd (place lg w i key (Some p) state candidates first)
        in w_strategies w' = w_strategies w \<and> w_tape w' = w_tape w \<and> w_heap w' = w_heap w)
     \<and> renew (se_pins (w_settings w ! i)) (w_heap w) (Some p) p = None
     \<and> (\<forall>b. b \<noteq> p \<longrightarrow> renew (se_pins (w_settings w ! i)) (w_heap w) (Some p) b \<noteq> None)"
  using assms by (auto simp: place_def renew_def read_def split: option.splits)

definition ex_sticky_world :: world where
  "ex_sticky_world = ex_world\<lparr>w_settings := [ex_settings\<lparr>se_pins := newPins ex_mac ex_sticky ''k'' ex_pair [0, 1]\<rparr>]\<rparr>"

lemma pinned_request_stays_witness:
  "fst (place ex_log ex_sticky_world 0 [] (Some 1) cookieKnown [0, 1] True) = chose 1"
proof -
  obtain p where p: "newPins ex_mac ex_sticky ''k'' ex_pair [0, 1] = Some p"
    by (auto simp: newPins_def ex_sticky_def)
  have member: "1 \<in> set [0, 1 :: bref]" by simp
  have "read (se_pins (w_settings ex_sticky_world ! 0)) ex_pinned_request = (Some 1, cookieKnown)"
    using read_own_token [OF p ex_sticky_pool member ex_pinned_cookie] p by (simp add: ex_sticky_world_def)
  then show ?thesis
    using pinned_request_stays [of 1 "[0, 1]" ex_sticky_world 0 ex_pinned_request cookieKnown ex_log "[]" True]
    by (simp add: ex_sticky_world_def ex_world_def ex_pair_def)
qed

text \<open>
  Whether a 5xx answer fails an attempt is decided by the configuration in force when the answer arrives,
  not by the one the request started with: a reload changes it for the requests in flight.
\<close>

lemma answer_judged_by_current_settings:
  assumes "500 \<le> status"
  shows "attempt_error w f (Responds status body) \<noteq> None \<longleftrightarrow> se_retryOn5xx (w_settings w ! w_current w)"
  using assms by (simp add: attempt_error_eq)

lemma answer_judged_by_current_settings_witness:
  "attempt_error (ex_flying_world\<lparr>w_settings := w_settings ex_flying_world @ [ex_settings\<lparr>se_retryOn5xx := False\<rparr>],
       w_current := 1\<rparr>) ex_flight (Responds 502 BodyEnds) = None"
  using answer_judged_by_current_settings [of 502 "ex_flying_world\<lparr>w_settings := w_settings ex_flying_world
      @ [ex_settings\<lparr>se_retryOn5xx := False\<rparr>], w_current := 1\<rparr>" ex_flight BodyEnds]
  by (simp add: ex_flying_world_eq)

text \<open>
  A backend that agrees to switch protocols has failed the attempt: the forwarder cannot write to the body
  that watches it. The failure is counted against the backend, on its health included.
\<close>

lemma switching_protocols_fails:
  "attempt_error w f (Responds 101 body) = Some OtherError"
  "resume lg w f (Responds 101 body) False True =
     finish (end_attempt (failed w (sv_active (fl_serving f)) (fl_backend f) (failureReason OtherError)) f)
       (sv_active (fl_serving f)) Unanswered"
  by (simp_all add: attempt_error_eq resume_def forward_def ModifyResponse_def ErrorHandler_def Let_def)

lemma failure_is_reported: "w_checker (failed w i b reason) = ReportFailure (w_checker w) (addr_of (w_heap w) b)"
  by (simp add: failed_def observe_def on_settings_def Let_def)

subsection \<open>The identifier\<close>

text \<open>
  Every request has an identifier, refused ones included: it is on the answer and on the request that
  goes on to the core, printable and of bounded length, and it is the client's own when that is usable.
\<close>

lemma every_request_is_identified:
  assumes "usableRequestID fresh" "Handler_ServeHTTP fresh w r = ((name, rid), w', p)"
  shows "name = requestIDHeader \<and> usableRequestID rid
     \<and> (usableRequestID (header_get (rq_header r) requestIDHeader) \<longrightarrow> rid = header_get (rq_header r) requestIDHeader)
     \<and> (\<forall>r' i. p = Reading r' i \<longrightarrow> requestIDFrom r' = rid \<and> rq_header r' = rq_header r)"
proof -
  have rid: "name = requestIDHeader" "rid = requestIDOf fresh r" "admit w (r\<lparr>rq_id := Some rid\<rparr>) = (w', p)"
    using assms(2) by (auto simp: Handler_ServeHTTP_def withRequestID_def Let_def)
  have "r' = r\<lparr>rq_id := Some rid\<rparr>" if "p = Reading r' i" for r' i
    using rid(3) that by (auto simp: admit_defs Let_def split: prod.splits if_splits)
  then show ?thesis
    using rid(1,2) usableRequestID_requestIDOf [OF assms(1), of r]
    by (auto simp: requestIDFrom_def requestIDOf_def Let_def)
qed

lemma every_request_is_identified_witness:
  "usableRequestID (snd (fst (Handler_ServeHTTP ''ID'' ex_world ex_get)))"
proof -
  have "usableRequestID ''ID''" by (simp add: usableRequestID_def maxRequestIDLength_def printable_ascii_def)
  from every_request_is_identified [OF this, of ex_world ex_get] show ?thesis by (metis prod.collapse)
qed

subsection \<open>Refused before the core\<close>

text \<open>
  A request over its client's rate or with ambiguous framing reaches nothing behind the checks: no
  counter of a backend or budget, no breaker, strategy or health state changes; it is counted once,
  as a rejection, and answered 429 or 400.
\<close>

lemma refused_requests_reach_no_backend:
  assumes "admit w r = (w', Finished a)"
  shows "w_heap w' = w_heap w \<and> w_settings w' = w_settings w \<and> w_strategies w' = w_strategies w
     \<and> w_checker w' = w_checker w \<and> w_tape w' = w_tape w
     \<and> (\<exists>reason\<in>{''rate_limited'', ''bad_framing''}. w_metrics w' = ObserveRejection (w_metrics w) reason)
     \<and> (a = Refused 429 [(''Retry-After'', ''1'')] \<or> a = Refused 400 [] \<and> suspiciousFraming r)"
  using assms by (auto simp: admit_defs Let_def split: prod.splits if_splits)

definition ex_smuggled :: request where
  "ex_smuggled = ex_get\<lparr>rq_header := [''Content-Length'' \<mapsto> [''5'', ''6'']]\<rparr>"

lemma refused_requests_reach_no_backend_witness:
  "\<exists>reason\<in>{''rate_limited'', ''bad_framing''}.
     w_metrics (fst (admit ex_world ex_smuggled)) = ObserveRejection NewMetrics reason"
proof -
  have key: "canonical_key ''Content-Length'' = ''Content-Length''"
    by (simp add: canonical_key_def token_byte_def upper_def lower_def)
  have refused: "snd (admit ex_world ex_smuggled) = Finished (Refused 400 [])"
    by (simp add: admit_defs Rate_Limit.allow_def ex_world_def newRateLimiter_def suspiciousFraming_def ex_smuggled_def
        header_values_def key float_of_int_def)
  then obtain w' where "admit ex_world ex_smuggled = (w', Finished (Refused 400 []))" by (metis prod.collapse)
  then show ?thesis using refused_requests_reach_no_backend [of ex_world ex_smuggled w'] by (simp add: ex_world_def)
qed

end
