(* ===== verification/System.thy ===== *)
theory System
  imports App Proxy_Properties
begin

text \<open>
  The balancer as it runs: the application and the requests in it, each at the point it has reached, under
  every interleaving of their pieces with each other, with the probes and with reloads. A step is one piece
  of one request, the end of a probe, a reload, or the world moving on (the clock, the next random numbers).
  The invariant says that every shared counter is at every moment the number of requests it counts, however
  they end; the run of a request is bounded by its attempts and by the pool.
\<close>

subsection \<open>Steps\<close>

type_synonym system = "app \<times> process list"

datatype event = Arrival | Piece nat | Outside

definition set_world :: "app \<Rightarrow> world \<Rightarrow> app" where
  "set_world a w = a\<lparr>ap_world := w\<rparr>"

lemma set_world_fields [simp]:
  "ap_world (set_world a w) = w" "ap_backends (set_world a w) = ap_backends a" "ap_cfg (set_world a w) = ap_cfg a"
  by (simp_all add: set_world_def)

inductive system_step ::
  "(string \<Rightarrow> string \<Rightarrow> string) \<Rightarrow> (rat \<Rightarrow> rat) \<Rightarrow> system \<Rightarrow> event \<Rightarrow> system \<Rightarrow> bool" for mac lg where
  Arrive: "system_step mac lg (a, ps) Arrival (a, ps @ [Arrived r])"
| Admit: "i < length ps \<Longrightarrow> ps ! i = Arrived r \<Longrightarrow> Handler_ServeHTTP fresh (ap_world a) r = (hdr, w', p) \<Longrightarrow>
     system_step mac lg (a, ps) (Piece i) (set_world a w', ps[i := p])"
| Begin: "i < length ps \<Longrightarrow> ps ! i = Reading r s \<Longrightarrow> begin_request lg (ap_world a) r s = (w', p) \<Longrightarrow>
     system_step mac lg (a, ps) (Piece i) (set_world a w', ps[i := p])"
| Resume: "i < length ps \<Longrightarrow> ps ! i = Forwarding f \<Longrightarrow> resume lg (ap_world a) f t gone gone_later = (w', p) \<Longrightarrow>
     system_step mac lg (a, ps) (Piece i) (set_world a w', ps[i := p])"
| Probe: "system_step mac lg (a, ps) Outside
     (set_world a ((ap_world a)\<lparr>w_checker := probe (w_checker (ap_world a)) addr ex\<rparr>), ps)"
| Reload: "App_Reload mac decode file a = (e, a', logs) \<Longrightarrow> system_step mac lg (a, ps) Outside (a', ps)"
| Pass: "w_now (ap_world a) \<le> now \<Longrightarrow>
     system_step mac lg (a, ps) Outside (set_world a ((ap_world a)\<lparr>w_now := now, w_tape := tape\<rparr>), ps)"

inductive system_run ::
  "(string \<Rightarrow> string \<Rightarrow> string) \<Rightarrow> (rat \<Rightarrow> rat) \<Rightarrow> system \<Rightarrow> event list \<Rightarrow> system \<Rightarrow> bool" for mac lg where
  Rest: "system_run mac lg s [] s"
| More: "system_run mac lg s es s1 \<Longrightarrow> system_step mac lg s1 e s2 \<Longrightarrow> system_run mac lg s (es @ [e]) s2"

text \<open>A balancer that has been assembled and started, before its first request.\<close>

definition started :: "(string \<Rightarrow> string \<Rightarrow> string) \<Rightarrow> Config \<Rightarrow> app \<Rightarrow> bool" where
  "started mac cfg a \<longleftrightarrow>
     (\<exists>net env fresh tape now a0 logs. App_New mac net env fresh tape now cfg = Inr (a0, logs) \<and> a = App_Start a0)"

subsection \<open>The counters\<close>

definition total_of :: "('p \<Rightarrow> int) \<Rightarrow> 'p list \<Rightarrow> int" where
  "total_of f ps = sum_list (map f ps)"

lemma total_of_simps [simp]:
  "total_of f [] = 0" "total_of f (p # ps) = f p + total_of f ps" "total_of f (ps @ qs) = total_of f ps + total_of f qs"
  by (simp_all add: total_of_def)

lemma total_of_update: "i < length ps \<Longrightarrow> total_of f (ps[i := p]) = total_of f ps - f (ps ! i) + f p"
  unfolding total_of_def by (rule sum_list_update_int)

lemma total_of_zero: "(\<And>p. p \<in> set ps \<Longrightarrow> f p = 0) \<Longrightarrow> total_of f ps = 0"
  by (induction ps) simp_all

definition counted :: "world \<Rightarrow> process list \<Rightarrow> bool" where
  "counted w ps \<longleftrightarrow>
     (\<forall>b<length (w_heap w). ActiveConnections (w_heap w) b = total_of (flying b) ps)
     \<and> (\<forall>i<length (w_settings w). requests_of w i = total_of (serving_in i) ps)
     \<and> (\<forall>i<length (w_settings w). retries_of w i = total_of (retrying_in i) ps)"

definition system_ok :: "system \<Rightarrow> bool" where
  "system_ok s \<longleftrightarrow>
     app_ok (fst s) \<and> list_all (process_ok (ap_world (fst s))) (snd s) \<and> counted (ap_world (fst s)) (snd s)"

lemma app_ok_moved: "app_ok a \<Longrightarrow> moved (ap_world a) w' da dr dt \<Longrightarrow> app_ok (set_world a w')"
  using moved_world [of "ap_world a" w'] by (auto simp: app_ok_def moved_def refs_ok_def)

lemma processes_ok_steady:
  "list_all (process_ok w) ps \<Longrightarrow> world_ok w \<Longrightarrow> steady w w' \<Longrightarrow> list_all (process_ok w') ps"
  by (auto simp: list_all_iff intro: process_ok_steady)

text \<open>A piece that accounts for the process it moves keeps the whole system counted.\<close>

lemma piece_ok:
  assumes "system_ok (a, ps)" "i < length ps"
    and "moved (ap_world a) w' (\<lambda>b. flying b p - flying b (ps ! i)) (\<lambda>j. serving_in j p - serving_in j (ps ! i))
           (\<lambda>j. retrying_in j p - retrying_in j (ps ! i))"
    and "process_ok w' p"
  shows "system_ok (set_world a w', ps[i := p])"
proof -
  have ok: "app_ok a" "list_all (process_ok (ap_world a)) ps" "counted (ap_world a) ps"
    using assms(1) by (simp_all add: system_ok_def)
  have "list_all (process_ok w') ps"
    using ok moved_steady [OF assms(3)] by (auto simp: app_ok_def intro: processes_ok_steady)
  then have "list_all (process_ok w') (ps[i := p])" using assms(4) by (rule list_all_update)
  moreover have "counted w' (ps[i := p])"
    using ok(3) assms(2,3) by (simp add: counted_def moved_def total_of_update)
  ultimately show ?thesis using app_ok_moved [OF ok(1) assms(3)] by (simp add: system_ok_def)
qed

lemma admit_accounts:
  assumes "world_ok w" "Handler_ServeHTTP fresh w r = (hdr, w', p)"
  shows "moved w w' (\<lambda>b. flying b p) (\<lambda>i. serving_in i p) (\<lambda>i. retrying_in i p) \<and> process_ok w' p"
proof -
  have "quiet w w'" using assms(2) by (auto simp: Handler_ServeHTTP_def admit_defs Let_def quiet_def split: prod.splits if_splits)
  moreover have "(\<exists>a. p = Finished a) \<or> (\<exists>r'. p = Reading r' (w_current w))"
    using assms(2) by (auto simp: Handler_ServeHTTP_def admit_defs Let_def split: prod.splits if_splits)
  moreover have "w_current w < length (w_settings w')"
    using assms quiet_settings(1) [OF calculation(1)] by (simp add: world_ok_def)
  ultimately show ?thesis using moved_quiet [of w w'] by auto
qed

text \<open>The backends a merge adds have nothing in flight.\<close>

lemma merge_loop_new_idle:
  "merge_loop h known cs = (h', ps) \<Longrightarrow> known_ok h known \<Longrightarrow> length h \<le> q \<Longrightarrow> q < length h' \<Longrightarrow> ActiveConnections h' q = 0"
proof (induction cs arbitrary: h h' ps)
  case (Cons w cs)
  obtain h1 p where one: "merge_one h known w = (h1, p)" by fastforce
  obtain ps' where rest: "merge_loop h1 known cs = (h', ps')"
    using Cons.prems(1) one by (auto split: prod.splits)
  note spec = merge_one_spec [OF one Cons.prems(2)]
  have ok1: "known_ok h1 known" using spec(1) Cons.prems(2) by (rule extends_heap_known)
  show ?case
  proof (cases "q < length h1")
    case True
    then have "known (bc_addr w) = None \<and> q = length h"
      using one Cons.prems(3) by (auto simp: merge_one_def NewBackend_def SetWeight_def split: option.splits)
    then have "b_active (h1 ! q) = 0" using spec(7) by auto
    then show ?thesis
      using merge_loop_spec(1) [OF rest ok1] True by (simp add: extends_heap_def same_cell_def ActiveConnections_def)
  qed (use Cons.IH [OF rest ok1] Cons.prems(4) in simp)
qed simp

lemma MergeBackends_new_idle:
  "MergeBackends h existing configured = (h', ps) \<Longrightarrow> refs_ok h existing \<Longrightarrow> length h \<le> q \<Longrightarrow> q < length h' \<Longrightarrow>
     ActiveConnections h' q = 0"
  unfolding MergeBackends_def by (rule merge_loop_new_idle) (auto intro: known_ok_known_backends simp: refs_ok_def)

lemma process_ok_refs:
  assumes "process_ok w p" "world_ok w"
  shows "length (w_heap w) \<le> b \<Longrightarrow> flying b p = 0" "length (w_settings w) \<le> i \<Longrightarrow> serving_in i p = 0 \<and> retrying_in i p = 0"
  using assms refs_of_settings [OF assms(2)]
  by (cases p; force simp: flight_ok_def serving_ok_def Let_def)+

lemma outside_ok:
  assumes "system_ok (a, ps)" "quiet (ap_world a) (ap_world a')" "ap_backends a' = ap_backends a"
  shows "system_ok (a', ps)"
proof -
  have ok: "world_ok (ap_world a)" "refs_ok (w_heap (ap_world a)) (ap_backends a)"
    "list_all (process_ok (ap_world a)) ps" "counted (ap_world a) ps"
    using assms(1) by (simp_all add: system_ok_def app_ok_def)
  note m = moved_quiet [OF assms(2)]
  have "app_ok a'" using moved_world [OF m ok(1)] ok(2) assms(3) m by (simp add: app_ok_def moved_def refs_ok_def)
  moreover have "counted (ap_world a') ps" using ok(4) m by (simp add: counted_def moved_def)
  ultimately show ?thesis using processes_ok_steady [OF ok(3,1) moved_steady [OF m]] by (simp add: system_ok_def)
qed

lemma reload_ok:
  assumes "system_ok (a, ps)" "App_Reload mac decode file a = (e, a', logs)"
  shows "system_ok (a', ps)"
proof (cases e)
  case (Some err)
  have "ap_world a' = ap_world a \<or> (\<exists>m. ap_world a' = (ap_world a)\<lparr>w_metrics := m\<rparr>)" "ap_backends a' = ap_backends a"
    using assms(2) Some by (auto simp: App_Reload_def Let_def observe_def split: sum.splits)
  then show ?thesis by (intro outside_ok [OF assms(1)]) (auto simp: quiet_def)
next
  case None
  let ?w = "ap_world a" and ?w' = "ap_world a'"
  have ok: "app_ok a" "list_all (process_ok ?w) ps" "counted ?w ps" "world_ok ?w"
    using assms(1) by (simp_all add: system_ok_def app_ok_def)
  note applied = assms(2) [unfolded None]
  note steady = applied_reload_steady [OF applied ok(1)]
  have counted: "counted ?w' ps"
    using applied
  proof (cases rule: App_Reload_applied)
    case (1 new h bs strategies k m)
    have refs: "refs_ok (w_heap ?w) (ap_backends a)" using ok(1) by (simp add: app_ok_def)
    note ext = MergeBackends_refs(2) [OF 1(2) refs] and idle = MergeBackends_new_idle [OF 1(2) refs]
    have beyond: "\<And>b. length (w_heap ?w) \<le> b \<Longrightarrow> total_of (flying b) ps = 0"
      "\<And>i. length (w_settings ?w) \<le> i \<Longrightarrow> total_of (serving_in i) ps = 0 \<and> total_of (retrying_in i) ps = 0"
      using ok(2,4) process_ok_refs by (auto simp: list_all_iff intro!: total_of_zero)
    have "ActiveConnections h b = total_of (flying b) ps" if "b < length h" for b
      using that ok(3) ext idle beyond(1)
      by (cases "b < length (w_heap ?w)") (auto simp: counted_def extends_heap_def same_cell_def ActiveConnections_def)
    moreover have "requests_of ?w' i = total_of (serving_in i) ps \<and> retries_of ?w' i = total_of (retrying_in i) ps"
      if "i < length (w_settings ?w')" for i
      using that ok(3) beyond(2) unfolding 1(4)
      by (cases "i < length (w_settings ?w)") (auto simp: counted_def nth_append settingsFor_def newRetryBudget_def)
    ultimately show ?thesis unfolding counted_def 1(4) by simp
  qed
  show ?thesis using steady counted processes_ok_steady [OF ok(2,4)] by (simp add: system_ok_def)
qed

lemma system_step_ok:
  assumes "system_step mac lg s e s'" "system_ok s"
  shows "system_ok s'"
  using assms
proof (induction rule: system_step.induct)
  case (Arrive a ps r)
  then show ?case by (simp add: system_ok_def counted_def)
next
  case (Admit i ps r fresh a hdr w' p)
  then show ?case using admit_accounts [OF _ Admit(3)] by (intro piece_ok) (auto simp: system_ok_def app_ok_def)
next
  case (Begin i ps r j a w' p)
  have "j < length (w_settings (ap_world a))"
    using Begin(1,2,4) by (auto simp: system_ok_def list_all_length dest!: spec [where x = i])
  from begin_request_accounts [OF _ this Begin(3)] Begin show ?case
    by (intro piece_ok) (auto simp: system_ok_def app_ok_def)
next
  case (Resume i ps f a t gone gone_later w' p)
  have f: "flight_ok (ap_world a) f"
    using Resume(1,2,4) by (auto simp: system_ok_def list_all_length dest!: spec [where x = i])
  have w: "world_ok (ap_world a)" using Resume(4) by (simp add: system_ok_def app_ok_def)
  have "moved (ap_world a) w' (\<lambda>b. flying b p - flying b (ps ! i)) (\<lambda>j. serving_in j p - serving_in j (ps ! i))
      (\<lambda>j. retrying_in j p - retrying_in j (ps ! i)) \<and> process_ok w' p"
    unfolding Resume(2) by (rule resume_accounts [OF w f Resume(3)])
  then show ?case using piece_ok [OF Resume(4,1)] by blast
next
  case (Probe a ps addr ex)
  then show ?case by (elim outside_ok) (simp_all add: quiet_def)
next
  case (Reload decode src a e a' logs ps)
  then show ?case by (blast intro: reload_ok)
next
  case (Pass a now ps tape)
  then show ?case by (elim outside_ok) (simp_all add: quiet_def)
qed

lemma system_run_ok: "system_run mac lg s es s' \<Longrightarrow> system_ok s \<Longrightarrow> system_ok s'"
  by (induction rule: system_run.induct) (auto intro: system_step_ok)

lemma started_ok:
  assumes "started mac cfg a"
  shows "system_ok (a, [])"
proof -
  obtain net env fresh tape now a0 logs where new: "App_New mac net env fresh tape now cfg = Inr (a0, logs)" and a: "a = App_Start a0"
    using assms by (auto simp: started_def)
  obtain h bs where m: "BackendsFromConfig [] (c_backends cfg) = (h, bs)" by fastforce
  then have merged: "MergeBackends [] [] (c_backends cfg) = (h, bs)" by (simp add: BackendsFromConfig_def)
  have "ActiveConnections h q = 0" if "q < length h" for q
    using MergeBackends_new_idle [OF merged _ _ that] by simp
  then have "counted (ap_world a0) []"
    using new m
    by (auto simp: App_New_def Handler_New_def counted_def settingsFor_def newRetryBudget_def Let_def split: sum.splits prod.splits)
  then have "system_ok (a0, [])" using App_New_ok(1) [OF new] by (simp add: system_ok_def)
  then show ?thesis
    by (rule outside_ok) (simp_all add: a App_Start_def Let_def quiet_def)
qed

subsection \<open>Every counter is exact\<close>

fun forwards_to :: "bref \<Rightarrow> process \<Rightarrow> bool" where
  "forwards_to b (Forwarding f) = (fl_backend f = b)"
| "forwards_to b _ = False"

fun serves_under :: "sref \<Rightarrow> process \<Rightarrow> bool" where
  "serves_under i (Forwarding f) = (sv_active (fl_serving f) = i)"
| "serves_under i _ = False"

fun retries_under :: "sref \<Rightarrow> process \<Rightarrow> bool" where
  "retries_under i (Forwarding f) = (sv_active (fl_serving f) = i \<and> fl_retry f)"
| "retries_under i _ = False"

lemma flying_count: "total_of (flying b) ps = int (length (filter (forwards_to b) ps))"
proof (induction ps)
  case (Cons p ps)
  then show ?case by (cases p) simp_all
qed simp

lemma serving_count: "total_of (serving_in i) ps = int (length (filter (serves_under i) ps))"
proof (induction ps)
  case (Cons p ps)
  then show ?case by (cases p) simp_all
qed simp

lemma retrying_count: "total_of (retrying_in i) ps = int (length (filter (retries_under i) ps))"
proof (induction ps)
  case (Cons p ps)
  then show ?case by (cases p) simp_all
qed simp

text \<open>
  C1: However requests, retries, hang-ups, aborted answers, probes and reloads interleave, at every moment
  each backend's count of active connections is the number of requests being forwarded to it, each
  budget's load is the number of requests being served under its configuration, and its retries in flight
  are the retries among those. Nothing is leaked and nothing given back twice, on any path.
\<close>

lemma counters_are_exact:
  assumes "started mac cfg a" "system_run mac lg (a, []) es (a', ps)"
  shows "(\<forall>b<length (w_heap (ap_world a')). ActiveConnections (w_heap (ap_world a')) b = int (length (filter (forwards_to b) ps)))
     \<and> (\<forall>i<length (w_settings (ap_world a')). requests_of (ap_world a') i = int (length (filter (serves_under i) ps))
          \<and> retries_of (ap_world a') i = int (length (filter (retries_under i) ps)))"
  using system_run_ok [OF assms(2) started_ok [OF assms(1)]]
  by (simp add: system_ok_def counted_def flying_count serving_count retrying_count)

subsection \<open>References\<close>

text \<open>What a request holds on to: a configuration, its strategy, and the backend it is forwarded to.\<close>

fun refers_validly :: "world \<Rightarrow> process \<Rightarrow> bool" where
  "refers_validly w (Reading r i) = (i < length (w_settings w))"
| "refers_validly w (Forwarding f) =
     (let i = sv_active (fl_serving f); s = w_settings w ! i
      in i < length (w_settings w) \<and> se_strategy s < length (w_strategies w)
         \<and> fl_backend f \<in> set (se_backends s) \<and> fl_backend f < length (w_heap w)
         \<and> distinct (sv_tried (fl_serving f))
         \<and> set (sv_tried (fl_serving f)) \<subseteq> addr_of (w_heap w) ` set (se_backends s))"
| "refers_validly w p = True"

lemma process_refers: "world_ok w \<Longrightarrow> process_ok w p \<Longrightarrow> refers_validly w p"
  using world_ok_nth [of w]
  by (cases p) (auto simp: flight_ok_def serving_ok_def settings_ok_def refs_ok_def Let_def)

text \<open>
  However requests and reloads interleave, no request is left with a dangling reference: the
  configuration it runs under, the algorithm of that configuration and the backend it is forwarded to
  exist, the backend belongs to the configuration, and the backends it has tried are different ones of
  that configuration. New requests find a configuration as well.
\<close>

lemma references_stay_valid:
  assumes "started mac cfg a" "system_run mac lg (a, []) es (a', ps)"
  shows "w_current (ap_world a') < length (w_settings (ap_world a'))
     \<and> list_all (refers_validly (ap_world a')) ps"
  using system_run_ok [OF assms(2) started_ok [OF assms(1)]]
  by (auto simp: system_ok_def app_ok_def world_ok_def list_all_iff intro: process_refers [unfolded world_ok_def])

subsection \<open>Every request ends\<close>

definition pieces_of :: "nat \<Rightarrow> event list \<Rightarrow> nat" where
  "pieces_of i es = length (filter (\<lambda>e. e = Piece i) es)"

lemma pieces_of_simps [simp]:
  "pieces_of i [] = 0" "pieces_of i (es @ [e]) = pieces_of i es + (if e = Piece i then 1 else 0)"
  by (simp_all add: pieces_of_def)

lemma system_step_steady:
  assumes "system_step mac lg (a, ps) e (a', ps')" "system_ok (a, ps)"
  shows "steady (ap_world a) (ap_world a')"
proof -
  have ok: "app_ok a" "world_ok (ap_world a)" "list_all (process_ok (ap_world a)) ps"
    using assms(2) by (simp_all add: system_ok_def app_ok_def)
  show ?thesis using assms(1)
  proof (cases rule: system_step.cases)
    case (Admit i r fresh hdr w' p)
    then show ?thesis using admit_accounts [OF ok(2) Admit(6)] by (auto intro: moved_steady)
  next
    case (Begin i r s w' p)
    have "process_ok (ap_world a) (ps ! i)" using ok(3) Begin(4) by (simp add: list_all_length)
    then show ?thesis using begin_request_accounts [OF ok(2) _ Begin(6)] Begin by (auto intro: moved_steady)
  next
    case (Resume i f t gone gone_later w' p)
    have "process_ok (ap_world a) (ps ! i)" using ok(3) Resume(4) by (simp add: list_all_length)
    then have "flight_ok (ap_world a) f" using Resume(5) by simp
    from resume_accounts [OF ok(2) this Resume(6)] Resume(2) show ?thesis by (auto intro: moved_steady)
  next
    case (Reload decode src err logs)
    show ?thesis
    proof (cases err)
      case None
      then show ?thesis using applied_reload_steady [OF _ ok(1)] Reload by auto
    next
      case (Some er)
      have "ap_world a' = ap_world a \<or> (\<exists>m. ap_world a' = (ap_world a)\<lparr>w_metrics := m\<rparr>)"
        using Reload Some by (auto simp: App_Reload_def Let_def observe_def split: sum.splits)
      then show ?thesis by (auto simp: steady_def)
    qed
  qed (auto simp: steady_def)
qed

text \<open>Where a request that was about to be read is after some of its pieces.\<close>

definition on_its_way :: "process \<Rightarrow> sref \<Rightarrow> nat \<Rightarrow> process \<Rightarrow> bool" where
  "on_its_way p0 s k p \<longleftrightarrow>
     (k = 0 \<and> p = p0) \<or> (\<exists>f. p = Forwarding f \<and> sv_active (fl_serving f) = s \<and> k = sv_n (fl_serving f) + 1)
     \<or> (\<exists>ans. p = Finished ans)"

lemma offer_goes_on:
  assumes "world_ok w" "serving_ok w v" "offer lg w v = (w', p)"
  shows "(\<exists>ans. p = Finished ans) \<or> (\<exists>f. p = Forwarding f \<and> sv_active (fl_serving f) = sv_active v \<and> sv_n (fl_serving f) = sv_n v)"
  using assms(1,2)
  by (cases rule: offer_cases [where lg = lg]) (use assms(3) in \<open>auto simp: finish_def begin_attempt_def\<close>)

lemma begin_goes_on:
  assumes "world_ok w" "s < length (w_settings w)" "begin_request lg w r s = (w', p)"
  shows "on_its_way (Reading r s) s 1 p"
proof (cases "replayableBody r (w_settings w ! s)")
  case (Inl e)
  then show ?thesis using assms(3) by (auto simp: begin_request_def on_its_way_def)
next
  case (Inr body)
  obtain pinned cookie where pin: "read (se_pins (w_settings w ! s)) r = (pinned, cookie)" by fastforce
  let ?v = "\<lparr>sv_request = r, sv_active = s, sv_body = body, sv_key = se_hashKey (w_settings w ! s) r,
     sv_pinned = pinned, sv_cookie = cookie, sv_tried = [], sv_n = 0\<rparr>"
  have w: "world_ok (on_budget s requestStarted w)"
    by (rule moved_world [OF moved_budget [of requestStarted 1 0] assms(1)]) (simp_all add: requestStarted_def)
  have v: "serving_ok (on_budget s requestStarted w) ?v" using assms(2) by (simp add: serving_ok_def)
  have "offer lg (on_budget s requestStarted w) ?v = (w', p)"
    using assms(3) Inr pin by (simp add: begin_request_def)
  from offer_goes_on [OF w v this] show ?thesis by (auto simp: on_its_way_def)
qed

lemma resume_goes_on:
  assumes "world_ok w" "flight_ok w f" "resume lg w f t gone gone_later = (w', p)"
  shows "on_its_way p0 (sv_active (fl_serving f)) (sv_n (fl_serving f) + 2) p"
proof (cases rule: resume_cases [where w = w and f = f and lg = lg and t = t and gone = gone and gone_later = gone_later])
  case (answered w1 a)
  then show ?thesis using assms(3) by (simp add: finish_def on_its_way_def)
next
  case (again w1 e)
  note m = end_attempt_moved [OF assms(1,2) again(1)]
  have "serving_ok w (fl_serving f)" using assms(2) by (simp add: flight_ok_def Let_def)
  then have "serving_ok (end_attempt w1 f) ((fl_serving f)\<lparr>sv_n := sv_n (fl_serving f) + 1\<rparr>)"
    using serving_ok_steady [OF _ assms(1) moved_steady [OF m]] by (simp add: serving_ok_def)
  from offer_goes_on [OF moved_world [OF m assms(1)] this, of lg w' p] again(6) assms(3)
  show ?thesis by (auto simp: on_its_way_def)
qed

lemma step_on_its_way:
  assumes "system_step mac lg (a, ps) e (a', ps')" "system_ok (a, ps)" "i < length ps"
    and "on_its_way (Reading r s) s k (ps ! i)" "s < length (w_settings (ap_world a))"
  shows "i < length ps' \<and> on_its_way (Reading r s) s (k + (if e = Piece i then 1 else 0)) (ps' ! i)"
proof -
  have ok: "world_ok (ap_world a)" "list_all (process_ok (ap_world a)) ps"
    using assms(2) by (simp_all add: system_ok_def app_ok_def)
  show ?thesis using assms(1)
  proof (cases rule: system_step.cases)
    case (Admit j r' fresh hdr w' p)
    then show ?thesis using assms(3,4) by (auto simp: on_its_way_def nth_list_update)
  next
    case (Begin j r' s' w' p)
    show ?thesis
    proof (cases "j = i")
      case True
      then have "r' = r" "s' = s" "k = 0" using Begin assms(4) by (auto simp: on_its_way_def)
      then show ?thesis using begin_goes_on [OF ok(1) assms(5)] Begin True assms(3) by auto
    qed (use Begin assms(3,4) in auto)
  next
    case (Resume j f t gone gone_later w' p)
    show ?thesis
    proof (cases "j = i")
      case True
      then have way: "sv_active (fl_serving f) = s" "k = sv_n (fl_serving f) + 1"
        using Resume assms(4) by (auto simp: on_its_way_def)
      have "process_ok (ap_world a) (ps ! i)" using ok(2) assms(3) by (simp add: list_all_length)
      then have "flight_ok (ap_world a) f" using Resume True by simp
      from resume_goes_on [OF ok(1) this Resume(6), of "Reading r s"] show ?thesis
        using Resume True assms(3) way by simp
    qed (use Resume assms(3,4) in auto)
  qed (use assms(3,4) in \<open>auto simp: nth_append\<close>)
qed

lemma run_on_its_way:
  assumes "system_run mac lg (a, ps) es (a', ps')" "system_ok (a, ps)" "i < length ps" "ps ! i = Reading r s"
  shows "i < length ps' \<and> on_its_way (Reading r s) s (pieces_of i es) (ps' ! i) \<and> system_ok (a', ps')
     \<and> steady (ap_world a) (ap_world a')"
  using assms
proof (induction "(a, ps)" es "(a', ps')" arbitrary: a' ps' rule: system_run.induct)
  case Rest
  then show ?case by (simp add: on_its_way_def)
next
  case (More es s1 e)
  obtain a1 ps1 where s1: "s1 = (a1, ps1)" by fastforce
  note IH = More(2) [OF s1 More(4-6)] and step = More(3) [unfolded s1]
  have "s < length (w_settings (ap_world a))"
    using More(4-6) by (auto simp: system_ok_def list_all_length dest!: spec [where x = i])
  then have "s < length (w_settings (ap_world a1))" using IH by (auto dest: steady_at)
  with step_on_its_way [OF step] system_step_ok [OF step] system_step_steady [OF step] IH
  show ?case by (auto intro: steady_trans)
qed

text \<open>A request that has not been answered can go on.\<close>

lemma unanswered_goes_on:
  "i < length ps \<Longrightarrow> (\<nexists>ans. ps ! i = Finished ans) \<Longrightarrow> \<exists>s'. system_step mac lg (a, ps) (Piece i) s'"
proof (cases "ps ! i")
  case (Arrived r)
  then show "i < length ps \<Longrightarrow> ?thesis"
    using system_step.Admit [of i ps r fresh a] by (metis prod.collapse)
next
  case (Reading r s)
  then show "i < length ps \<Longrightarrow> ?thesis"
    using system_step.Begin [of i ps r s lg a] by (metis prod.collapse)
next
  case (Forwarding f)
  then show "i < length ps \<Longrightarrow> ?thesis"
    using system_step.Resume [of i ps f lg a] by (metis prod.collapse)
qed auto

text \<open>
  C2: Whatever else the balancer does meanwhile, a request that has passed the checks is either answered, or
  can go on and has used no more pieces than the smaller of the attempts it is allowed and the backends of
  its pool: it is forwarded at most that often, and answered when they are used up.
\<close>

lemma request_is_answered:
  assumes "system_ok (a, ps)" "i < length ps" "ps ! i = Reading r s" "system_run mac lg (a, ps) es (a', ps')"
  shows "(\<exists>ans. ps' ! i = Finished ans)
     \<or> pieces_of i es \<le> min (nat (se_attempts (w_settings (ap_world a) ! s))) (length (se_backends (w_settings (ap_world a) ! s)))
       \<and> (\<exists>s'. system_step mac lg (a', ps') (Piece i) s')"
proof (rule disjCI)
  assume unfinished: "\<not> (pieces_of i es \<le> min (nat (se_attempts (w_settings (ap_world a) ! s))) (length (se_backends (w_settings (ap_world a) ! s)))
       \<and> (\<exists>s'. system_step mac lg (a', ps') (Piece i) s'))"
  let ?s = "w_settings (ap_world a) ! s" and ?p = "ps' ! i"
  note run = run_on_its_way [OF assms(4,1-3)]
  show "\<exists>ans. ?p = Finished ans"
  proof (rule ccontr)
    assume open_: "\<nexists>ans. ?p = Finished ans"
    have s: "s < length (w_settings (ap_world a))"
      using assms(1-3) by (auto simp: system_ok_def list_all_length dest!: spec [where x = i])
    have "pieces_of i es \<le> min (nat (se_attempts ?s)) (length (se_backends ?s))"
    proof (cases "pieces_of i es = 0")
      case False
      then obtain f where f: "?p = Forwarding f" "sv_active (fl_serving f) = s" "pieces_of i es = sv_n (fl_serving f) + 1"
        using run open_ by (auto simp: on_its_way_def)
      let ?s' = "w_settings (ap_world a') ! s"
      have same: "se_attempts ?s' = se_attempts ?s" "se_backends ?s' = se_backends ?s"
        using static_fields [OF steady_at(2) [OF _ s]] run by blast+
      have "process_ok (ap_world a') ?p" using run by (simp add: system_ok_def list_all_length)
      then have "flight_ok (ap_world a') f" using f(1) by simp
      then have n: "int (sv_n (fl_serving f)) < se_attempts ?s" and tried: "length (sv_tried (fl_serving f)) = sv_n (fl_serving f) + 1"
        "distinct (sv_tried (fl_serving f))" "set (sv_tried (fl_serving f)) \<subseteq> addr_of (w_heap (ap_world a')) ` set (se_backends ?s)"
        using f(2) same by (auto simp: flight_ok_def serving_ok_def Let_def)
      have "card (set (sv_tried (fl_serving f))) \<le> card (addr_of (w_heap (ap_world a')) ` set (se_backends ?s))"
        using tried(3) by (intro card_mono) simp_all
      also have "\<dots> \<le> length (se_backends ?s)" by (rule order.trans [OF card_image_le card_length]) simp
      finally show ?thesis using n tried(1,2) f(3) by (simp add: distinct_card)
    qed simp
    then show False using unfinished unanswered_goes_on [of i ps'] run open_ by blast
  qed
qed

lemma request_is_answered_witness:
  "\<exists>a' ps'. system_run ex_mac ex_log (ex_app, [Reading ex_get 0]) [Piece 0] (a', ps')
     \<and> ((\<exists>ans. ps' ! 0 = Finished ans)
        \<or> pieces_of 0 [Piece 0] \<le> min (nat (se_attempts (w_settings (ap_world ex_app) ! 0)))
            (length (se_backends (w_settings (ap_world ex_app) ! 0)))
          \<and> (\<exists>s'. system_step ex_mac ex_log (a', ps') (Piece 0) s'))"
proof -
  have ok: "system_ok (ex_app, [Reading ex_get 0])"
    using ex_app_ok
    by (auto simp: system_ok_def counted_def ex_app_def Handler_New_def Let_def ex_pair_def ActiveConnections_def
        settingsFor_def newRetryBudget_def less_Suc_eq)
  obtain s1 where step: "system_step ex_mac ex_log (ex_app, [Reading ex_get 0]) (Piece 0) s1"
    using unanswered_goes_on [of 0 "[Reading ex_get 0]" ex_mac ex_log ex_app] by auto
  obtain a' ps' where s1: "s1 = (a', ps')" by fastforce
  have "system_run ex_mac ex_log (ex_app, [Reading ex_get 0]) ([] @ [Piece 0]) (a', ps')"
    using system_run.More [OF system_run.Rest step] unfolding s1 .
  then have run: "system_run ex_mac ex_log (ex_app, [Reading ex_get 0]) [Piece 0] (a', ps')" by simp
  have first: "0 < length [Reading ex_get 0]" "[Reading ex_get 0] ! 0 = Reading ex_get 0" by simp_all
  from run request_is_answered [OF ok first run] show ?thesis by blast
qed

lemma ex_started: "\<exists>a. started ex_mac (applyDefaults ex_file_config) a"
proof -
  let ?c = "applyDefaults ex_file_config"
  obtain s where s: "Strategies.New (c_algorithm ?c) (c_consistent_hash ?c) = Inr s"
    using ex_file_validates unfolding validate_Nil_iff rest_ok_def by (auto simp: Strategies.New_def constant_defs)
  have "\<exists>a logs. App_New ex_mac Inr [] ''k'' [] 0 ?c = Inr (a, logs)"
    by (simp add: App_New_def s stickySecret_def Server.New_def Server.NewMetrics_def listen_def Let_def split: prod.split)
  then show ?thesis unfolding started_def by blast
qed

lemma counters_are_exact_witness:
  "\<exists>a. started ex_mac (applyDefaults ex_file_config) a
     \<and> system_run ex_mac ex_log (a, []) [Arrival] (a, [Arrived ex_get])
     \<and> (0 < length (w_settings (ap_world a)) \<and> requests_of (ap_world a) 0 = int (length (filter (serves_under 0) [Arrived ex_get])))"
proof -
  obtain a where a: "started ex_mac (applyDefaults ex_file_config) a" using ex_started by blast
  have "system_run ex_mac ex_log (a, []) ([] @ [Arrival]) (a, [] @ [Arrived ex_get])"
    by (rule system_run.More [OF system_run.Rest system_step.Arrive])
  then have run: "system_run ex_mac ex_log (a, []) [Arrival] (a, [Arrived ex_get])" by simp
  have "w_current (ap_world a) < length (w_settings (ap_world a))"
    using started_ok [OF a] by (simp add: system_ok_def app_ok_def world_ok_def)
  then have "0 < length (w_settings (ap_world a))" by (rule le_less_trans [OF le0])
  with counters_are_exact [OF a run] a run show ?thesis by blast
qed

lemma references_stay_valid_witness:
  "\<exists>a. system_run ex_mac ex_log (a, []) [Arrival] (a, [Arrived ex_get])
     \<and> w_current (ap_world a) < length (w_settings (ap_world a))"
proof -
  obtain a where a: "started ex_mac (applyDefaults ex_file_config) a" using ex_started by blast
  have "system_run ex_mac ex_log (a, []) ([] @ [Arrival]) (a, [] @ [Arrived ex_get])"
    by (rule system_run.More [OF system_run.Rest system_step.Arrive])
  then have run: "system_run ex_mac ex_log (a, []) [Arrival] (a, [Arrived ex_get])" by simp
  from references_stay_valid [OF a run] run show ?thesis by blast
qed

end
