(* ===== verification/Lifecycle.thy ===== *)
theory Lifecycle
  imports App
begin

text \<open>
  How the process runs and stops: \<open>App.Run\<close> and \<open>reloadUntilDone\<close> of \<open>internal/app/app.go\<close>, and
  \<open>reloadOn\<close>, \<open>run\<close> and the probe of \<open>cmd/lb\<close>. The goroutines of \<open>Run\<close> are a state machine: the
  context all share, the one of the metrics server, the readiness probe, and the two servers with how each
  ended. The reload signals are another: the channel the runtime puts a signal on and the channel of requests,
  one place each, full ones dropping what arrives. The lemmas: the metrics server outlives the
  traffic server, neither is left running without the other, and no reload signal is lost.
\<close>

subsection \<open>Running both servers\<close>

record running =
  ru_done :: bool
  ru_admin_ctx_done :: bool
  ru_probes :: probes
  ru_traffic :: "run_end option"
  ru_admin :: "run_end option"

definition run_begins :: "app \<Rightarrow> running" where
  "run_begins a =
     \<lparr>ru_done = False, ru_admin_ctx_done = False, ru_probes = ap_probes a, ru_traffic = None, ru_admin = None\<rparr>"

text \<open>The goroutines' bodies, with their deferred cancellations.\<close>

definition traffic_ends :: "running \<Rightarrow> run_end \<Rightarrow> running" where
  "traffic_ends st ev = st\<lparr>ru_traffic := Some ev, ru_done := True, ru_admin_ctx_done := True\<rparr>"

definition admin_ends :: "running \<Rightarrow> run_end \<Rightarrow> running" where
  "admin_ends st ev = st\<lparr>ru_admin := Some ev, ru_done := True\<rparr>"

fun can_end :: "bool \<Rightarrow> run_end \<Rightarrow> bool" where
  "can_end ctx_done (ServeReturned e) = True"
| "can_end ctx_done (ContextDone e) = ctx_done"

inductive run_step :: "running \<Rightarrow> running \<Rightarrow> bool" where
  Stopped: "run_step st (st\<lparr>ru_done := True\<rparr>)"
| Drains: "ru_done st \<Longrightarrow> run_step st (st\<lparr>ru_probes := Drain (ru_probes st)\<rparr>)"
| Traffic: "ru_traffic st = None \<Longrightarrow> can_end (ru_done st) ev \<Longrightarrow> run_step st (traffic_ends st ev)"
| Admin: "ru_admin st = None \<Longrightarrow> can_end (ru_admin_ctx_done st) ev \<Longrightarrow> run_step st (admin_ends st ev)"

inductive run_steps :: "running \<Rightarrow> running \<Rightarrow> bool" where
  Refl: "run_steps st st"
| Step: "run_steps st st1 \<Longrightarrow> run_step st1 st2 \<Longrightarrow> run_steps st st2"

inductive_cases run_stepE: "run_step st st'"

text \<open>\<open>errors.Join\<close> of what the servers returned.\<close>

definition run_result :: "running \<Rightarrow> server_error list option" where
  "run_result st =
     (case (ru_traffic st, ru_admin st) of
        (Some t, Some ad) \<Rightarrow>
          Some ((case Server.Run t of Some e \<Rightarrow> [e] | None \<Rightarrow> []) @ (case Server.Run ad of Some e \<Rightarrow> [e] | None \<Rightarrow> []))
      | _ \<Rightarrow> None)"

definition run_inv :: "running \<Rightarrow> bool" where
  "run_inv st \<longleftrightarrow>
     (ru_traffic st \<noteq> None \<or> ru_admin st \<noteq> None \<or> ru_admin_ctx_done st \<or> pr_draining (ru_probes st) \<longrightarrow> ru_done st)
     \<and> (ru_admin_ctx_done st \<longleftrightarrow> ru_traffic st \<noteq> None)
     \<and> (\<forall>e. ru_admin st = Some (ContextDone e) \<longrightarrow> ru_traffic st \<noteq> None)"

lemma run_inv_step: "run_step st st' \<Longrightarrow> run_inv st \<Longrightarrow> run_inv st'"
proof (induction rule: run_step.induct)
  case (Admin st ev)
  then show ?case by (cases ev) (auto simp: run_inv_def admin_ends_def)
qed (auto simp: run_inv_def traffic_ends_def Drain_def)

lemma run_inv_steps: "run_steps st st' \<Longrightarrow> run_inv st \<Longrightarrow> run_inv st'"
  by (induction rule: run_steps.induct) (auto intro: run_inv_step)

text \<open>
  While the balancer runs and stops, the metrics server is shut down only after the traffic server has
  ended, so that its readiness probe can be read while requests drain; once either server has ended,
  for whatever reason, everything is told to stop; and from then on the run can always be brought to its
  end, with both servers shut down. The balancer is not reported as draining before.
\<close>

lemma metrics_outlive_traffic:
  assumes "run_steps (run_begins a) st" "\<not> pr_draining (ap_probes a)"
  shows "(\<forall>e. ru_admin st = Some (ContextDone e) \<longrightarrow> ru_traffic st \<noteq> None)
     \<and> (ru_traffic st \<noteq> None \<or> ru_admin st \<noteq> None \<or> pr_draining (ru_probes st) \<longrightarrow> ru_done st)
     \<and> (ru_done st \<longrightarrow> (\<exists>st'. run_steps st st' \<and> run_result st' \<noteq> None))"
proof -
  have inv: "run_inv st"
    by (rule run_inv_steps [OF assms(1)]) (use assms(2) in \<open>simp add: run_inv_def run_begins_def\<close>)
  have "\<exists>st'. run_steps st st' \<and> run_result st' \<noteq> None" if ctx: "ru_done st"
  proof -
    obtain st1 where st1: "run_steps st st1" "ru_traffic st1 \<noteq> None" "ru_admin_ctx_done st1" "ru_admin st1 = ru_admin st"
    proof (cases "ru_traffic st")
      case None
      have "run_step st (traffic_ends st (ContextDone None))" by (rule run_step.Traffic) (use None ctx in auto)
      then show thesis
        using that [of "traffic_ends st (ContextDone None)"] run_steps.Step [OF run_steps.Refl]
        by (simp add: traffic_ends_def)
    next
      case (Some t)
      then show thesis using that [of st] run_steps.Refl inv by (simp add: run_inv_def)
    qed
    show ?thesis
    proof (cases "ru_admin st1")
      case None
      have "run_step st1 (admin_ends st1 (ContextDone None))" by (rule run_step.Admin) (use None st1 in auto)
      then show ?thesis using run_steps.Step [OF st1(1)] st1(2)
        by (intro exI [of _ "admin_ends st1 (ContextDone None)"]) (auto simp: run_result_def admin_ends_def)
    next
      case (Some ad)
      then show ?thesis using st1 by (intro exI [of _ st1]) (auto simp: run_result_def)
    qed
  qed
  then show ?thesis using inv by (simp add: run_inv_def)
qed

definition ex_stopped :: running where
  "ex_stopped = admin_ends (traffic_ends ((run_begins ex_app)\<lparr>ru_done := True\<rparr>) (ContextDone None)) (ContextDone None)"

lemma ex_stopped_reached: "run_steps (run_begins ex_app) ex_stopped"
proof -
  have "run_steps (run_begins ex_app) ((run_begins ex_app)\<lparr>ru_done := True\<rparr>)"
    by (rule run_steps.Step [OF run_steps.Refl run_step.Stopped])
  then have "run_steps (run_begins ex_app) (traffic_ends ((run_begins ex_app)\<lparr>ru_done := True\<rparr>) (ContextDone None))"
    by (rule run_steps.Step [OF _ run_step.Traffic]) (simp_all add: run_begins_def)
  then show ?thesis unfolding ex_stopped_def
    by (rule run_steps.Step [OF _ run_step.Admin]) (simp_all add: run_begins_def traffic_ends_def)
qed

lemma metrics_outlive_traffic_witness: "ru_traffic ex_stopped \<noteq> None"
  using metrics_outlive_traffic [OF ex_stopped_reached]
  by (simp add: ex_stopped_def admin_ends_def traffic_ends_def ex_app_def NewProbes_def)

subsection \<open>Reload signals\<close>

record signals =
  sg_received :: bool
  sg_requested :: bool

datatype signal_event = Signal | Pass_on | Take

text \<open>
  The runtime's send, the goroutine of \<open>reloadOn\<close>, and the receive of \<open>reloadUntilDone\<close>, which reloads.
\<close>

fun signal_step :: "signals \<Rightarrow> signal_event \<Rightarrow> signals option" where
  "signal_step s Signal = Some (s\<lparr>sg_received := True\<rparr>)"
| "signal_step s Pass_on =
     (if sg_received s then Some (s\<lparr>sg_received := False, sg_requested := True\<rparr>) else None)"
| "signal_step s Take = (if sg_requested s then Some (s\<lparr>sg_requested := False\<rparr>) else None)"

fun signal_run :: "signals \<Rightarrow> signal_event list \<Rightarrow> signals option" where
  "signal_run s [] = Some s"
| "signal_run s (e # es) = (case signal_step s e of None \<Rightarrow> None | Some s' \<Rightarrow> signal_run s' es)"

definition pending :: "signals \<Rightarrow> bool" where
  "pending s \<longleftrightarrow> sg_received s \<or> sg_requested s"

lemma pending_until_taken:
  "signal_run s es = Some s' \<Longrightarrow> pending s \<Longrightarrow> Take \<notin> set es \<Longrightarrow> pending s'"
proof (induction es arbitrary: s)
  case (Cons e es)
  then obtain s1 where "signal_step s e = Some s1" "signal_run s1 es = Some s'" by (auto split: option.splits)
  moreover have "pending s1" using calculation(1) Cons.prems by (cases e) (auto simp: pending_def split: if_splits)
  ultimately show ?case using Cons by auto
qed simp

text \<open>
  C33: No reload signal is lost: whatever signals came before and however they were dropped for full
  channels, after a signal the configuration is read again before nothing is left to do. And signals do not
  pile up: after any number of them at most two reloads are to come.
\<close>

lemma no_reload_signal_is_lost:
  assumes "signal_run s (Signal # es) = Some s'"
  shows "(\<not> pending s' \<longrightarrow> Take \<in> set es) \<and> length (filter (\<lambda>e. e = Take) es) \<le> length (filter (\<lambda>e. e = Signal) es) + 2"
proof -
  obtain s1 where s1: "signal_run s1 es = Some s'" "pending s1" using assms by (auto simp: pending_def)
  define owed where "owed s = (if sg_received s then 1 else 0) + (if sg_requested s then 1 else (0 :: nat))" for s :: signals
  have "length (filter (\<lambda>e. e = Take) es) + owed s'' \<le> length (filter (\<lambda>e. e = Signal) es) + owed t"
    if "signal_run t es = Some s''" for t s'' es
    using that
  proof (induction es arbitrary: t)
    case (Cons e es)
    then obtain t1 where t1: "signal_step t e = Some t1" "signal_run t1 es = Some s''" by (auto split: option.splits)
    from Cons.IH [OF t1(2)] t1(1) show ?case by (cases e) (auto simp: owed_def split: if_splits)
  qed simp
  from this [OF s1(1)] have "length (filter (\<lambda>e. e = Take) es) \<le> length (filter (\<lambda>e. e = Signal) es) + owed s1" by simp
  moreover have "owed s1 \<le> 2" by (simp add: owed_def)
  ultimately show ?thesis using pending_until_taken [OF s1] by auto
qed

lemma no_reload_signal_is_lost_witness: "Take \<in> set [Signal, Pass_on, Take]"
  using no_reload_signal_is_lost
    [of "\<lparr>sg_received = False, sg_requested = False\<rparr>" "[Signal, Pass_on, Take]" "\<lparr>sg_received = False, sg_requested = False\<rparr>"]
  by (simp add: pending_def)

subsection \<open>The command\<close>

definition probeTimeout :: duration where
  "probeTimeout = 2 * nanos_per_second"

text \<open>\<open>cmd/lb\<close>'s container health check: the error of the request, or of an answer other than 200.\<close>

datatype lb_probe_error = RequestFailed | AnsweredOther int

definition lb_probe :: "int option \<Rightarrow> lb_probe_error option" where
  "lb_probe response =
     (case response of
        None \<Rightarrow> Some RequestFailed
      | Some code \<Rightarrow> if code \<noteq> 200 then Some (AnsweredOther code) else None)"

end
