(* ===== verification/Balancer_Command.thy ===== *)
theory Balancer_Command
  imports Lifecycle
begin

text \<open>
  \<open>cmd/lb/main.go\<close>: the balancer's command, from its flags to its exit, and \<open>NewLogger\<close> of
  \<open>internal/observability/logging.go\<close>. What serving comes back with is an argument. The lemmas: a
  configuration that loads fails to start only for its sticky secret or for an address that cannot be
  listened on, and the exit status says whether the command did what it was asked.
\<close>

datatype log_handler = TextHandler int | JSONHandler int

definition NewLogger :: "Logging \<Rightarrow> log_handler" where
  "NewLogger l = (if lg_format l = FormatText then TextHandler (levelOf (lg_level l)) else JSONHandler (levelOf (lg_level l)))"

datatype start_failure = NotLoaded load_error | NotAssembled app_error

text \<open>\<open>run\<close> until it serves: what it serves with, and what it has logged.\<close>

definition lb_start ::
  "(string \<Rightarrow> Config option) \<Rightarrow> string option \<Rightarrow> (string \<Rightarrow> string \<Rightarrow> string) \<Rightarrow> (string \<Rightarrow> string + string) \<Rightarrow> string \<Rightarrow> string
     \<Rightarrow> tape \<Rightarrow> time \<Rightarrow> (start_failure + log_handler \<times> app) \<times> log list" where
  "lb_start decode content mac net env fresh tape now =
     (case Load decode content of
        Inl e \<Rightarrow> (Inl (NotLoaded e), [])
      | Inr cfg \<Rightarrow>
          (let handler = NewLogger (c_logging cfg); logged = map ConfigWarning (Warnings cfg)
           in case App_New mac net env fresh tape now cfg of
                Inl e \<Rightarrow> (Inl (NotAssembled e), logged)
              | Inr (a, logs) \<Rightarrow> (Inr (handler, a), logged @ logs)))"

record lb_flags =
  fl_config :: string
  fl_version :: bool
  fl_probe :: string

datatype lb_end = PrintedVersion | ProbeEnded "lb_probe_error option" | NotStarted start_failure | Served "server_error list"

text \<open>\<open>answered\<close> is what the probed URL answered, \<open>ended\<close> what serving came to.\<close>

definition lb_main ::
  "lb_flags \<Rightarrow> int option \<Rightarrow> start_failure + log_handler \<times> app \<Rightarrow> (app \<Rightarrow> server_error list) \<Rightarrow> lb_end" where
  "lb_main flags answered started ended =
     (if fl_version flags then PrintedVersion
      else if fl_probe flags \<noteq> [] then ProbeEnded (lb_probe answered)
      else case started of Inl e \<Rightarrow> NotStarted e | Inr (handler, a) \<Rightarrow> Served (ended a))"

fun lb_exit :: "lb_end \<Rightarrow> int" where
  "lb_exit PrintedVersion = 0"
| "lb_exit (ProbeEnded e) = (if e \<noteq> None then 1 else 0)"
| "lb_exit (NotStarted e) = 1"
| "lb_exit (Served es) = (if es \<noteq> [] then 1 else 0)"

lemma loaded_algorithm:
  assumes "Load decode content = Inr cfg"
  shows "\<exists>s. Strategies.New (c_algorithm cfg) (c_consistent_hash cfg) = Inr s"
proof -
  have "rest_ok cfg" using Load_Inr [OF assms] by (auto simp: validate_Nil_iff)
  then show ?thesis by (auto simp: rest_ok_def Strategies.New_def split: if_splits)
qed

text \<open>
  A configuration that loads is started, unless the secret for the sticky cookies is too short or one of
  its two addresses cannot be listened on: no other part of it can still be wrong.
\<close>

lemma loaded_configuration_starts:
  assumes "Load decode content = Inr cfg" "stickySecret env = Inr secret"
    and "Server.New net cfg = Inr traffic" "Server.NewMetrics net cfg = Inr admin"
  shows "\<exists>a logs. lb_start decode content mac net env fresh tape now = (Inr (NewLogger (c_logging cfg), a), logs)
     \<and> ap_traffic a = traffic \<and> ap_admin a = admin \<and> ap_cfg a = cfg"
proof -
  obtain s where s: "Strategies.New (c_algorithm cfg) (c_consistent_hash cfg) = Inr s"
    using loaded_algorithm [OF assms(1)] by blast
  obtain h bs where "BackendsFromConfig [] (c_backends cfg) = (h, bs)" by fastforce
  then show ?thesis using assms s by (auto simp: lb_start_def App_New_def Let_def)
qed

lemma start_failures:
  assumes "fst (lb_start decode content mac net env fresh tape now) = Inl (NotAssembled e)"
  shows "e = StickySecretTooShort \<or> (\<exists>x. e = ServerError x)"
proof -
  obtain cfg where cfg: "Load decode content = Inr cfg" using assms by (auto simp: lb_start_def split: sum.splits)
  obtain s where s: "Strategies.New (c_algorithm cfg) (c_consistent_hash cfg) = Inr s"
    using loaded_algorithm [OF cfg] by blast
  show ?thesis
    using assms by (auto simp: lb_start_def App_New_def cfg s stickySecret_def Let_def split: prod.splits sum.splits if_splits)
qed

end
