(* ===== verification/Copy_Buffers.thy ===== *)
theory Copy_Buffers
  imports Go_Prelude
begin

text \<open>
  \<open>internal/proxy/bufferpool.go\<close>: the buffers the reverse proxy copies responses with. \<open>sync.Pool\<close> keeps
  what is put back and gives any of it, or makes a new one; the garbage collector may drop what it keeps.
  The reverse proxy gets one buffer for a response and puts it back once it is copied. The lemma: however
  responses, returns and collections interleave, no two responses copy through the same buffer.
\<close>

definition copyBufferSize :: nat where "copyBufferSize = 32 * 1024"

text \<open>Buffers are named by the order they were made in; \<open>bp_length\<close> is the length each was made with.\<close>

record bufferPool =
  bp_kept :: "nat list"
  bp_made :: nat
  bp_length :: "nat \<Rightarrow> nat"

definition newBufferPool :: bufferPool where
  "newBufferPool = \<lparr>bp_kept = [], bp_made = 0, bp_length = (\<lambda>_. 0)\<rparr>"

text \<open>\<open>found\<close> is the place of the buffer the pool gives, if it gives one it keeps.\<close>

definition pool_New :: "bufferPool \<Rightarrow> nat \<times> bufferPool" where
  "pool_New b = (bp_made b, b\<lparr>bp_made := bp_made b + 1, bp_length := (bp_length b)(bp_made b := copyBufferSize)\<rparr>)"

definition without :: "nat \<Rightarrow> nat list \<Rightarrow> nat list" where
  "without i xs = take i xs @ drop (i + 1) xs"

definition pool_Get :: "nat option \<Rightarrow> bufferPool \<Rightarrow> nat \<times> bufferPool" where
  "pool_Get found b =
     (case found of
        None \<Rightarrow> pool_New b
      | Some i \<Rightarrow>
          if i < length (bp_kept b) then (bp_kept b ! i, b\<lparr>bp_kept := without i (bp_kept b)\<rparr>)
          else pool_New b)"

definition pool_Put :: "nat \<Rightarrow> bufferPool \<Rightarrow> bufferPool" where
  "pool_Put buffer b = b\<lparr>bp_kept := buffer # bp_kept b\<rparr>"

text \<open>The second component are the buffers responses are being copied through.\<close>

inductive buffers_step :: "bufferPool \<times> nat list \<Rightarrow> bufferPool \<times> nat list \<Rightarrow> bool" where
  Copy: "pool_Get found b = (x, b') \<Longrightarrow> buffers_step (b, lent) (b', x # lent)"
| Copied: "i < length lent \<Longrightarrow> buffers_step (b, lent) (pool_Put (lent ! i) b, without i lent)"
| Collect: "buffers_step (b, lent) (b\<lparr>bp_kept := filter keep (bp_kept b)\<rparr>, lent)"

inductive buffers_reach :: "bufferPool \<times> nat list \<Rightarrow> bool" where
  Start: "buffers_reach (newBufferPool, [])"
| Step: "buffers_reach a \<Longrightarrow> buffers_step a a' \<Longrightarrow> buffers_reach a'"

definition buffers_inv :: "bufferPool \<times> nat list \<Rightarrow> bool" where
  "buffers_inv a \<longleftrightarrow>
     (case a of (b, lent) \<Rightarrow>
        distinct (bp_kept b @ lent) \<and> (\<forall>x\<in>set (bp_kept b @ lent). x < bp_made b \<and> bp_length b x = copyBufferSize))"

lemma taken_out:
  assumes "i < length xs"
  shows "set xs = insert (xs ! i) (set (without i xs))"
    "distinct xs \<Longrightarrow> distinct (without i xs) \<and> xs ! i \<notin> set (without i xs)"
proof -
  have xs: "xs = take i xs @ xs ! i # drop (i + 1) xs" using assms by (simp add: id_take_nth_drop)
  show "set xs = insert (xs ! i) (set (without i xs))" unfolding without_def by (subst (1) xs) auto
  assume d: "distinct xs"
  show "distinct (without i xs) \<and> xs ! i \<notin> set (without i xs)"
    using d unfolding without_def by (subst (asm) xs) auto
qed

lemma buffers_inv_step: "buffers_step a a' \<Longrightarrow> buffers_inv a \<Longrightarrow> buffers_inv a'"
proof (induction rule: buffers_step.induct)
  case (Copy found b x b' lent)
  show ?case
  proof (cases "\<exists>i. found = Some i \<and> i < length (bp_kept b)")
    case True
    then obtain i where i: "found = Some i" "i < length (bp_kept b)" by blast
    then have "x = bp_kept b ! i" "b' = b\<lparr>bp_kept := without i (bp_kept b)\<rparr>"
      using Copy.hyps by (simp_all add: pool_Get_def)
    then show ?thesis
      using Copy.prems taken_out [OF i(2)] by (auto simp: buffers_inv_def)
  next
    case False
    then have "pool_New b = (x, b')" using Copy.hyps by (auto simp: pool_Get_def split: option.splits if_splits)
    then show ?thesis using Copy.prems by (auto simp: buffers_inv_def pool_New_def dest: bspec)
  qed
next
  case (Copied i lent b)
  then show ?case using taken_out [OF Copied.hyps] by (auto simp: buffers_inv_def pool_Put_def)
next
  case (Collect b lent keep)
  then show ?case by (auto simp: buffers_inv_def)
qed

text \<open>No two responses are copied through one buffer, and each buffer has the length it was made with.\<close>

lemma copy_buffers_are_not_shared:
  assumes "buffers_reach (b, lent)"
  shows "distinct lent \<and> list_all (\<lambda>x. bp_length b x = copyBufferSize) lent"
proof -
  have "buffers_inv a" if "buffers_reach a" for a
    using that
  proof (induction rule: buffers_reach.induct)
    case Start
    show ?case by (simp add: buffers_inv_def newBufferPool_def)
  qed (rule buffers_inv_step)
  from this [OF assms] show ?thesis by (auto simp: buffers_inv_def list_all_iff)
qed

end
