(* ===== verification/Health_Probing.thy ===== *)
theory Health_Probing
  imports Health
begin

text \<open>
  The goroutines of \<open>internal/health/health.go\<close>: \<open>probeUntilDone\<close>, which \<open>Start\<close> and \<open>Reload\<close> start for every
  backend and whose context the next \<open>Reload\<close> cancels, as a step relation that interleaves them with
  reloads and with the reports of the proxy. A goroutine is where it is in its loop. The lemmas: every
  backend is probed by exactly one goroutine that is not told to stop, however often the
  configuration is reloaded, and one that is told to stop has nothing to wait for.
\<close>

datatype prober_at = Probing | Between | Gone

record prober =
  pr_schedule :: nat
  pr_addr :: string
  pr_at :: prober_at

text \<open>
  Schedules are numbered as they are started; the context of every one but the newest is cancelled, and
  all are when the context of the program ends.
\<close>

record probing =
  pb_checker :: HTTPChecker
  pb_schedule :: nat
  pb_over :: bool
  pb_probers :: "prober list"

definition told_to_stop :: "probing \<Rightarrow> prober \<Rightarrow> bool" where
  "told_to_stop p g \<longleftrightarrow> pb_over p \<or> pr_schedule g < pb_schedule p"

definition start_probers :: "nat \<Rightarrow> string list \<Rightarrow> prober list" where
  "start_probers n addrs = map (\<lambda>a. \<lparr>pr_schedule = n, pr_addr = a, pr_at = Probing\<rparr>) addrs"

definition probing_reload :: "probing \<Rightarrow> HealthCheck \<Rightarrow> heap \<Rightarrow> bref list \<Rightarrow> probing" where
  "probing_reload p cfg h bs =
     (case Reload (pb_checker p) cfg h bs of
        (c, addrs) \<Rightarrow>
          p\<lparr>pb_checker := c, pb_schedule := pb_schedule p + 1,
            pb_probers := pb_probers p @ start_probers (pb_schedule p + 1) addrs\<rparr>)"

definition move_to :: "probing \<Rightarrow> nat \<Rightarrow> prober_at \<Rightarrow> probing" where
  "move_to p i at' = p\<lparr>pb_probers := (pb_probers p)[i := (pb_probers p ! i)\<lparr>pr_at := at'\<rparr>]\<rparr>"

text \<open>
  A probe ends as cancelled only if its context is. Between probes the goroutine waits for the ticker or
  the end of its context; when both have come, either may be taken.
\<close>

inductive probing_step :: "probing \<Rightarrow> probing \<Rightarrow> bool" where
  reloaded: "distinct (map (addr_of h) bs) \<Longrightarrow> probing_step p (probing_reload p cfg h bs)"
| reported: "probing_step p (p\<lparr>pb_checker := record_outcome (pb_checker p) a ok\<rparr>)"
| over: "probing_step p (p\<lparr>pb_over := True\<rparr>)"
| probed: "i < length (pb_probers p) \<Longrightarrow> pr_at (pb_probers p ! i) = Probing \<Longrightarrow>
     ex = Cancelled \<longrightarrow> told_to_stop p (pb_probers p ! i) \<Longrightarrow>
     probing_step p (move_to (p\<lparr>pb_checker := probe (pb_checker p) (pr_addr (pb_probers p ! i)) ex\<rparr>) i Between)"
| ticked: "i < length (pb_probers p) \<Longrightarrow> pr_at (pb_probers p ! i) = Between \<Longrightarrow>
     probing_step p (move_to p i Probing)"
| stopped: "i < length (pb_probers p) \<Longrightarrow> pr_at (pb_probers p ! i) = Between \<Longrightarrow>
     told_to_stop p (pb_probers p ! i) \<Longrightarrow> probing_step p (move_to p i Gone)"

inductive probing_reach :: "probing \<Rightarrow> bool" where
  begun: "probing_reach \<lparr>pb_checker = New cfg, pb_schedule = 0, pb_over = False, pb_probers = []\<rparr>"
| moved: "probing_reach p \<Longrightarrow> probing_step p p' \<Longrightarrow> probing_reach p'"

text \<open>The backends the goroutines of the newest schedule probe.\<close>

definition scheduled :: "probing \<Rightarrow> string list" where
  "scheduled p = map pr_addr (filter (\<lambda>g. pr_schedule g = pb_schedule p) (pb_probers p))"

definition probing_inv :: "probing \<Rightarrow> bool" where
  "probing_inv p \<longleftrightarrow>
     distinct (scheduled p) \<and> set (scheduled p) = dom (hk_backends (pb_checker p))
     \<and> list_all (\<lambda>g. pr_schedule g \<le> pb_schedule p) (pb_probers p)
     \<and> list_all (\<lambda>g. pr_at g = Gone \<longrightarrow> told_to_stop p g) (pb_probers p)"

lemma dom_record [simp]: "dom (hk_backends (record_outcome c a ok)) = dom (hk_backends c)"
  by (auto simp: record_outcome_def split: option.split)

lemma dom_probe [simp]: "dom (hk_backends (probe c a ex)) = dom (hk_backends c)"
  by (simp add: probe_def split: exchange.split)

lemma dom_reload_loop: "dom (reload_loop known addrs) = set addrs"
  unfolding reload_loop_def by (induction addrs rule: rev_induct) (auto split: option.splits)

lemma move_to_fields [simp]:
  "pb_checker (move_to p i at') = pb_checker p" "pb_schedule (move_to p i at') = pb_schedule p"
  "pb_over (move_to p i at') = pb_over p" "told_to_stop (move_to p i at') = told_to_stop p"
  by (simp_all add: move_to_def told_to_stop_def fun_eq_iff)

lemma map_filter_update:
  "i < length xs \<Longrightarrow> f y = f (xs ! i) \<Longrightarrow> P y = P (xs ! i) \<Longrightarrow> map f (filter P (xs[i := y])) = map f (filter P xs)"
  by (induction xs arbitrary: i) (auto split: nat.split simp: less_Suc_eq_0_disj)

lemma scheduled_move [simp]: "i < length (pb_probers p) \<Longrightarrow> scheduled (move_to p i at') = scheduled p"
  by (simp add: scheduled_def move_to_def map_filter_update)

lemma scheduled_cong: "pb_probers p' = pb_probers p \<Longrightarrow> pb_schedule p' = pb_schedule p \<Longrightarrow> scheduled p' = scheduled p"
  by (simp add: scheduled_def)

lemma list_all_move:
  "list_all P (pb_probers p) \<Longrightarrow> P ((pb_probers p ! i)\<lparr>pr_at := at'\<rparr>) \<Longrightarrow> list_all P (pb_probers (move_to p i at'))"
  using set_update_subset_insert [of "pb_probers p" i] by (fastforce simp: move_to_def list_all_iff)

lemma probing_inv_reload:
  assumes "probing_inv p" "distinct (map (addr_of h) bs)"
  shows "probing_inv (probing_reload p cfg h bs)"
proof -
  have older: "list_all (\<lambda>g. pr_schedule g \<le> pb_schedule p) (pb_probers p)"
    and gone: "list_all (\<lambda>g. pr_at g = Gone \<longrightarrow> told_to_stop p g) (pb_probers p)"
    using assms(1) by (simp_all add: probing_inv_def)
  have "filter (\<lambda>g. pr_schedule g = Suc (pb_schedule p)) (pb_probers p) = []"
    using older by (auto simp: filter_empty_conv list_all_iff)
  then have "scheduled (probing_reload p cfg h bs) = map (addr_of h) bs"
    by (simp add: scheduled_def probing_reload_def Reload_def start_probers_def filter_map o_def)
  then show ?thesis
    using assms(2) older gone
    by (auto simp: probing_inv_def probing_reload_def Reload_def dom_reload_loop start_probers_def list_all_iff told_to_stop_def)
qed

lemma probing_inv_move:
  assumes "probing_inv p" "i < length (pb_probers p)" "at' = Gone \<longrightarrow> told_to_stop p (pb_probers p ! i)"
  shows "probing_inv (move_to p i at')"
proof -
  have "pr_schedule (pb_probers p ! i) \<le> pb_schedule p" using assms(1,2) by (simp add: probing_inv_def list_all_length)
  then show ?thesis
    using assms by (auto simp: probing_inv_def told_to_stop_def intro!: list_all_move)
qed

lemma probing_inv_step: "probing_step p p' \<Longrightarrow> probing_inv p \<Longrightarrow> probing_inv p'"
proof (induction rule: probing_step.induct)
  case (reloaded h bs p cfg)
  then show ?case by (intro probing_inv_reload)
next
  case (reported p a ok)
  then show ?case by (simp add: probing_inv_def scheduled_def told_to_stop_def)
next
  case (over p)
  then show ?case by (simp add: probing_inv_def scheduled_def told_to_stop_def list_all_iff)
next
  case (probed i p ex)
  let ?q = "p\<lparr>pb_checker := probe (pb_checker p) (pr_addr (pb_probers p ! i)) ex\<rparr>"
  have "probing_inv ?q" using probed by (simp add: probing_inv_def scheduled_def told_to_stop_def)
  then show ?case using probed by (intro probing_inv_move) simp_all
next
  case (ticked i p)
  then show ?case by (intro probing_inv_move) simp_all
next
  case (stopped i p)
  then show ?case by (intro probing_inv_move) simp_all
qed

lemma probing_reach_inv: "probing_reach p \<Longrightarrow> probing_inv p"
proof (induction rule: probing_reach.induct)
  case (begun cfg)
  then show ?case by (simp add: probing_inv_def scheduled_def New_def)
qed (rule probing_inv_step)

lemma distinct_map_filter_ex1:
  "distinct (map f (filter P xs)) \<Longrightarrow> a \<in> set (map f (filter P xs)) \<Longrightarrow> \<exists>!i. i < length xs \<and> P (xs ! i) \<and> f (xs ! i) = a"
proof (induction xs)
  case (Cons x xs)
  show ?case
  proof (cases "P x \<and> f x = a")
    case True
    then have "a \<notin> f ` (set xs \<inter> {x. P x})" using Cons.prems by auto
    then have "i = 0" if "i < length (x # xs) \<and> P ((x # xs) ! i) \<and> f ((x # xs) ! i) = a" for i
      using that by (cases i) (auto simp: image_iff)
    then show ?thesis using True by (intro ex1I [of _ 0]) auto
  next
    case False
    have "distinct (map f (filter P xs))" "a \<in> set (map f (filter P xs))"
      using Cons.prems False by (cases "P x"; simp)+
    from Cons.IH [OF this] obtain i where i: "i < length xs \<and> P (xs ! i) \<and> f (xs ! i) = a"
      and unique: "\<And>j. j < length xs \<and> P (xs ! j) \<and> f (xs ! j) = a \<Longrightarrow> j = i" by blast
    have "j = Suc i" if "j < length (x # xs) \<and> P ((x # xs) ! j) \<and> f ((x # xs) ! j) = a" for j
      using that False unique by (cases j) simp_all
    then show ?thesis using i by (intro ex1I [of _ "Suc i"]) simp_all
  qed
qed simp

text \<open>
  C30: Whatever reloads, probes and reports came before, every backend of the configuration is probed by
  exactly one goroutine of the newest schedule, which goes on for as long as the program runs; every
  goroutine of an older one is told to stop.
\<close>

lemma each_backend_has_one_prober:
  assumes "probing_reach p" "a \<in> dom (hk_backends (pb_checker p))"
  shows "(\<exists>!i. i < length (pb_probers p) \<and> pr_schedule (pb_probers p ! i) = pb_schedule p \<and> pr_addr (pb_probers p ! i) = a)
    \<and> (\<not> pb_over p \<longrightarrow> (\<forall>g\<in>set (pb_probers p). if pr_schedule g = pb_schedule p then pr_at g \<noteq> Gone else told_to_stop p g))"
proof -
  have inv: "distinct (scheduled p)" "set (scheduled p) = dom (hk_backends (pb_checker p))"
    "list_all (\<lambda>g. pr_schedule g \<le> pb_schedule p) (pb_probers p)"
    "list_all (\<lambda>g. pr_at g = Gone \<longrightarrow> told_to_stop p g) (pb_probers p)"
    using probing_reach_inv [OF assms(1)] by (simp_all add: probing_inv_def)
  have "\<exists>!i. i < length (pb_probers p) \<and> pr_schedule (pb_probers p ! i) = pb_schedule p \<and> pr_addr (pb_probers p ! i) = a"
    using distinct_map_filter_ex1 [of pr_addr "\<lambda>g. pr_schedule g = pb_schedule p" "pb_probers p" a] inv(1,2) assms(2)
    by (simp add: scheduled_def)
  moreover have "\<forall>g\<in>set (pb_probers p). if pr_schedule g = pb_schedule p then pr_at g \<noteq> Gone else told_to_stop p g"
    if "\<not> pb_over p"
    using inv(3,4) that by (fastforce simp: list_all_iff told_to_stop_def)
  ultimately show ?thesis by blast
qed

definition ex_unprobed :: probing where
  "ex_unprobed = \<lparr>pb_checker = New ex_check, pb_schedule = 0, pb_over = False, pb_probers = []\<rparr>"

definition ex_probed_heap :: heap where
  "ex_probed_heap = [\<lparr>b_addr = ''a'', b_weight = 1, b_active = 0, b_hash = 0\<rparr>]"

definition ex_reprobed :: probing where
  "ex_reprobed = probing_reload (probing_reload ex_unprobed ex_check ex_probed_heap [0]) ex_check ex_probed_heap [0]"

lemma ex_reprobed_reached: "probing_reach ex_reprobed" "''a'' \<in> dom (hk_backends (pb_checker ex_reprobed))"
proof -
  have one: "distinct (map (addr_of ex_probed_heap) [0])" by simp
  have "probing_reach ex_unprobed" unfolding ex_unprobed_def by (rule begun)
  then show "probing_reach ex_reprobed" 
    unfolding ex_reprobed_def using moved [OF moved [OF _ reloaded [OF one]] reloaded [OF one]] by blast
  show "''a'' \<in> dom (hk_backends (pb_checker ex_reprobed))"
    by (simp add: ex_reprobed_def probing_reload_def Reload_def ex_probed_heap_def reload_loop_def split: option.split)
qed

lemma each_backend_has_one_prober_witness:
  "\<exists>!i. i < length (pb_probers ex_reprobed) \<and> pr_schedule (pb_probers ex_reprobed ! i) = pb_schedule ex_reprobed
     \<and> pr_addr (pb_probers ex_reprobed ! i) = ''a''"
  using each_backend_has_one_prober [OF ex_reprobed_reached] by (rule conjunct1)

text \<open>
  A goroutine that is told to stop may stop as soon as its probe is over: it waits for no tick. It may
  also take one more tick, when both have come, and then its probe is cancelled at once and held against
  the backend, if that is still configured.
\<close>

lemma told_prober_can_stop:
  assumes "i < length (pb_probers p)" "told_to_stop p (pb_probers p ! i)" "pr_at (pb_probers p ! i) = Between"
  shows "probing_step p (move_to p i Gone)"
  using assms by (intro stopped)

end
