(* ===== verification/Forwarding.thy ===== *)
theory Forwarding
  imports Sticky_Sessions
begin

text \<open>
  What the forwarder of \<open>internal/proxy/proxy.go\<close> sends on: \<open>Rewrite\<close>, which \<open>httputil.ReverseProxy\<close>
  calls on the outgoing headers, with what it does to the client's headers before and after (the
  hop-by-hop headers, the forwarding headers, a protocol upgrade, the \<open>User-Agent\<close>), and the sizes and
  timeouts of the \<open>transport\<close> it sends them through. The lemmas: a client has no say in what the backend is
  told about it, and everything else it sent arrives unchanged.
\<close>

subsection \<open>Rewriting a request\<close>

text \<open>What the library does before and in \<open>SetXForwarded\<close>.\<close>

definition strip_forwarded :: "header \<Rightarrow> header" where
  "strip_forwarded hdr =
     header_del (header_del (header_del (header_del hdr ''Forwarded'') ''X-Forwarded-For'') ''X-Forwarded-Host'') ''X-Forwarded-Proto''"

definition SetXForwarded :: "request \<Rightarrow> header \<Rightarrow> header" where
  "SetXForwarded r hdr =
     (let h1 = (case split_host_port (rq_remote_addr r) of
                  Some (ip, _) \<Rightarrow>
                    (let prior = header_values hdr ''X-Forwarded-For''
                     in header_set hdr ''X-Forwarded-For''
                          (if prior \<noteq> [] then join '', '' prior @ '', '' @ ip else ip))
                | None \<Rightarrow> header_del hdr ''X-Forwarded-For'');
          h2 = header_set h1 ''X-Forwarded-Host'' (rq_host r)
      in header_set h2 ''X-Forwarded-Proto'' (if rq_tls r then ''https'' else ''http''))"

text \<open>The address the request is sent to, and its headers.\<close>

definition Rewrite :: "string \<Rightarrow> string \<Rightarrow> request \<Rightarrow> header \<Rightarrow> string \<times> header" where
  "Rewrite addr stickyCookie r out =
     (let h1 = SetXForwarded r out;
          h2 = header_set h1 requestIDHeader (requestIDFrom r);
          h3 = (if stickyCookie \<noteq> [] then removeCookie h2 stickyCookie else h2)
      in (addr, h3))"

text \<open>
  \<open>ReverseProxy.ServeHTTP\<close> around it. The headers the client's \<open>Connection\<close> names are for one hop, and so are
  those of a fixed list. An upgrade and the wish for trailers are passed on. A request to switch to a
  protocol whose name cannot be printed is not sent (\<open>None\<close>).
\<close>

definition comma_parts :: "string list \<Rightarrow> string list" where
  "comma_parts vs = map trim_string (concat (map (split_byte CHR '','') vs))"

definition connection_names :: "header \<Rightarrow> string list" where
  "connection_names hdr = filter (\<lambda>n. n \<noteq> []) (comma_parts (header_values hdr ''Connection''))"

definition hopHeaders :: "string list" where
  "hopHeaders = [''Connection'', ''Proxy-Connection'', ''Keep-Alive'', ''Proxy-Authenticate'', ''Proxy-Authorization'',
     ''Te'', ''Trailer'', ''Transfer-Encoding'', ''Upgrade'']"

definition removeHopByHopHeaders :: "header \<Rightarrow> header" where
  "removeHopByHopHeaders hdr = foldl header_del hdr (connection_names hdr @ hopHeaders)"

definition values_contain :: "string list \<Rightarrow> string \<Rightarrow> bool" where
  "values_contain vs token = list_ex (\<lambda>part. map lower part = map lower token) (comma_parts vs)"

definition upgradeType :: "header \<Rightarrow> string" where
  "upgradeType hdr =
     (if values_contain (header_values hdr ''Connection'') ''Upgrade'' then header_get hdr ''Upgrade'' else [])"

definition printable :: "string \<Rightarrow> bool" where
  "printable s = list_all (\<lambda>c. let n = of_char c :: nat in 32 \<le> n \<and> n \<le> 126) s"

definition outgoing :: "header \<Rightarrow> header" where
  "outgoing hdr =
     (let h1 = removeHopByHopHeaders hdr;
          h2 = (if values_contain (header_values hdr ''Te'') ''trailers'' then header_set h1 ''Te'' ''trailers'' else h1)
      in if upgradeType hdr \<noteq> []
         then header_set (header_set h2 ''Connection'' ''Upgrade'') ''Upgrade'' (upgradeType hdr) else h2)"

definition sent_header :: "string \<Rightarrow> string \<Rightarrow> request \<Rightarrow> header option" where
  "sent_header addr stickyCookie r =
     (if \<not> printable (upgradeType (rq_header r)) then None
      else (let out = snd (Rewrite addr stickyCookie r (strip_forwarded (outgoing (rq_header r))))
            in Some (if out ''User-Agent'' = None then header_set out ''User-Agent'' [] else out)))"

lemma canonical_names [simp]:
  "canonical_key ''Forwarded'' = ''Forwarded''" "canonical_key ''X-Forwarded-For'' = ''X-Forwarded-For''"
  "canonical_key ''X-Forwarded-Host'' = ''X-Forwarded-Host''" "canonical_key ''X-Forwarded-Proto'' = ''X-Forwarded-Proto''"
  "canonical_key requestIDHeader = ''X-Request-Id''" "canonical_key ''Connection'' = ''Connection''"
  "canonical_key ''Te'' = ''Te''" "canonical_key ''Upgrade'' = ''Upgrade''" "canonical_key ''User-Agent'' = ''User-Agent''"
  "canonical_key ''Cookie'' = ''Cookie''"
  by (simp_all add: canonical_key_def token_byte_def upper_def lower_def requestIDHeader_def)

lemma removeCookie_other: "canonical_key key \<noteq> ''Cookie'' \<Longrightarrow> header_values (removeCookie hdr name) key = header_values hdr key"
  by (auto simp: removeCookie_def header_values_def header_set_def header_del_def Let_def split: prod.split)

lemma header_values_other [simp]:
  "canonical_key key \<noteq> canonical_key k \<Longrightarrow> header_values (header_set hdr k v) key = header_values hdr key"
  "canonical_key key \<noteq> canonical_key k \<Longrightarrow> header_values (header_del hdr k) key = header_values hdr key"
  by (auto simp: header_values_def header_set_def header_del_def)

definition rewritten_names :: "string set" where
  "rewritten_names = {''Forwarded'', ''X-Forwarded-For'', ''X-Forwarded-Host'', ''X-Forwarded-Proto'', ''X-Request-Id''}"

lemma SetXForwarded_other:
  "canonical_key key \<notin> rewritten_names \<Longrightarrow> header_values (SetXForwarded r (strip_forwarded out)) key = header_values out key"
  by (auto simp: SetXForwarded_def strip_forwarded_def rewritten_names_def Let_def split: option.split)

text \<open>Which of the client's headers are for the hop to the balancer alone, and what is left of a header.\<close>

definition hop_by_hop :: "header \<Rightarrow> string \<Rightarrow> bool" where
  "hop_by_hop hdr key \<longleftrightarrow> canonical_key key \<in> canonical_key ` set (connection_names hdr @ hopHeaders)"

definition end_to_end :: "header \<Rightarrow> string \<Rightarrow> string list" where
  "end_to_end hdr key = (if hop_by_hop hdr key then [] else header_values hdr key)"

lemma removed_values:
  "header_values (foldl header_del hdr ks) key =
     (if canonical_key key \<in> canonical_key ` set ks then [] else header_values hdr key)"
proof (induction ks arbitrary: hdr)
  case (Cons k ks)
  have "header_values (header_del hdr k) key = (if canonical_key key = canonical_key k then [] else header_values hdr key)"
    by (simp add: header_values_def header_del_def)
  then show ?case using Cons.IH [of "header_del hdr k"] by simp
qed simp

lemma hop_headers_are_hop_by_hop: "hop_by_hop hdr ''Te''" "hop_by_hop hdr ''Connection''" "hop_by_hop hdr ''Upgrade''"
  by (simp_all add: hop_by_hop_def hopHeaders_def)

lemma kept_values: "header_values (removeHopByHopHeaders hdr) key = end_to_end hdr key"
  unfolding removeHopByHopHeaders_def removed_values end_to_end_def hop_by_hop_def ..

lemma outgoing_values:
  assumes "canonical_key key \<notin> {''Te'', ''Connection'', ''Upgrade''}"
  shows "header_values (outgoing hdr) key = end_to_end hdr key"
  using assms by (simp add: outgoing_def kept_values Let_def)

text \<open>
  C31: Whatever headers a client sends, the backend is told the client's own address, host and protocol and the
  balancer's request identifier, once each, whatever the client wrote under those names or had removed by
  naming them in \<open>Connection\<close>. Of the cookies the balancer's own is taken off and all others arrive; with
  sticky sessions off (no cookie name) all arrive as they were. Every other header that is not for one hop
  arrives with the values the client gave it, and those for one hop do not, but for the wish for trailers
  and a protocol upgrade. (A missing \<open>User-Agent\<close> is set to nothing, so that the client library adds none.)
\<close>

lemma backend_is_told_the_truth:
  assumes "split_host_port (rq_remote_addr r) = Some (ip, port)" "sent_header addr name r = Some sent"
  shows "header_values sent ''X-Forwarded-For'' = [ip] \<and> ip = clientAddr r
     \<and> header_values sent ''X-Forwarded-Host'' = [rq_host r]
     \<and> header_values sent ''X-Forwarded-Proto'' = [if rq_tls r then ''https'' else ''http'']
     \<and> header_values sent ''Forwarded'' = []
     \<and> header_values sent requestIDHeader = [requestIDFrom r]
     \<and> (name = [] \<longrightarrow> header_values sent ''Cookie'' = end_to_end (rq_header r) ''Cookie'')
     \<and> (name \<noteq> [] \<longrightarrow> pieces (header_values sent ''Cookie'') =
          filter (\<lambda>p. pair_name p \<noteq> name) (pieces (end_to_end (rq_header r) ''Cookie'')))
     \<and> (\<forall>key. canonical_key key \<notin> {''Cookie'', ''Te'', ''Connection'', ''Upgrade''} \<union> rewritten_names \<longrightarrow>
          canonical_key key \<noteq> ''User-Agent'' \<or> end_to_end (rq_header r) key \<noteq> [] \<longrightarrow>
          header_values sent key = end_to_end (rq_header r) key)"
proof -
  let ?out = "outgoing (rq_header r)"
  let ?h2 = "header_set (SetXForwarded r (strip_forwarded ?out)) requestIDHeader (requestIDFrom r)"
  define h3 where "h3 = (if name \<noteq> [] then removeCookie ?h2 name else ?h2)"
  have sent: "sent = (if h3 ''User-Agent'' = None then header_set h3 ''User-Agent'' [] else h3)"
    using assms(2) by (simp add: sent_header_def Rewrite_def h3_def Let_def split: if_splits)
  have agent: "header_values sent key = header_values h3 key"
    if "canonical_key key \<noteq> ''User-Agent'' \<or> header_values h3 key \<noteq> []" for key
    using that by (auto simp: sent header_values_def header_set_def split: option.splits)
  have h3: "header_values h3 key = header_values ?h2 key" if "canonical_key key \<noteq> ''Cookie''" for key
    using that by (simp add: h3_def removeCookie_other)
  have told: "header_values ?h2 ''X-Forwarded-For'' = [ip]" "header_values ?h2 ''X-Forwarded-Host'' = [rq_host r]"
    "header_values ?h2 ''X-Forwarded-Proto'' = [if rq_tls r then ''https'' else ''http'']"
    "header_values ?h2 ''Forwarded'' = []"
    using assms(1)
    by (simp_all add: SetXForwarded_def strip_forwarded_def header_values_set header_values_del Let_def)
  have id: "header_values ?h2 requestIDHeader = [requestIDFrom r]" by (rule header_values_set)
  have rest: "header_values ?h2 key = end_to_end (rq_header r) key"
    if "canonical_key key \<notin> {''Te'', ''Connection'', ''Upgrade''} \<union> rewritten_names" for key
  proof -
    have "header_values ?h2 key = header_values ?out key"
      using SetXForwarded_other [of key r ?out] that by (simp add: rewritten_names_def)
    then show ?thesis using that outgoing_values [of key "rq_header r"] by simp
  qed
  have cookie: "header_values ?h2 ''Cookie'' = end_to_end (rq_header r) ''Cookie''"
    by (rule rest) (simp add: rewritten_names_def)
  have "header_values sent ''Cookie'' = header_values h3 ''Cookie''" by (rule agent) simp
  then have "name = [] \<longrightarrow> header_values sent ''Cookie'' = end_to_end (rq_header r) ''Cookie''"
    "name \<noteq> [] \<longrightarrow> pieces (header_values sent ''Cookie'') =
       filter (\<lambda>p. pair_name p \<noteq> name) (pieces (end_to_end (rq_header r) ''Cookie''))"
    using pieces_removeCookie [of name ?h2] cookie by (simp_all add: h3_def)
  moreover have "header_values sent key = end_to_end (rq_header r) key"
    if "canonical_key key \<notin> {''Cookie'', ''Te'', ''Connection'', ''Upgrade''} \<union> rewritten_names"
      "canonical_key key \<noteq> ''User-Agent'' \<or> end_to_end (rq_header r) key \<noteq> []" for key
    using that rest [of key] h3 [of key] agent [of key] by simp
  moreover have "header_values sent key = header_values ?h2 key" if "canonical_key key \<in> rewritten_names" for key
    using that h3 [of key] agent [of key] by (auto simp: rewritten_names_def)
  then have "header_values sent ''X-Forwarded-For'' = [ip]" "header_values sent ''X-Forwarded-Host'' = [rq_host r]"
    "header_values sent ''X-Forwarded-Proto'' = [if rq_tls r then ''https'' else ''http'']"
    "header_values sent ''Forwarded'' = []" "header_values sent requestIDHeader = [requestIDFrom r]"
    using told id by (simp_all add: rewritten_names_def)
  ultimately show ?thesis using assms(1) by (simp add: clientAddr_def)
qed

definition ex_forged :: header where
  "ex_forged = [''X-Forwarded-For'' \<mapsto> [''6.6.6.6''], ''Cookie'' \<mapsto> [''lb=1; x=2'']]"

lemma backend_is_told_the_truth_witness:
  "header_values (the (sent_header ''b:1'' [] (ex_request []\<lparr>rq_header := ex_forged\<rparr>))) ''X-Forwarded-For'' = [''c'']
   \<and> header_values (the (sent_header ''b:1'' [] (ex_request []\<lparr>rq_header := ex_forged\<rparr>))) ''Cookie'' = [''lb=1; x=2'']"
proof -
  let ?r = "ex_request []\<lparr>rq_header := ex_forged\<rparr>"
  have host: "split_host_port (rq_remote_addr ?r) = Some (''c'', ''9'')"
    using split_host_port_plain [of "''c''" "''9''"] by (simp add: ex_request_def)
  have none: "header_values ex_forged ''Connection'' = []" by (simp add: ex_forged_def header_values_def)
  then have "printable (upgradeType (rq_header ?r))"
    by (simp add: upgradeType_def values_contain_def comma_parts_def printable_def)
  then obtain sent where sent: "sent_header ''b:1'' [] ?r = Some sent" by (simp add: sent_header_def Let_def)
  have "\<not> hop_by_hop ex_forged ''Cookie''"
    unfolding hop_by_hop_def connection_names_def none comma_parts_def hopHeaders_def by code_simp
  then have "end_to_end (rq_header ?r) ''Cookie'' = [''lb=1; x=2'']"
    by (simp add: end_to_end_def) (simp add: ex_forged_def header_values_def)
  then show ?thesis using backend_is_told_the_truth [OF host sent] sent by simp
qed

subsection \<open>The transport\<close>

definition idleConnsPerBackend :: "int \<Rightarrow> int \<Rightarrow> int" where
  "idleConnsPerBackend maxConnections backendCount =
     (let minimum = 32;
          backendCount = (if backendCount < 1 then 1 else backendCount);
          share = go_div maxConnections backendCount
      in if share > minimum then share else minimum)"

record transport =
  tr_dial_timeout :: duration
  tr_keep_alive :: duration
  tr_response_header_timeout :: duration
  tr_max_idle :: int
  tr_max_idle_per_host :: int
  tr_idle_timeout :: duration

definition transport_for :: "Config \<Rightarrow> int \<Rightarrow> transport" where
  "transport_for cfg backendCount =
     \<lparr>tr_dial_timeout = to_connect (c_timeouts cfg),
      tr_keep_alive = 30 * nanos_per_second,
      tr_response_header_timeout = to_response (c_timeouts cfg),
      tr_max_idle = li_max_connections (c_limits cfg),
      tr_max_idle_per_host = idleConnsPerBackend (li_max_connections (c_limits cfg)) backendCount,
      tr_idle_timeout = to_idle (c_timeouts cfg)\<rparr>"

text \<open>A pool shares the connection budget, and no backend falls below the minimum.\<close>

lemma idleConnsPerBackend_bounds:
  assumes "0 \<le> maxConnections" "1 \<le> n"
  shows "32 \<le> idleConnsPerBackend maxConnections n"
    and "32 < idleConnsPerBackend maxConnections n \<Longrightarrow> n * idleConnsPerBackend maxConnections n \<le> maxConnections"
proof -
  have share: "n * (maxConnections div n) \<le> maxConnections"
    using minus_mod_eq_mult_div [of maxConnections n] assms(2) pos_mod_sign [of n maxConnections] by linarith
  show "32 \<le> idleConnsPerBackend maxConnections n"
    and "32 < idleConnsPerBackend maxConnections n \<Longrightarrow> n * idleConnsPerBackend maxConnections n \<le> maxConnections"
    using assms share by (auto simp: idleConnsPerBackend_def Let_def go_div_nonneg)
qed

end
