(* ===== verification/Go_Text.thy ===== *)
theory Go_Text
  imports Go_Format
begin

text \<open>
  How \<open>fmt\<close> lays out text: the runes of a string, which widths and precisions count in, padding, and
  \<open>%.nf\<close>. A byte that starts no well-formed UTF-8 sequence is a rune of its own. The lemmas: a padded
  text is as wide as asked; a printed number is within half a unit of its last digit of the exact binary
  value. The sign of a zero is not part of the model.
\<close>

subsection \<open>Runes\<close>

definition byte_in :: "nat \<Rightarrow> nat \<Rightarrow> char \<Rightarrow> bool" where
  "byte_in lo hi c \<longleftrightarrow> lo \<le> of_char c \<and> of_char c \<le> hi"

fun starts_with :: "(char \<Rightarrow> bool) list \<Rightarrow> string \<Rightarrow> bool" where
  "starts_with [] s = True"
| "starts_with (p # ps) [] = False"
| "starts_with (p # ps) (c # s) = (p c \<and> starts_with ps s)"

abbreviation continuation :: "char \<Rightarrow> bool" where "continuation \<equiv> byte_in 0x80 0xBF"

text \<open>The well-formed sequences of more than one byte.\<close>

definition sequences :: "(char \<Rightarrow> bool) list list" where
  "sequences =
     [[byte_in 0xC2 0xDF, continuation],
      [byte_in 0xE0 0xE0, byte_in 0xA0 0xBF, continuation],
      [byte_in 0xE1 0xEC, continuation, continuation],
      [byte_in 0xED 0xED, byte_in 0x80 0x9F, continuation],
      [byte_in 0xEE 0xEF, continuation, continuation],
      [byte_in 0xF0 0xF0, byte_in 0x90 0xBF, continuation, continuation],
      [byte_in 0xF1 0xF3, continuation, continuation, continuation],
      [byte_in 0xF4 0xF4, byte_in 0x80 0x8F, continuation, continuation]]"

definition rune_size :: "string \<Rightarrow> nat" where
  "rune_size s = (case find (\<lambda>ps. starts_with ps s) sequences of None \<Rightarrow> 1 | Some ps \<Rightarrow> length ps)"

lemma rune_size_pos: "0 < rune_size s"
proof -
  have "ps \<noteq> []" if "find (\<lambda>ps. starts_with ps s) sequences = Some ps" for ps
  proof -
    have "ps \<in> set sequences" using that by (auto simp: find_Some_iff)
    moreover have "list_all (\<lambda>ps. ps \<noteq> []) sequences" by (simp add: sequences_def)
    ultimately show ?thesis by (simp add: list_all_iff)
  qed
  then show ?thesis by (simp add: rune_size_def split: option.split)
qed

function runes :: "string \<Rightarrow> string list" where
  "runes s = (if s = [] then [] else take (rune_size s) s # runes (drop (rune_size s) s))"
  by pat_completeness auto
termination
  by (relation "measure length") (simp_all add: rune_size_pos)

declare runes.simps [simp del]

definition rune_count :: "string \<Rightarrow> nat" where "rune_count s = length (runes s)"

text \<open>\<open>%.ns\<close>.\<close>

definition rune_take :: "nat \<Rightarrow> string \<Rightarrow> string" where "rune_take n s = concat (take n (runes s))"

definition ascii :: "string \<Rightarrow> bool" where "ascii s \<longleftrightarrow> list_all (byte_in 0 0x7F) s"

lemma runes_Nil [simp]: "runes [] = []"
  by (simp add: runes.simps)

lemma runes_ascii: "byte_in 0 0x7F c \<Longrightarrow> runes (c # s) = [c] # runes s"
proof -
  assume c: "byte_in 0 0x7F c"
  have "find (\<lambda>ps. starts_with ps (c # s)) sequences = None"
    using c by (auto simp: sequences_def byte_in_def)
  then have "rune_size (c # s) = 1" by (simp add: rune_size_def)
  then show ?thesis by (subst runes.simps) simp
qed

lemma rune_count_ascii: "ascii s \<Longrightarrow> rune_count (s @ t) = length s + rune_count t"
  by (induction s) (simp_all add: rune_count_def ascii_def runes_ascii)

lemma concat_runes: "concat (runes s) = s"
  by (induction s rule: runes.induct) (subst runes.simps, simp)

subsection \<open>Padding\<close>

definition pad_left :: "nat \<Rightarrow> string \<Rightarrow> string" where
  "pad_left w s = replicate (w - rune_count s) CHR '' '' @ s"

definition pad_right :: "nat \<Rightarrow> string \<Rightarrow> string" where
  "pad_right w s = s @ replicate (w - rune_count s) CHR '' ''"

lemma ascii_simps [simp]:
  "ascii []" "ascii (s @ t) \<longleftrightarrow> ascii s \<and> ascii t" "ascii (replicate n CHR '' '')" "ascii (replicate n CHR ''#'')"
  by (auto simp: ascii_def byte_in_def list_all_iff)

lemma ascii_Cons: "ascii (c # s) \<longleftrightarrow> byte_in 0 0x7F c \<and> ascii s"
  by (simp add: ascii_def)

lemma rune_count_Nil [simp]: "rune_count [] = 0"
  by (simp add: rune_count_def)

lemma rune_count_of_ascii: "ascii s \<Longrightarrow> rune_count s = length s"
  using rune_count_ascii [of s "[]"] by simp

lemma pad_width: "ascii s \<Longrightarrow> length s \<le> w \<Longrightarrow> length (pad_left w s) = w" "ascii s \<Longrightarrow> length s \<le> w \<Longrightarrow> length (pad_right w s) = w"
  by (simp_all add: pad_left_def pad_right_def rune_count_of_ascii)

lemma pad_ascii [simp]: "ascii (pad_left w s) \<longleftrightarrow> ascii s" "ascii (pad_right w s) \<longleftrightarrow> ascii s"
  by (simp_all add: pad_left_def pad_right_def)

lemma digits_ascii: "list_all is_digit s \<Longrightarrow> ascii s"
  by (auto simp: ascii_def list_all_iff is_digit_def byte_in_def Let_def)

subsection \<open>Numbers with a fixed number of digits after the point\<close>

fun low_digits :: "nat \<Rightarrow> nat \<Rightarrow> string" where
  "low_digits 0 k = []"
| "low_digits (Suc n) k = low_digits n (k div 10) @ [digit (k mod 10)]"

definition fixed_abs :: "nat \<Rightarrow> rat \<Rightarrow> string" where
  "fixed_abs n x =
     (let k = nat (rne (x * 10 ^ n))
      in decimal (k div 10 ^ n) @ (if n = 0 then [] else CHR ''.'' # low_digits n k))"

definition fixed :: "nat \<Rightarrow> float64 \<Rightarrow> string" where
  "fixed n x =
     (case x of
        Fin a \<Rightarrow> if a < 0 then CHR ''-'' # fixed_abs n (- a) else fixed_abs n a
      | PosInf \<Rightarrow> ''+Inf'' | NegInf \<Rightarrow> ''-Inf'' | NaN \<Rightarrow> ''NaN'')"

lemma low_digits_digits: "list_all is_digit (low_digits n k)" "length (low_digits n k) = n"
  by (induction n arbitrary: k) simp_all

lemma digits_value_append: "digits_value (s @ t) = digits_value s * 10 ^ length t + digits_value t"
proof (induction t rule: rev_induct)
  case (snoc c t)
  then show ?case
    by (simp add: digits_value_snoc append_assoc [symmetric] algebra_simps del: append_assoc)
qed simp

lemma digits_value_low: "digits_value (low_digits n k) = k mod 10 ^ n"
proof (induction n arbitrary: k)
  case (Suc n)
  have "k mod 10 ^ Suc n = k div 10 mod 10 ^ n * 10 + k mod 10"
    by (simp add: mod_mult2_eq mult.commute)
  then show ?case using Suc by (simp add: digits_value_snoc)
qed (simp add: digits_value_def)

text \<open>The digits of a printed number are a whole number of units of its last place, the nearest one.\<close>

lemma fixed_abs_digits:
  assumes "0 \<le> x"
  obtains w f where "fixed_abs n x = w @ (if n = 0 then [] else CHR ''.'' # f)" "list_all is_digit (w @ f)"
    "w \<noteq> []" "length f = n" "\<bar>of_nat (digits_value (w @ f)) / 10 ^ n - x\<bar> \<le> 1 / (2 * 10 ^ n)"
proof
  let ?k = "nat (rne (x * 10 ^ n))"
  let ?w = "decimal (?k div 10 ^ n)" and ?f = "low_digits n ?k"
  show "fixed_abs n x = ?w @ (if n = 0 then [] else CHR ''.'' # ?f)" by (simp add: fixed_abs_def Let_def)
  show "list_all is_digit (?w @ ?f)" "?w \<noteq> []" "length ?f = n" by (simp_all add: decimal_digits low_digits_digits)
  have "digits_value (?w @ ?f) = ?k div 10 ^ n * 10 ^ n + ?k mod 10 ^ n"
    by (simp only: digits_value_append digits_value_low low_digits_digits digits_value_decimal)
  then have "digits_value (?w @ ?f) = ?k" by (simp only: div_mult_mod_eq)
  moreover have "0 \<le> rne (x * 10 ^ n)" using rne_mono [of 0 "x * 10 ^ n"] assms by simp
  ultimately have "(of_nat (digits_value (?w @ ?f)) :: rat) = of_int (rne (x * 10 ^ n))" by simp
  moreover have "\<bar>of_int (rne (x * 10 ^ n)) - x * 10 ^ n\<bar> \<le> 1/2" by (rule rne_error)
  moreover have "of_int (rne (x * 10 ^ n)) / 10 ^ n - x = (of_int (rne (x * 10 ^ n)) - x * 10 ^ n) / 10 ^ n"
    by (simp add: field_simps)
  ultimately show "\<bar>of_nat (digits_value (?w @ ?f)) / 10 ^ n - x\<bar> \<le> 1 / (2 * 10 ^ n)"
    by (simp add: abs_divide field_simps)
qed

lemma length_decimal: "0 < k \<Longrightarrow> n < 10 ^ k \<Longrightarrow> length (decimal n) \<le> k"
proof (induction n arbitrary: k rule: decimal.induct)
  case (1 n)
  show ?case
  proof (cases "n < 10")
    case False
    then obtain j where j: "k = Suc j" "0 < j" using 1(3) by (cases k; cases "k - 1") auto
    then have "length (decimal (n div 10)) \<le> j" using 1(1) [of j] False 1(3) by (simp add: less_mult_imp_div_less mult.commute)
    then show ?thesis using False j by (subst decimal.simps) simp
  qed (use 1(2) in \<open>subst decimal.simps, simp\<close>)
qed

text \<open>A share between nothing and all takes at most five columns.\<close>

lemma share_width:
  assumes "0 \<le> x" "x \<le> 100"
  shows "ascii (fixed 1 (Fin x))" "length (fixed 1 (Fin x)) \<le> 5"
proof -
  obtain w f where wf': "fixed_abs 1 x = w @ (if (1::nat) = 0 then [] else CHR ''.'' # f)" "list_all is_digit (w @ f)"
    using fixed_abs_digits [OF assms(1), of 1] by blast
  then have wf: "fixed_abs 1 x = w @ CHR ''.'' # f" "list_all is_digit (w @ f)" by simp_all
  have "ascii w" "ascii f" using digits_ascii [OF wf(2)] by simp_all
  then show "ascii (fixed 1 (Fin x))" using wf(1) assms(1) by (simp add: fixed_def ascii_def byte_in_def)
  have "x * 10 ^ 1 \<le> of_int 1000" using assms(2) by simp
  from rne_mono [OF this] have "rne (x * 10 ^ 1) \<le> 1000" by (simp only: rne_of_int)
  then have "nat (rne (x * 10 ^ 1)) div 10 ^ 1 < 10 ^ 3" by simp
  then have "length (decimal (nat (rne (x * 10 ^ 1)) div 10 ^ 1)) \<le> 3" by (intro length_decimal) simp_all
  then show "length (fixed 1 (Fin x)) \<le> 5"
    using assms(1) low_digits_digits(2) [of 1] by (simp add: fixed_def fixed_abs_def Let_def)
qed

end
