(* ===== verification/Load_Results.thy ===== *)
theory Load_Results
  imports Go_Format "HOL-Library.AList" "HOL-Library.List_Lexorder" "HOL-Library.Char_ord" "HOL-Library.Multiset"
    "HOL-Library.Product_Lexorder"
begin

text \<open>
  \<open>cmd/loadgen\<close>: what the load generator measures. A Go map whose entries are summed or listed is an
  association list. \<open>result.go\<close>: the samples of a worker, merging them, and the summary of a run, with its
  percentiles and histogram; of \<open>main.go\<close>: what a request adds to the samples, the loop of a worker, the
  order of the backends' names; \<open>metrics.go\<close>: the balancer's counters. What a request observes is a list
  of events, and \<open>tells s M\<close> says that the samples \<open>s\<close> are those of the events \<open>M\<close>, in whatever order.
  The lemmas: every operation keeps \<open>tells\<close>, so the summary of a run depends on the events alone; the
  histogram counts every answer once; a percentile is an answer's latency at its rank.
\<close>

subsection \<open>Samples\<close>

type_synonym totals = "(string \<times> int) list"

record samples =
  sm_latencies :: "duration list"
  sm_statuses :: "(int \<times> int) list"
  sm_backends :: totals
  sm_perBackend :: "(string \<times> duration list) list"
  sm_failures :: totals
  sm_bytes :: int
  sm_cacheHits :: int
  sm_cacheMisses :: int
  sm_clientRetries :: int

definition newSamples :: samples where
  "newSamples =
     \<lparr>sm_latencies = [], sm_statuses = [], sm_backends = [], sm_perBackend = [], sm_failures = [],
      sm_bytes = 0, sm_cacheHits = 0, sm_cacheMisses = 0, sm_clientRetries = 0\<rparr>"

text \<open>\<open>m[k] += n\<close> and \<open>m[k] = append(m[k], xs...)\<close>; a missing entry is zero, or empty.\<close>

definition add_to :: "'k \<Rightarrow> int \<Rightarrow> ('k \<times> int) list \<Rightarrow> ('k \<times> int) list" where
  "add_to k n m = AList.update k ((case map_of m k of None \<Rightarrow> 0 | Some x \<Rightarrow> x) + n) m"

definition append_to :: "'k \<Rightarrow> 'v list \<Rightarrow> ('k \<times> 'v list) list \<Rightarrow> ('k \<times> 'v list) list" where
  "append_to k xs m = AList.update k ((case map_of m k of None \<Rightarrow> [] | Some ys \<Rightarrow> ys) @ xs) m"

definition record_answer :: "samples \<Rightarrow> duration \<Rightarrow> int \<Rightarrow> string \<Rightarrow> int \<Rightarrow> samples" where
  "record_answer s took status backend bytes =
     (let s1 = s\<lparr>sm_latencies := sm_latencies s @ [took], sm_statuses := add_to status 1 (sm_statuses s)\<rparr>;
          s2 = (if backend \<noteq> []
                then s1\<lparr>sm_backends := add_to backend 1 (sm_backends s1),
                        sm_perBackend := append_to backend [took] (sm_perBackend s1)\<rparr> else s1)
      in s2\<lparr>sm_bytes := sm_bytes s2 + bytes\<rparr>)"

definition recordCache :: "samples \<Rightarrow> string \<Rightarrow> samples" where
  "recordCache s answer =
     (if answer = ''hit'' then s\<lparr>sm_cacheHits := sm_cacheHits s + 1\<rparr>
      else if answer = ''miss'' then s\<lparr>sm_cacheMisses := sm_cacheMisses s + 1\<rparr> else s)"

definition recordClientRetry :: "samples \<Rightarrow> samples" where
  "recordClientRetry s = s\<lparr>sm_clientRetries := sm_clientRetries s + 1\<rparr>"

definition recordFailure :: "samples \<Rightarrow> string \<Rightarrow> samples" where
  "recordFailure s kind = s\<lparr>sm_failures := add_to kind 1 (sm_failures s)\<rparr>"

definition merge_samples :: "samples \<Rightarrow> samples \<Rightarrow> samples" where
  "merge_samples s other =
     s\<lparr>sm_latencies := sm_latencies s @ sm_latencies other,
       sm_statuses := foldl (\<lambda>m (k, n). add_to k n m) (sm_statuses s) (sm_statuses other),
       sm_backends := foldl (\<lambda>m (k, n). add_to k n m) (sm_backends s) (sm_backends other),
       sm_perBackend := foldl (\<lambda>m (k, xs). append_to k xs m) (sm_perBackend s) (sm_perBackend other),
       sm_failures := foldl (\<lambda>m (k, n). add_to k n m) (sm_failures s) (sm_failures other),
       sm_bytes := sm_bytes s + sm_bytes other,
       sm_cacheHits := sm_cacheHits s + sm_cacheHits other,
       sm_cacheMisses := sm_cacheMisses s + sm_cacheMisses other,
       sm_clientRetries := sm_clientRetries s + sm_clientRetries other\<rparr>"

subsection \<open>The order of the backends' names\<close>

definition trailingNumber :: "string \<Rightarrow> int option" where
  "trailingNumber name =
     (case last_index_byte name CHR ''-'' of None \<Rightarrow> None | Some dash \<Rightarrow> Atoi (drop (dash + 1) name))"

definition lessBackend :: "string \<Rightarrow> string \<Rightarrow> bool" where
  "lessBackend a b =
     (case (trailingNumber a, trailingNumber b) of
        (Some na, Some nb) \<Rightarrow> if na \<noteq> nb then na < nb else a < b
      | _ \<Rightarrow> a < b)"

text \<open>
  \<open>sort.Slice\<close>, as the insertion sort it is for up to twelve elements. For an order that compares any two
  different names one way, and is transitive, every sorting algorithm gives the same list.
\<close>

fun insert_last :: "('a \<Rightarrow> 'a \<Rightarrow> bool) \<Rightarrow> 'a \<Rightarrow> 'a list \<Rightarrow> 'a list" where
  "insert_last lt x [] = [x]"
| "insert_last lt x (y # ys) = (if lt x y then y # insert_last lt x ys else x # y # ys)"

text \<open>The sorted part is kept in reverse: an element moves down while it is less than the one before it.\<close>

definition sort_slice :: "('a \<Rightarrow> 'a \<Rightarrow> bool) \<Rightarrow> 'a list \<Rightarrow> 'a list" where
  "sort_slice lt xs = rev (foldl (\<lambda>kept x. insert_last lt x kept) [] xs)"

subsection \<open>The summary\<close>

text \<open>\<open>sorted\<close> is sorted; \<open>int(q * float64(len(sorted)))\<close> is the rank.\<close>

definition percentile :: "duration list \<Rightarrow> rat \<Rightarrow> duration" where
  "percentile ds q =
     (if ds = [] then 0
      else if q \<le> 0 then hd ds
      else if q \<ge> 1 then last ds
      else (let rank = int64_of_rat (f64 (q * float_of_int (int (length ds))));
                rank' = (if rank \<ge> int (length ds) then int (length ds) - 1 else rank)
            in ds ! nat rank'))"

definition bands :: "duration list" where
  "bands = map (\<lambda>ms. ms * int millisecond) [1, 2, 5, 10, 20, 50, 100, 200, 500, 1000, 2000, 5000]"

type_synonym bucket = "string \<times> nat"

fun distribution_loop :: "duration list \<Rightarrow> duration list \<Rightarrow> bucket list" where
  "distribution_loop [] rest = (if rest \<noteq> [] then [(''more'', length rest)] else [])"
| "distribution_loop (upper # us) rest =
     (let n = length (takeWhile (\<lambda>d. d \<le> upper) rest)
      in (if n > 0 then [(Duration_String upper, n)] else []) @ distribution_loop us (drop n rest))"

definition distribution :: "duration list \<Rightarrow> bucket list" where
  "distribution ds = (if ds = [] then [] else distribution_loop bands ds)"

definition shown :: "duration \<Rightarrow> string" where
  "shown d = Duration_String (Duration_Round d (100 * int microsecond))"

definition q50 :: rat where "q50 = f64 (50 / 100)"
definition q95 :: rat where "q95 = f64 (95 / 100)"
definition q99 :: rat where "q99 = f64 (99 / 100)"

record timing =
  ti_backend :: string
  ti_requests :: nat
  ti_p50 :: string
  ti_p95 :: string
  ti_max :: string

definition timing_of :: "string \<Rightarrow> duration list \<Rightarrow> timing" where
  "timing_of name ds =
     (let s = sort ds
      in \<lparr>ti_backend = name, ti_requests = length s, ti_p50 = shown (percentile s q50),
          ti_p95 = shown (percentile s q95), ti_max = shown (percentile s 1)\<rparr>)"

definition timings :: "(string \<times> duration list) list \<Rightarrow> timing list" where
  "timings perBackend =
     map (\<lambda>name. timing_of name (the (map_of perBackend name))) (sort_slice lessBackend (map fst perBackend))"

record cacheResult =
  cr_hits :: int
  cr_misses :: int
  cr_hitRate :: float64

record load_result =
  lr_connections :: int
  lr_duration :: string
  lr_requests :: nat
  lr_failures :: int
  lr_clientRetries :: int
  lr_throughput :: float64
  lr_megabytes :: float64
  lr_p50 :: string
  lr_p95 :: string
  lr_p99 :: string
  lr_max :: string
  lr_cache :: "cacheResult option"
  lr_histogram :: "bucket list"
  lr_perBackend :: "timing list"
  lr_statuses :: "int \<rightharpoonup> int"
  lr_backends :: "string \<rightharpoonup> int"
  lr_failureKind :: "string \<rightharpoonup> int"

text \<open>Division by a finite number.\<close>

definition fdiv :: "float64 \<Rightarrow> rat \<Rightarrow> float64" where
  "fdiv x y =
     (case x of
        Fin a \<Rightarrow> if y = 0 then (if a = 0 then NaN else if a > 0 then PosInf else NegInf) else pack (a / y)
      | PosInf \<Rightarrow> if y < 0 then NegInf else PosInf
      | NegInf \<Rightarrow> if y < 0 then PosInf else NegInf
      | NaN \<Rightarrow> NaN)"

definition summarise :: "samples \<Rightarrow> int \<Rightarrow> duration \<Rightarrow> load_result" where
  "summarise all connections took =
     (let ds = sort (sm_latencies all);
          answered = sm_cacheHits all + sm_cacheMisses all;
          secs = seconds took
      in \<lparr>lr_connections = connections,
          lr_duration = Duration_String (Duration_Round took (int millisecond)),
          lr_requests = length ds,
          lr_failures = (\<Sum>n\<leftarrow>map snd (sm_failures all). n),
          lr_clientRetries = sm_clientRetries all,
          lr_throughput = fdiv (Fin (float_of_int (int (length ds)))) secs,
          lr_megabytes = fdiv (fdiv (Fin (float_of_int (sm_bytes all))) secs) (2 ^ 20),
          lr_p50 = shown (percentile ds q50), lr_p95 = shown (percentile ds q95),
          lr_p99 = shown (percentile ds q99), lr_max = shown (percentile ds 1),
          lr_cache =
            (if answered > 0
             then Some \<lparr>cr_hits = sm_cacheHits all, cr_misses = sm_cacheMisses all,
                        cr_hitRate = fdiv (Fin (float_of_int (sm_cacheHits all))) (float_of_int answered)\<rparr>
             else None),
          lr_histogram = distribution ds,
          lr_perBackend = timings (sm_perBackend all),
          lr_statuses = map_of (sm_statuses all),
          lr_backends = map_of (sm_backends all),
          lr_failureKind = map_of (sm_failures all)\<rparr>)"

subsection \<open>A request and a run\<close>

definition contains :: "string \<Rightarrow> string \<Rightarrow> bool" where
  "contains s t = sublist t s"

definition failureKind :: "bool \<Rightarrow> string \<Rightarrow> string" where
  "failureKind timeout e =
     (if timeout then ''timeout''
      else if contains e ''connection refused'' then ''connection refused''
      else if contains e ''connection reset'' then ''connection reset''
      else if contains e ''EOF'' then ''connection closed''
      else ''other: '' @ e)"

text \<open>How a request ends, in the order the code finds out, and what it then adds to the samples.\<close>

datatype outcome =
    NotBuilt
  | NoAnswer nat bool string
  | CutOff nat
  | Complete nat duration int string int string

datatype event = Answer duration int string int | CacheAnswer string | SentAgain | Failure string

definition again :: "nat \<Rightarrow> event list" where
  "again connections = (if connections > 1 then [SentAgain] else [])"

definition cutOff :: string where "cutOff = ''answer cut off''"

fun request_events :: "outcome \<Rightarrow> event list" where
  "request_events NotBuilt = [Failure ''request'']"
| "request_events (NoAnswer n timeout e) = again n @ [Failure (failureKind timeout e)]"
| "request_events (CutOff n) = again n @ [Failure cutOff]"
| "request_events (Complete n took status backend bytes c) =
     again n @ [Answer took status backend bytes, CacheAnswer c]"

fun observe_event :: "samples \<Rightarrow> event \<Rightarrow> samples" where
  "observe_event s (Answer took status backend bytes) = record_answer s took status backend bytes"
| "observe_event s (CacheAnswer c) = recordCache s c"
| "observe_event s SentAgain = recordClientRetry s"
| "observe_event s (Failure kind) = recordFailure s kind"

definition request_into :: "samples \<Rightarrow> outcome \<Rightarrow> samples" where
  "request_into s r = foldl observe_event s (request_events r)"

text \<open>A worker: the requests it sends until the run is done, with the time each is begun.\<close>

definition drive :: "time \<Rightarrow> (time \<times> outcome) list \<Rightarrow> samples" where
  "drive measureFrom turns =
     fst (foldl (\<lambda>(hot, cold) (now, r).
            if now < measureFrom then (hot, request_into cold r) else (request_into hot r, cold))
          (newSamples, newSamples) turns)"

definition load_run :: "time \<Rightarrow> int \<Rightarrow> duration \<Rightarrow> (time \<times> outcome) list list \<Rightarrow> load_result" where
  "load_run measureFrom connections took workers =
     summarise (foldl merge_samples newSamples (map (drive measureFrom) workers)) connections took"

subsection \<open>Maps of totals\<close>

text \<open>
  A map whose entries are accumulated: \<open>view\<close> reads an entry as a value of a commutative monoid, and a key
  without an entry stands for zero.
\<close>

locale accumulating =
  fixes put :: "'k \<Rightarrow> 'v \<Rightarrow> ('k \<times> 'v) list \<Rightarrow> ('k \<times> 'v) list"
    and none :: 'v and join_with :: "'v \<Rightarrow> 'v \<Rightarrow> 'v" and good :: "'v \<Rightarrow> bool"
    and view :: "'v \<Rightarrow> 'm::comm_monoid_add"
  assumes put: "put k v m = AList.update k (join_with (case map_of m k of None \<Rightarrow> none | Some x \<Rightarrow> x) v) m"
    and good_join: "good x \<or> x = none \<Longrightarrow> good y \<Longrightarrow> good (join_with x y)"
    and view_join: "good x \<or> x = none \<Longrightarrow> good y \<Longrightarrow> view (join_with x y) = view x + view y"
    and view_none: "view none = 0"
begin

definition agrees :: "('k \<times> 'v) list \<Rightarrow> ('k \<Rightarrow> 'm) \<Rightarrow> bool" where
  "agrees m g \<longleftrightarrow>
     distinct (map fst m) \<and> (\<forall>k. case map_of m k of None \<Rightarrow> g k = 0 | Some x \<Rightarrow> good x \<and> view x = g k)"

lemma agrees_Nil: "agrees [] (\<lambda>_. 0)"
  by (simp add: agrees_def)

lemma agrees_put:
  assumes "agrees m g" "good v"
  shows "agrees (put k v m) (\<lambda>j. g j + (if j = k then view v else 0))"
proof -
  define x where "x = (case map_of m k of None \<Rightarrow> none | Some x \<Rightarrow> x)"
  have x: "(good x \<or> x = none) \<and> view x = g k"
    using assms(1) view_none by (auto simp: agrees_def x_def split: option.splits dest!: spec [of _ k])
  have "distinct (map fst (put k v m))"
    using assms(1) by (simp add: put agrees_def distinct_update)
  moreover have "good (join_with x v)" "view (join_with x v) = g k + view v"
    using x assms(2) by (simp_all add: good_join view_join)
  ultimately show ?thesis
    using assms(1) by (simp add: agrees_def put x_def [symmetric] update_conv' cong: option.case_cong)
qed

lemma agrees_fold:
  assumes "agrees m g" "distinct (map fst xs)" "\<And>k v. (k, v) \<in> set xs \<Longrightarrow> good v"
  shows "agrees (foldl (\<lambda>m (k, v). put k v m) m xs)
           (\<lambda>k. g k + (case map_of xs k of None \<Rightarrow> 0 | Some v \<Rightarrow> view v))"
  using assms
proof (induction xs arbitrary: m g)
  case (Cons x xs)
  obtain k v where x: "x = (k, v)" by (cases x)
  have "map_of xs k = None" using Cons.prems(2) x by (simp add: map_of_eq_None_iff)
  then have eq: "(\<lambda>j. g j + (if j = k then view v else 0) + (case map_of xs j of None \<Rightarrow> 0 | Some v \<Rightarrow> view v))
      = (\<lambda>j. g j + (case map_of (x # xs) j of None \<Rightarrow> 0 | Some v \<Rightarrow> view v))"
    by (auto simp: x)
  have "agrees (foldl (\<lambda>m (k, v). put k v m) (put k v m) xs)
      (\<lambda>j. g j + (if j = k then view v else 0) + (case map_of xs j of None \<Rightarrow> 0 | Some v \<Rightarrow> view v))"
    using Cons.prems x by (intro Cons.IH agrees_put) auto
  then show ?case unfolding eq by (simp add: x)
qed simp

lemma agrees_merge:
  assumes "agrees m g" "agrees m' g'"
  shows "agrees (foldl (\<lambda>m (k, v). put k v m) m m') (\<lambda>k. g k + g' k)"
proof -
  have d: "distinct (map fst m')" using assms(2) by (simp add: agrees_def)
  have good: "good v" if "(k, v) \<in> set m'" for k v
    using that assms(2) map_of_is_SomeI [OF d that] by (auto simp: agrees_def dest!: spec [of _ k])
  have "(case map_of m' k of None \<Rightarrow> 0 | Some v \<Rightarrow> view v) = g' k" for k
    using assms(2) by (auto simp: agrees_def split: option.splits dest!: spec [of _ k])
  then show ?thesis using agrees_fold [OF assms(1) d good] by simp
qed

end

interpretation ints: accumulating add_to 0 "(+)" "\<lambda>n. 0 < n" "\<lambda>n::int. n"
  by unfold_locales (auto simp: add_to_def)

interpretation groups: accumulating append_to "[]" "(@)" "\<lambda>xs. xs \<noteq> []" mset
  by unfold_locales (auto simp: append_to_def)

lemma groups_put:
  "groups.agrees m g \<Longrightarrow> groups.agrees (append_to b [t] m) (\<lambda>k. g k + (if k = b then {#t#} else {#}))"
  using groups.agrees_put [of m g "[t]" b] by (simp cong: if_cong)

lemma ints_unique:
  assumes "ints.agrees m g" "ints.agrees m' g"
  shows "map_of m = map_of m'" "mset m = mset m'"
proof -
  show eq: "map_of m = map_of m'"
  proof
    fix k
    have "case map_of m k of None \<Rightarrow> g k = 0 | Some x \<Rightarrow> 0 < x \<and> x = g k"
      "case map_of m' k of None \<Rightarrow> g k = 0 | Some x \<Rightarrow> 0 < x \<and> x = g k"
      using assms by (simp_all add: ints.agrees_def)
    then show "map_of m k = map_of m' k" by (auto split: option.splits)
  qed
  have "distinct (map fst m)" "distinct (map fst m')" using assms by (simp_all add: ints.agrees_def)
  then show "mset m = mset m'"
    using map_of_inject_set [of m m'] eq set_eq_iff_mset_eq_distinct [of m m'] by (simp add: distinct_map)
qed

lemma groups_names:
  assumes "groups.agrees m g" "groups.agrees m' g"
  shows "mset (map fst m) = mset (map fst m')"
proof -
  have names: "fst ` set n = {k. g k \<noteq> {#}}" if "groups.agrees n g" for n
  proof -
    have "k \<in> fst ` set n \<longleftrightarrow> g k \<noteq> {#}" for k
      using that map_of_eq_None_iff [of n k]
      by (cases "map_of n k") (auto simp: groups.agrees_def dest!: spec [of _ k])
    then show ?thesis by blast
  qed
  have "distinct (map fst m)" "distinct (map fst m')" using assms by (simp_all add: groups.agrees_def)
  then show ?thesis
    using names [OF assms(1)] names [OF assms(2)] set_eq_iff_mset_eq_distinct [of "map fst m" "map fst m'"] by simp
qed

lemma groups_entry:
  assumes "groups.agrees m g" "k \<in> fst ` set m"
  shows "mset (the (map_of m k)) = g k"
  using assms map_of_eq_None_iff [of m k]
  by (cases "map_of m k") (auto simp: groups.agrees_def dest!: spec [of _ k])

subsection \<open>Sorting the names\<close>

definition name_key :: "string \<Rightarrow> int \<times> string" where
  "name_key a = (the (trailingNumber a), a)"

definition numbered :: "string set \<Rightarrow> bool" where
  "numbered names \<longleftrightarrow> (\<forall>a\<in>names. trailingNumber a \<noteq> None)"

lemma lessBackend_key: "numbered N \<Longrightarrow> a \<in> N \<Longrightarrow> b \<in> N \<Longrightarrow> lessBackend a b \<longleftrightarrow> name_key a < name_key b"
  by (auto simp: numbered_def lessBackend_def name_key_def split: option.splits)

lemma mset_insert_last: "mset (insert_last lt x xs) = add_mset x (mset xs)"
  by (induction xs) auto

lemma sorted_insert_last:
  fixes f :: "'a \<Rightarrow> 'b::linorder"
  assumes "\<And>y. y \<in> set xs \<Longrightarrow> lt x y \<longleftrightarrow> f x < f y" "sorted_wrt (\<lambda>a b. f b \<le> f a) xs"
  shows "sorted_wrt (\<lambda>a b. f b \<le> f a) (insert_last lt x xs)"
  using assms
proof (induction xs)
  case (Cons y ys)
  have "set (insert_last lt x ys) = insert x (set ys)"
    using mset_insert_last [of lt x ys] by (metis set_mset_mset set_mset_add_mset_insert)
  then show ?case using Cons by (auto simp: not_less intro: order.trans)
qed simp

lemma sort_slice_key:
  fixes f :: "'a \<Rightarrow> 'b::linorder"
  assumes "\<And>x y. x \<in> set xs \<Longrightarrow> y \<in> set xs \<Longrightarrow> lt x y \<longleftrightarrow> f x < f y" "inj_on f (set xs)"
  shows "sort_slice lt xs = sort_key f xs"
proof -
  have loop: "mset (foldl (\<lambda>kept x. insert_last lt x kept) acc ys) = mset ys + mset acc
      \<and> sorted_wrt (\<lambda>a b. f b \<le> f a) (foldl (\<lambda>kept x. insert_last lt x kept) acc ys)"
    if "set ys \<subseteq> set xs" "set acc \<subseteq> set xs" "sorted_wrt (\<lambda>a b. f b \<le> f a) acc" for ys acc
    using that
  proof (induction ys arbitrary: acc)
    case (Cons y ys)
    have "set (insert_last lt y acc) = insert y (set acc)"
      using mset_insert_last [of lt y acc] by (metis set_mset_mset set_mset_add_mset_insert)
    moreover have "sorted_wrt (\<lambda>a b. f b \<le> f a) (insert_last lt y acc)"
      using Cons.prems assms(1) by (intro sorted_insert_last) auto
    ultimately show ?case
      using Cons.IH [of "insert_last lt y acc"] Cons.prems by (simp add: mset_insert_last)
  qed simp
  have "mset (sort_slice lt xs) = mset xs" "sorted (map f (sort_slice lt xs))"
    using loop [of xs "[]"] by (simp_all add: sort_slice_def sorted_map rev_map sorted_wrt_rev)
  then show ?thesis using assms(2) by (intro sort_key_inj_key_eq [symmetric]) simp_all
qed

lemma set_sort_slice: "set (sort_slice lt xs) = set xs"
proof -
  have "mset (foldl (\<lambda>kept x. insert_last lt x kept) acc ys) = mset ys + mset acc" for ys acc
    by (induction ys arbitrary: acc) (simp_all add: mset_insert_last)
  then have "mset (sort_slice lt xs) = mset xs" by (simp add: sort_slice_def)
  then show ?thesis by (metis set_mset_mset)
qed

lemma sorted_names:
  assumes "numbered (set xs)" "mset xs = mset ys"
  shows "sort_slice lessBackend xs = sort_slice lessBackend ys"
proof -
  have set: "set ys = set xs" using assms(2) by (metis set_mset_mset)
  have inj: "inj_on name_key A" for A by (auto simp: inj_on_def name_key_def)
  have "sort_slice lessBackend zs = sort_key name_key zs" if "set zs = set xs" for zs
    using assms(1) that lessBackend_key [of "set xs"] inj by (intro sort_slice_key) auto
  moreover have "sort_key name_key xs = sort_key name_key ys"
    using assms(2) inj by (intro sort_key_inj_key_eq) simp_all
  ultimately show ?thesis using set by simp
qed

text \<open>Names with and without a number are not ordered: here each is less than the next, in a circle.\<close>

lemma lessBackend_circle:
  "lessBackend ''x-9'' ''x-10''" "lessBackend ''x-10'' ''x-5y''" "lessBackend ''x-5y'' ''x-9''"
  by code_simp+

lemma timings_depend_on_map_order:
  "sort_slice lessBackend [''x-9'', ''x-10'', ''x-5y''] \<noteq> sort_slice lessBackend [''x-5y'', ''x-9'', ''x-10'']"
  by code_simp

subsection \<open>The samples of a multiset of events\<close>

fun ev_latency :: "event \<Rightarrow> duration multiset" where
  "ev_latency (Answer took status backend bytes) = {#took#}"
| "ev_latency e = {#}"

fun ev_bytes :: "event \<Rightarrow> int" where
  "ev_bytes (Answer took status backend bytes) = bytes"
| "ev_bytes e = 0"

fun ev_status :: "int \<Rightarrow> event \<Rightarrow> int" where
  "ev_status k (Answer took status backend bytes) = (if k = status then 1 else 0)"
| "ev_status k e = 0"

fun ev_backend :: "string \<Rightarrow> event \<Rightarrow> int" where
  "ev_backend k (Answer took status backend bytes) = (if backend \<noteq> [] \<and> k = backend then 1 else 0)"
| "ev_backend k e = 0"

fun ev_group :: "string \<Rightarrow> event \<Rightarrow> duration multiset" where
  "ev_group k (Answer took status backend bytes) = (if backend \<noteq> [] \<and> k = backend then {#took#} else {#})"
| "ev_group k e = {#}"

fun ev_failure :: "string \<Rightarrow> event \<Rightarrow> int" where
  "ev_failure k (Failure kind) = (if k = kind then 1 else 0)"
| "ev_failure k e = 0"

fun ev_cache :: "string \<Rightarrow> event \<Rightarrow> int" where
  "ev_cache x (CacheAnswer c) = (if c = x then 1 else 0)"
| "ev_cache x e = 0"

fun ev_again :: "event \<Rightarrow> int" where
  "ev_again SentAgain = 1"
| "ev_again e = 0"

definition tells :: "samples \<Rightarrow> event multiset \<Rightarrow> bool" where
  "tells s M \<longleftrightarrow>
     mset (sm_latencies s) = (\<Sum>e\<in>#M. ev_latency e)
     \<and> sm_bytes s = (\<Sum>e\<in>#M. ev_bytes e)
     \<and> ints.agrees (sm_statuses s) (\<lambda>k. \<Sum>e\<in>#M. ev_status k e)
     \<and> ints.agrees (sm_backends s) (\<lambda>k. \<Sum>e\<in>#M. ev_backend k e)
     \<and> groups.agrees (sm_perBackend s) (\<lambda>k. \<Sum>e\<in>#M. ev_group k e)
     \<and> ints.agrees (sm_failures s) (\<lambda>k. \<Sum>e\<in>#M. ev_failure k e)
     \<and> sm_cacheHits s = (\<Sum>e\<in>#M. ev_cache ''hit'' e)
     \<and> sm_cacheMisses s = (\<Sum>e\<in>#M. ev_cache ''miss'' e)
     \<and> sm_clientRetries s = (\<Sum>e\<in>#M. ev_again e)"

lemma tells_new: "tells newSamples {#}"
  by (simp add: tells_def newSamples_def ints.agrees_Nil groups.agrees_Nil)

lemma tells_observe: "tells s M \<Longrightarrow> tells (observe_event s e) (add_mset e M)"
proof (cases e)
  case (Answer took status backend bytes)
  assume s: "tells s M"
  have st: "ints.agrees (add_to status 1 (sm_statuses s)) (\<lambda>k. (\<Sum>e\<in>#M. ev_status k e) + (if k = status then 1 else 0))"
    and ba: "ints.agrees (add_to backend 1 (sm_backends s)) (\<lambda>k. (\<Sum>e\<in>#M. ev_backend k e) + (if k = backend then 1 else 0))"
    and gr: "groups.agrees (append_to backend [took] (sm_perBackend s))
               (\<lambda>k. (\<Sum>e\<in>#M. ev_group k e) + (if k = backend then {#took#} else {#}))"
    using s by (auto simp: tells_def intro: ints.agrees_put groups_put)
  show ?thesis
    using s st ba gr Answer
    by (cases "backend = []") (simp_all add: tells_def record_answer_def Let_def add.commute)
next
  case (CacheAnswer c)
  assume s: "tells s M"
  have "''hit'' \<noteq> ''miss''" by simp
  then show ?thesis using s CacheAnswer by (auto simp: tells_def recordCache_def)
next
  case SentAgain
  assume "tells s M"
  then show ?thesis using SentAgain by (simp add: tells_def recordClientRetry_def)
next
  case (Failure kind)
  assume s: "tells s M"
  have "ints.agrees (add_to kind 1 (sm_failures s)) (\<lambda>k. (\<Sum>e\<in>#M. ev_failure k e) + (if k = kind then 1 else 0))"
    using s by (auto simp: tells_def intro: ints.agrees_put)
  then show ?thesis using s Failure by (simp add: tells_def recordFailure_def add.commute)
qed

lemma tells_observe_all: "tells s M \<Longrightarrow> tells (foldl observe_event s es) (M + mset es)"
proof (induction es arbitrary: s M)
  case (Cons e es)
  then show ?case using Cons.IH [OF tells_observe [OF Cons.prems, of e]] by simp
qed simp

lemma tells_merge: "tells s M \<Longrightarrow> tells t N \<Longrightarrow> tells (merge_samples s t) (M + N)"
  by (simp add: tells_def merge_samples_def ints.agrees_merge groups.agrees_merge)

definition named_backends :: "event multiset \<Rightarrow> string set" where
  "named_backends M = {b. \<exists>took status bytes. Answer took status b bytes \<in># M \<and> b \<noteq> []}"

lemma ev_group_zero: "(\<Sum>e\<in>#M. ev_group k e) \<noteq> {#} \<Longrightarrow> k \<in> named_backends M"
proof (induction M)
  case (add e M)
  show ?case
  proof (cases "(\<Sum>e\<in>#M. ev_group k e) = {#}")
    case True
    then have "ev_group k e \<noteq> {#}" using add.prems by simp
    then show ?thesis by (cases e) (auto simp: named_backends_def split: if_splits)
  next
    case False
    then show ?thesis using add.IH by (auto simp: named_backends_def)
  qed
qed simp

lemma tells_names:
  assumes "tells s M"
  shows "fst ` set (sm_perBackend s) \<subseteq> named_backends M"
proof
  fix k assume "k \<in> fst ` set (sm_perBackend s)"
  then obtain xs where "map_of (sm_perBackend s) k = Some xs" using map_of_eq_None_iff [of "sm_perBackend s" k] by auto
  then have "xs \<noteq> [] \<and> mset xs = (\<Sum>e\<in>#M. ev_group k e)"
    using assms by (auto simp: tells_def groups.agrees_def dest!: spec [of _ k])
  then have "(\<Sum>e\<in>#M. ev_group k e) \<noteq> {#}" by (metis mset_zero_iff)
  then show "k \<in> named_backends M" by (rule ev_group_zero)
qed

lemma timings_agree:
  assumes "groups.agrees m g" "groups.agrees m' g" "numbered (fst ` set m)"
  shows "timings m = timings m'"
proof -
  have names: "mset (map fst m) = mset (map fst m')" using assms(1,2) by (rule groups_names)
  then have sorted: "sort_slice lessBackend (map fst m) = sort_slice lessBackend (map fst m')"
    using assms(3) by (intro sorted_names) simp_all
  have "set (sort_slice lessBackend (map fst m)) \<subseteq> fst ` set m"
    using assms(3) by (simp add: set_sort_slice)
  moreover have "fst ` set m = fst ` set m'" using names by (metis set_mset_mset set_map)
  moreover have "timing_of k (the (map_of m k)) = timing_of k (the (map_of m' k))"
    if "k \<in> fst ` set m" "k \<in> fst ` set m'" for k
  proof -
    have "sort (the (map_of m k)) = sort (the (map_of m' k))"
      using groups_entry [OF assms(1) that(1)] groups_entry [OF assms(2) that(2)]
      by (metis sorted_list_of_multiset_mset)
    then show ?thesis by (simp add: timing_of_def Let_def)
  qed
  ultimately show ?thesis unfolding timings_def sorted by (intro map_cong) (auto simp: sorted [symmetric])
qed

text \<open>The summary is a function of the events.\<close>

lemma summarise_tells:
  assumes "tells s M" "tells t M" "numbered (named_backends M)"
  shows "summarise s connections took = summarise t connections took"
proof -
  have "sort (sm_latencies s) = sort (sm_latencies t)"
    using assms(1,2) by (metis tells_def sorted_list_of_multiset_mset)
  moreover have "numbered (fst ` set (sm_perBackend s))"
    using tells_names [OF assms(1)] assms(3) by (auto simp: numbered_def)
  then have "timings (sm_perBackend s) = timings (sm_perBackend t)"
    using assms(1,2) by (intro timings_agree) (auto simp: tells_def)
  moreover have "map_of (sm_statuses s) = map_of (sm_statuses t)" "map_of (sm_backends s) = map_of (sm_backends t)"
    "map_of (sm_failures s) = map_of (sm_failures t)" "mset (sm_failures s) = mset (sm_failures t)"
    using assms(1,2) ints_unique unfolding tells_def by blast+
  moreover have "(\<Sum>n\<leftarrow>map snd (sm_failures s). n) = (\<Sum>n\<leftarrow>map snd (sm_failures t). n)"
    using calculation(6) by (metis mset_map sum_mset_sum_list list.map_ident)
  moreover have "sm_bytes s = sm_bytes t" "sm_cacheHits s = sm_cacheHits t" "sm_cacheMisses s = sm_cacheMisses t"
    "sm_clientRetries s = sm_clientRetries t"
    using assms(1,2) by (simp_all add: tells_def)
  ultimately show ?thesis by (simp only: summarise_def)
qed

subsection \<open>A run\<close>

definition hot_events :: "time \<Rightarrow> (time \<times> outcome) list \<Rightarrow> event list" where
  "hot_events measureFrom turns =
     concat (map (\<lambda>(now, r). request_events r) (filter (\<lambda>(now, r). \<not> now < measureFrom) turns))"

lemma tells_drive: "tells (drive measureFrom turns) (mset (hot_events measureFrom turns))"
proof -
  let ?f = "\<lambda>(hot, cold) (now, r). if now < measureFrom then (hot, request_into cold r) else (request_into hot r, cold)"
  have "tells hot M \<Longrightarrow> tells (fst (foldl ?f (hot, cold) turns)) (M + mset (hot_events measureFrom turns))" for hot cold M
  proof (induction turns arbitrary: hot cold M)
    case (Cons x turns)
    obtain now r where x: "x = (now, r)" by (cases x)
    show ?case
    proof (cases "now < measureFrom")
      case True
      then show ?thesis using Cons x by (simp add: hot_events_def)
    next
      case False
      have "tells (request_into hot r) (M + mset (request_events r))"
        unfolding request_into_def using Cons.prems by (rule tells_observe_all)
      from Cons.IH [OF this, of cold] show ?thesis using False x by (simp add: hot_events_def add.assoc)
    qed
  qed (simp add: hot_events_def)
  from this [OF tells_new, of newSamples] show ?thesis by (simp add: drive_def)
qed

definition run_events :: "time \<Rightarrow> (time \<times> outcome) list list \<Rightarrow> event multiset" where
  "run_events measureFrom workers = mset (concat (map (hot_events measureFrom) workers))"

lemma tells_run:
  "tells (foldl merge_samples newSamples (map (drive measureFrom) workers)) (run_events measureFrom workers)"
proof -
  have "tells s M \<Longrightarrow> tells (foldl merge_samples s (map (drive measureFrom) workers)) (M + run_events measureFrom workers)" for s M
  proof (induction workers arbitrary: s M)
    case (Cons w ws)
    then show ?case
      using Cons.IH [OF tells_merge [OF Cons.prems tells_drive]] by (simp add: run_events_def add.assoc)
  qed (simp add: run_events_def)
  from this [OF tells_new] show ?thesis by simp
qed

text \<open>
  C21: What a load test reports depends only on what was observed in the measured window: two runs whose
  workers made the same observations, however they were spread over the workers and in whatever order,
  give the same result, histogram, percentiles and the backends' own timings included. The backends'
  names must end in a number, as those of the environment do.
\<close>

lemma load_result_depends_on_events:
  assumes "run_events from_a a = run_events from_b b" "numbered (named_backends (run_events from_a a))"
  shows "load_run from_a connections took a = load_run from_b connections took b"
  unfolding load_run_def
  using tells_run [of from_a a] tells_run [of from_b b] assms by (metis summarise_tells)

definition ex_turn :: "string \<Rightarrow> int \<Rightarrow> time \<times> outcome" where
  "ex_turn b took = (1, Complete 1 took 200 b 10 [])"

lemma load_result_depends_on_events_witness:
  "load_run 1 2 1000 [[ex_turn ''b-1'' 5, ex_turn ''b-2'' 7], [(0, NotBuilt)]]
     = load_run 0 2 1000 [[ex_turn ''b-2'' 7], [ex_turn ''b-1'' 5]]"
proof (rule load_result_depends_on_events)
  let ?M = "run_events 1 [[ex_turn ''b-1'' 5, ex_turn ''b-2'' 7], [(0, NotBuilt)]]"
  show "?M = run_events 0 [[ex_turn ''b-2'' 7], [ex_turn ''b-1'' 5]]"
    by (simp add: run_events_def hot_events_def ex_turn_def again_def)
  have "named_backends ?M \<subseteq> {''b-1'', ''b-2''}"
    by (auto simp: named_backends_def run_events_def hot_events_def ex_turn_def again_def)
  moreover have "trailingNumber ''b-1'' = Some 1" "trailingNumber ''b-2'' = Some 2" by code_simp+
  ultimately show "numbered (named_backends ?M)" by (auto simp: numbered_def)
qed

subsection \<open>Percentiles and the histogram\<close>

lemma distribution_loop_total: "(\<Sum>(u, n)\<leftarrow>distribution_loop us ds. n) = length ds"
proof (induction us ds rule: distribution_loop.induct)
  case (2 upper us ds)
  then show ?case
    using length_takeWhile_le [of "\<lambda>d. d \<le> upper" ds] by (simp add: Let_def)
qed simp

text \<open>Every answer is in exactly one band.\<close>

lemma distribution_total: "(\<Sum>(u, n)\<leftarrow>distribution ds. n) = length ds"
  by (simp add: distribution_def distribution_loop_total)

definition rank :: "nat \<Rightarrow> rat \<Rightarrow> nat" where
  "rank n q = (if q \<le> 0 then 0 else if q \<ge> 1 then n - 1
     else min (nat \<lfloor>f64 (q * of_nat n)\<rfloor>) (n - 1))"

lemma percentile_rank:
  assumes "ds \<noteq> []" "length ds \<le> 2 ^ 53"
  shows "percentile ds q = ds ! rank (length ds) q"
proof -
  let ?n = "length ds"
  have n: "float_of_int (int ?n) = of_nat ?n" using assms(2) f64_of_int [of "int ?n"] by (simp add: float_of_int_def)
  show ?thesis
  proof (cases "0 < q \<and> q < 1")
    case True
    have "f64 (q * of_nat ?n) \<le> f64 (of_nat ?n)" using True by (intro f64_mono) (simp add: mult_left_le_one_le)
    then have up: "f64 (q * of_nat ?n) \<le> of_nat ?n" using n by (simp add: float_of_int_def)
    have lo: "0 \<le> f64 (q * of_nat ?n)" using True by (intro f64_nonneg) simp
    have "\<lfloor>f64 (q * of_nat ?n)\<rfloor> \<le> int ?n" using up by (metis floor_mono floor_of_nat)
    moreover have "(of_nat ?n :: rat) \<le> of_nat (2 ^ 53)" using assms(2) by (simp only: of_nat_le_iff)
    then have "f64 (q * of_nat ?n) < 2 ^ 63" using up by simp
    ultimately have "int64_of_rat (f64 (q * of_nat ?n)) = \<lfloor>f64 (q * of_nat ?n)\<rfloor>" "0 \<le> \<lfloor>f64 (q * of_nat ?n)\<rfloor>"
      using lo assms(2) by (simp_all add: int64_of_rat_def trunc_def Let_def)
    moreover have "nat (if k \<ge> int ?n then int ?n - 1 else k) = min (nat k) (?n - 1)" if "0 \<le> k" for k
      using that assms(1) by auto
    ultimately show ?thesis
      using True assms(1) n by (simp add: percentile_def rank_def Let_def)
  next
    case False
    then show ?thesis using assms(1) by (auto simp: percentile_def rank_def hd_conv_nth last_conv_nth)
  qed
qed

lemma rank_mono: "q \<le> q' \<Longrightarrow> rank n q \<le> rank n q'"
proof -
  assume q: "q \<le> q'"
  have "f64 (q * of_nat n) \<le> f64 (q' * of_nat n)" using q by (intro f64_mono mult_right_mono) simp_all
  then have "nat \<lfloor>f64 (q * of_nat n)\<rfloor> \<le> nat \<lfloor>f64 (q' * of_nat n)\<rfloor>" by (intro nat_mono floor_mono)
  then show ?thesis using q by (auto simp: rank_def)
qed

lemma rank_less: "0 < n \<Longrightarrow> rank n q < n"
  by (auto simp: rank_def)

text \<open>A higher percentile of a run is never below a lower one, and each is the latency of an answer.\<close>

lemma percentile_mono:
  assumes "ds \<noteq> []" "length ds \<le> 2 ^ 53" "sorted ds" "q \<le> q'"
  shows "percentile ds q \<le> percentile ds q'" "percentile ds q \<in> set ds"
  using percentile_rank [OF assms(1,2)] rank_mono [OF assms(4), of "length ds"] rank_less [of "length ds"] assms(1,3)
  by (auto intro: sorted_nth_mono nth_mem)

end
