(* ===== verification/Load_Counters.thy ===== *)
theory Load_Counters
  imports Load_Results
begin

text \<open>
  The rest of the load generator's state: the balancer's counters, read from its exposition before and
  after the measured window (\<open>cmd/loadgen/metrics.go\<close>), and the cookies of every session
  (\<open>sessionJar\<close> of \<open>main.go\<close>), with how a request's session is named and which flags are refused. The lines are those of the scanner and \<open>strconv.ParseFloat\<close> is an
  argument. The lemmas: the label of a sample is the reason, placement or result it names; what moved
  between two snapshots is what grew; an answer's cookies replace those of the same name and leave the
  others and the other sessions alone.
\<close>

subsection \<open>Counters\<close>

type_synonym counters = "(string \<times> float64) list"

text \<open>\<open>labelPattern\<close>: the leftmost match, the alternatives in their order.\<close>

definition quote :: char where "quote = CHR 0x22"

definition value_after :: "string \<Rightarrow> string \<Rightarrow> string option" where
  "value_after alt s =
     (case cut_prefix s (alt @ [CHR ''='', quote]) of
        None \<Rightarrow> None
      | Some r \<Rightarrow>
          (let v = takeWhile (\<lambda>c. c \<noteq> quote) r in if v \<noteq> [] \<and> length v < length r then Some v else None))"

definition label_here :: "string \<Rightarrow> string option" where
  "label_here s =
     (case value_after ''reason'' s of
        Some v \<Rightarrow> Some v
      | None \<Rightarrow> (case value_after ''placement'' s of Some v \<Rightarrow> Some v | None \<Rightarrow> value_after ''result'' s))"

fun find_label :: "string \<Rightarrow> string option" where
  "find_label [] = None"
| "find_label (c # s) = (case label_here (c # s) of Some v \<Rightarrow> Some v | None \<Rightarrow> find_label s)"

definition counters_bump :: "counters \<Rightarrow> string \<Rightarrow> float64 \<Rightarrow> counters" where
  "counters_bump c k x = AList.update k ((case map_of c k of None \<Rightarrow> 0 | Some y \<Rightarrow> y) + x) c"

definition counters_add :: "counters \<Rightarrow> string \<Rightarrow> string \<Rightarrow> float64 \<Rightarrow> counters" where
  "counters_add c pre name x = (case find_label name of None \<Rightarrow> c | Some label \<Rightarrow> counters_bump c (pre @ label) x)"

definition splitSample :: "(string \<Rightarrow> float64 option) \<Rightarrow> string \<Rightarrow> (string \<times> float64) option" where
  "splitSample ParseFloat line =
     (case last_index_byte line CHR '' '' of
        None \<Rightarrow> None
      | Some i \<Rightarrow> (case ParseFloat (drop (i + 1) line) of None \<Rightarrow> None | Some x \<Rightarrow> Some (take i line, x)))"

definition count_line :: "(string \<Rightarrow> float64 option) \<Rightarrow> counters \<Rightarrow> string \<Rightarrow> counters" where
  "count_line ParseFloat found line =
     (if prefix ''#'' line then found
      else case splitSample ParseFloat line of
        None \<Rightarrow> found
      | Some (name, x) \<Rightarrow>
          if name = ''lb_retries_total'' then counters_bump found ''retries'' x
          else if prefix ''lb_rejected_requests_total{'' name then counters_add found ''refused '' name x
          else if prefix ''lb_hash_placements_total{'' name then counters_add found ''placed '' name x
          else if prefix ''lb_sticky_requests_total{'' name then counters_add found ''sticky '' name x
          else found)"

definition parseCounters :: "(string \<Rightarrow> float64 option) \<Rightarrow> string list \<Rightarrow> counters" where
  "parseCounters ParseFloat ls = foldl (count_line ParseFloat) [] ls"

definition fneg :: "float64 \<Rightarrow> float64" where
  "fneg x = (case x of Fin a \<Rightarrow> Fin (- a) | PosInf \<Rightarrow> NegInf | NegInf \<Rightarrow> PosInf | NaN \<Rightarrow> NaN)"

definition delta :: "counters \<Rightarrow> string \<times> float64 \<Rightarrow> float64" where
  "delta earlier x = snd x + fneg (case map_of earlier (fst x) of None \<Rightarrow> 0 | Some y \<Rightarrow> y)"

definition since :: "counters \<Rightarrow> counters \<Rightarrow> (string \<times> int) list" where
  "since earlier later =
     map (\<lambda>x. (fst x, int64_of_float (delta earlier x))) (filter (\<lambda>x. flt 0 (delta earlier x)) later)"

lemma label_of_value:
  "quote \<notin> set v \<Longrightarrow> v \<noteq> [] \<Longrightarrow> value_after alt (alt @ CHR ''='' # quote # v @ quote # r) = Some v"
  using cut_prefix_append [of "alt @ [CHR ''='', quote]" "v @ quote # r"]
  by (simp add: value_after_def takeWhile_append)

lemma rejected_label:
  assumes "quote \<notin> set v" "v \<noteq> []"
  shows "find_label (''lb_rejected_requests_total{reason='' @ quote # v @ quote # ''}'') = Some v"
proof -
  have "label_here (''reason'' @ CHR ''='' # quote # v @ quote # ''}'') = Some v"
    using label_of_value [OF assms, of "''reason''" "''}''"] by (simp add: label_here_def)
  then show ?thesis
    by (simp add: label_here_def [of "CHR ''l'' # _"] label_here_def [of "CHR ''b'' # _"]
        label_here_def [of "CHR ''_'' # _"] label_here_def [of "CHR ''e'' # _"] label_here_def [of "CHR ''j'' # _"]
        label_here_def [of "CHR ''c'' # _"] label_here_def [of "CHR ''t'' # _"] label_here_def [of "CHR ''d'' # _"]
        label_here_def [of "CHR ''q'' # _"] label_here_def [of "CHR ''u'' # _"] label_here_def [of "CHR ''s'' # _"]
        label_here_def [of "CHR ''o'' # _"] label_here_def [of "CHR ''a'' # _"] label_here_def [of "CHR ''{'' # _"]
        label_here_def [of "CHR ''r'' # CHR ''e'' # CHR ''j'' # _"] label_here_def [of "CHR ''r'' # CHR ''e'' # CHR ''q'' # _"]
        value_after_def cut_prefix_def)
qed

text \<open>What is reported between two snapshots is positive, and a counter that did not move is left out.\<close>

lemma since_moved: "(k, n) \<in> set (since a b) \<Longrightarrow> \<exists>x. (k, x) \<in> set b \<and> flt 0 (delta a (k, x)) \<and> n = int64_of_float (delta a (k, x))"
  by (auto simp: since_def)

lemma since_same:
  assumes "distinct (map fst b)" "\<And>k x. (k, x) \<in> set b \<Longrightarrow> \<exists>r. x = Fin r"
  shows "since b b = []"
proof -
  have "\<not> flt 0 (delta b x)" if "x \<in> set b" for x
  proof -
    obtain k y where ky: "x = (k, y)" by (cases x)
    have "(k, y) \<in> set b" using that ky by simp
    from assms(2) [OF this] obtain r where "y = Fin r" by blast
    then have x: "x = (k, Fin r)" using ky by simp
    then have "map_of b k = Some (Fin r)" using assms(1) that by (simp add: map_of_is_SomeI)
    then show ?thesis by (simp add: x delta_def fneg_def float64_arith pack_def)
  qed
  then show ?thesis by (simp add: since_def filter_empty_conv)
qed

subsection \<open>Cookies\<close>

type_synonym sessionJar = "(string \<times> (string \<times> string) list) list"

definition jar_attach :: "sessionJar \<Rightarrow> string \<Rightarrow> (string \<times> string) list" where
  "jar_attach j session = (case map_of j session of None \<Rightarrow> [] | Some kept \<Rightarrow> kept)"

definition jar_keep :: "sessionJar \<Rightarrow> string \<Rightarrow> (string \<times> string) list \<Rightarrow> sessionJar" where
  "jar_keep j session cookies =
     (if cookies = [] then j
      else AList.update session (foldl (\<lambda>m (n, v). AList.update n v m) (jar_attach j session) cookies) j)"

lemma jar_keep_other: "s' \<noteq> s \<Longrightarrow> jar_attach (jar_keep j s cs) s' = jar_attach j s'"
  by (simp add: jar_attach_def jar_keep_def update_conv')

lemma fold_updates: "map_of (foldl (\<lambda>m (n, v). AList.update n v m) m cs) = map_of m ++ map_of (rev cs)"
  by (induction cs rule: rev_induct) (auto simp: update_conv' map_add_def fun_eq_iff)

text \<open>The last cookie of a name wins; the others stay.\<close>

lemma jar_keep_same: "map_of (jar_attach (jar_keep j s cs) s) = map_of (jar_attach j s) ++ map_of (rev cs)"
  by (simp add: jar_attach_def jar_keep_def update_conv' fold_updates)

subsection \<open>Sessions and flags\<close>

text \<open>The flags a run is shaped by, as the \<open>flag\<close> package read them.\<close>

record load_flags =
  lf_connections :: int
  lf_bodySize :: int
  lf_keys :: int
  lf_skew :: float64
  lf_cookies :: bool

datatype load_flag_problem = ConnectionsTooFew | NegativeSizeOrKeys | ZipfNotAbove1OrNoKeys | CookiesWithoutKeys

definition load_flags_problem :: "load_flags \<Rightarrow> load_flag_problem option" where
  "load_flags_problem f =
     (if lf_connections f < 1 then Some ConnectionsTooFew
      else if lf_bodySize f < 0 \<or> lf_keys f < 0 then Some NegativeSizeOrKeys
      else if \<not> feq (lf_skew f) 0 \<and> (fle (lf_skew f) 1 \<or> lf_keys f = 0) then Some ZipfNotAbove1OrNoKeys
      else if lf_cookies f \<and> lf_keys f = 0 then Some CookiesWithoutKeys
      else None)"

text \<open>\<open>sessions\<close>: the name of one request's session; \<open>uniform\<close> and \<open>zipf\<close> are the numbers drawn.\<close>

definition session_name :: "int \<Rightarrow> float64 \<Rightarrow> int \<Rightarrow> nat \<Rightarrow> string" where
  "session_name keys skew uniform zipf =
     (if keys = 0 then []
      else if feq skew 0 then ''session-'' @ Itoa uniform
      else ''session-'' @ decimal zipf)"

text \<open>A run that keeps cookies names a session with every request, so no cookie is lost.\<close>

lemma kept_cookies_have_a_session:
  "load_flags_problem f = None \<Longrightarrow> lf_cookies f \<Longrightarrow> session_name (lf_keys f) (lf_skew f) u z \<noteq> []"
  by (auto simp: load_flags_problem_def session_name_def split: if_splits)

end
