(* ===== verification/Load_Report.thy ===== *)
theory Load_Report
  imports Go_Text Load_Counters
begin

text \<open>
  What the load generator prints (\<open>cmd/loadgen/main.go\<close>): the result with its algorithm, the balancer's
  counters and the build it came from, as text for a person, and the histogram. A Go map that is listed
  without being sorted first, as the backends are, is listed in the order an argument gives. The lemmas:
  what is printed depends on what was observed alone; the histogram is to scale and lines up.
\<close>

subsection \<open>The result as it is reported\<close>

record build =
  bd_revision :: string
  bd_modified :: bool
  bd_flags :: "(string \<times> string) list"

text \<open>\<open>info\<close> is the build information of the binary, when there is any.\<close>

definition build_setting :: "build \<Rightarrow> string \<times> string \<Rightarrow> build" where
  "build_setting d x =
     (if fst x = ''vcs.revision'' then d\<lparr>bd_revision := snd x\<rparr>
      else if fst x = ''vcs.modified'' then d\<lparr>bd_modified := (snd x = ''true'')\<rparr> else d)"

definition describeGenerator :: "(string \<times> string) list option \<Rightarrow> (string \<times> string) list \<Rightarrow> build" where
  "describeGenerator info flags =
     (let d = \<lparr>bd_revision = ''unknown'', bd_modified = False, bd_flags = []\<rparr>;
          d = (case info of None \<Rightarrow> d | Some settings \<Rightarrow> foldl build_setting d settings)
      in d\<lparr>bd_flags := foldl (\<lambda>m (k, v). AList.update k v m) (bd_flags d) flags\<rparr>)"

record report = load_result +
  rp_algorithm :: string
  rp_counters :: totals
  rp_generator :: build

text \<open>What asking for the exposition came to: an error, or the status and the lines with whether reading them failed.\<close>

datatype scrape = ScrapeFailed | ScrapeAnswered int "string list" bool

definition scrapeCounters :: "(string \<Rightarrow> float64 option) \<Rightarrow> scrape \<Rightarrow> counters option" where
  "scrapeCounters pf r =
     (case r of
        ScrapeFailed \<Rightarrow> None
      | ScrapeAnswered status ls broken \<Rightarrow>
          if status \<noteq> 200 then None else if broken then None else Some (parseCounters pf ls))"

definition readCounters :: "(string \<Rightarrow> float64 option) \<Rightarrow> string \<Rightarrow> scrape \<Rightarrow> counters" where
  "readCounters pf url r =
     (if url = [] then [] else case scrapeCounters pf r of None \<Rightarrow> [] | Some c \<Rightarrow> c)"

definition report_run ::
  "(string \<Rightarrow> float64 option) \<Rightarrow> string \<Rightarrow> scrape \<Rightarrow> scrape \<Rightarrow> string \<Rightarrow> build \<Rightarrow> load_result \<Rightarrow> report" where
  "report_run pf url before after label b r =
     load_result.extend r
       \<lparr>rp_algorithm = label,
        rp_counters = since (readCounters pf url before) (readCounters pf url after),
        rp_generator = b\<rparr>"

subsection \<open>Lists of totals\<close>

definition blanks :: string where "blanks = ''   ''"

text \<open>\<open>counts\<close> and \<open>named\<close>: the entries by status code, and by name.\<close>

definition counts_text :: "(int \<rightharpoonup> int) \<Rightarrow> string" where
  "counts_text statuses =
     join blanks (map (\<lambda>code. Itoa code @ '': '' @ Itoa (the (statuses code))) (sorted_list_of_set (dom statuses)))"

definition named :: "(string \<rightharpoonup> int) \<Rightarrow> string" where
  "named kinds =
     join blanks (map (\<lambda>name. name @ '': '' @ Itoa (the (kinds name))) (sorted_list_of_set (dom kinds)))"

definition share_of :: "int \<Rightarrow> nat \<Rightarrow> float64" where
  "share_of n requests =
     (if 0 < requests then fdiv (Fin 100 * Fin (float_of_int n)) (float_of_int (int requests)) else 0)"

definition shares :: "string list \<Rightarrow> (string \<rightharpoonup> int) \<Rightarrow> nat \<Rightarrow> string" where
  "shares names backends requests =
     join blanks (map (\<lambda>name. let n = the (backends name)
        in name @ '' '' @ Itoa n @ '' ('' @ fixed 1 (share_of n requests) @ ''%)'')
        (sort_slice lessBackend names))"

subsection \<open>The report\<close>

definition dot_between :: string where "dot_between = [CHR 0xC2, CHR 0xB7]"
definition em_dash :: string where "em_dash = [CHR 0xE2, CHR 0x80, CHR 0x94]"

definition line_if :: "bool \<Rightarrow> string \<Rightarrow> string" where
  "line_if b s = (if b then s @ [CHR 0x0A] else [])"

definition report_text :: "string list \<Rightarrow> report \<Rightarrow> string" where
  "report_text names r =
     line_if True (Itoa (lr_connections r) @ '' connections for '' @ lr_duration r
       @ (if rp_algorithm r \<noteq> [] then '' '' @ dot_between @ '' '' @ rp_algorithm r else []))
   @ line_if (bd_revision (rp_generator r) \<noteq> [])
       (''  generator  '' @ rune_take 12 (bd_revision (rp_generator r))
        @ (if bd_modified (rp_generator r) then '', with changes not committed'' else []))
   @ line_if True (''  requests   '' @ decimal (lr_requests r) @ '' ('' @ fixed 0 (lr_throughput r) @ ''/s, ''
       @ fixed 1 (lr_megabytes r) @ '' MB/s)'')
   @ line_if True (''  latency    p50 '' @ lr_p50 r @ ''   p95 '' @ lr_p95 r @ ''   p99 '' @ lr_p99 r @ ''   max '' @ lr_max r)
   @ line_if True (''  statuses   '' @ counts_text (lr_statuses r))
   @ (case lr_cache r of
        None \<Rightarrow> []
      | Some c \<Rightarrow> line_if True (''  cache      '' @ Itoa (cr_hits c) @ '' hits, '' @ Itoa (cr_misses c) @ '' misses (''
          @ fixed 1 (Fin 100 * cr_hitRate c) @ ''% hit)''))
   @ line_if (lr_clientRetries r > 0)
       (''  client     '' @ Itoa (lr_clientRetries r) @ '' requests sent again by the client on a new connection'')
   @ line_if (lr_failures r > 0) (''  failures   '' @ Itoa (lr_failures r) @ '' '' @ em_dash @ '' '' @ named (lr_failureKind r))
   @ line_if (rp_counters r \<noteq> []) (''  balancer   '' @ named (map_of (rp_counters r)))
   @ line_if (dom (lr_backends r) \<noteq> {}) (''  backends   '' @ shares names (lr_backends r) (lr_requests r))"

text \<open>The widest bar, and a line of the histogram.\<close>

definition histogram_width :: nat where "histogram_width = 40"

definition wider :: "nat \<Rightarrow> Load_Results.bucket \<Rightarrow> nat" where
  "wider m b = (if snd b > m then snd b else m)"

definition widest :: "Load_Results.bucket list \<Rightarrow> nat" where
  "widest bs = foldl wider 0 bs"

definition band_bar :: "nat \<Rightarrow> nat \<Rightarrow> string" where
  "band_bar most n = replicate (n * histogram_width div most) CHR ''#''"

definition band_line :: "nat \<Rightarrow> nat \<Rightarrow> Load_Results.bucket \<Rightarrow> string" where
  "band_line most requests b =
     (case b of (edge, n) \<Rightarrow>
        ''  '' @ pad_left 8 edge @ ''  '' @ pad_right 40 (band_bar most n) @ '' '' @ pad_left 6 (decimal n) @ ''  ''
        @ pad_left 5 (fixed 1 (fdiv (Fin 100 * Fin (float_of_int (int n))) (float_of_int (int requests)))) @ ''%'')"

definition backend_line :: "timing \<Rightarrow> string" where
  "backend_line t =
     ''  '' @ pad_right 12 (ti_backend t) @ '' '' @ pad_left 6 (decimal (ti_requests t)) @ '' requests   p50 ''
     @ pad_right 9 (ti_p50 t) @ '' p95 '' @ pad_right 9 (ti_p95 t) @ '' max '' @ ti_max t"

definition histogram_bands :: "'z load_result_scheme \<Rightarrow> string list" where
  "histogram_bands r = map (band_line (widest (lr_histogram r)) (lr_requests r)) (lr_histogram r)"

definition histogramText :: "'z load_result_scheme \<Rightarrow> string" where
  "histogramText r =
     (if widest (lr_histogram r) = 0 then []
      else line_if True (''  latency distribution of '' @ decimal (lr_requests r) @ '' requests'')
         @ concat (map (line_if True) (histogram_bands r))
         @ line_if (lr_perBackend r \<noteq> []) ''  per backend''
         @ concat (map (\<lambda>t. line_if True (backend_line t)) (lr_perBackend r)))"

text \<open>What is printed, with the histogram or without.\<close>

definition load_output :: "bool \<Rightarrow> string list \<Rightarrow> report \<Rightarrow> string" where
  "load_output shape names r = report_text names r @ (if shape then histogramText r else [])"

subsection \<open>What is printed depends on what was observed alone\<close>

lemma shares_order:
  "numbered (set names) \<Longrightarrow> mset names = mset names' \<Longrightarrow> shares names backends n = shares names' backends n"
  using sorted_names [of names names'] by (simp add: shares_def)

lemma output_depends_on_events:
  assumes "run_events from_a a = run_events from_b b" "numbered (named_backends (run_events from_a a))"
    and "numbered (set names)" "mset names = mset names'"
  shows "load_output shape names (report_run pf url before after label g (load_run from_a connections took a))
       = load_output shape names' (report_run pf url before after label g (load_run from_b connections took b))"
proof -
  have "load_run from_a connections took a = load_run from_b connections took b"
    unfolding load_run_def using tells_run [of from_a a] tells_run [of from_b b] assms(1,2) by (metis summarise_tells)
  then show ?thesis using shares_order [OF assms(3,4)] by (simp add: load_output_def report_text_def)
qed

text \<open>The order of the totals is that of their keys, whatever the map.\<close>

lemma named_keys: "distinct (map fst m) \<Longrightarrow> named (map_of m) = join blanks (map (\<lambda>k. k @ '': '' @ Itoa (the (map_of m k))) (sort (map fst m)))"
  using sorted_list_of_set_sort_remdups [of "map fst m"]
  by (simp add: named_def dom_map_of_conv_image_fst distinct_remdups_id)

subsection \<open>The histogram is to scale and lines up\<close>

lemma widest_fold: "foldl wider m bs = Max (insert m (snd ` set bs))"
proof (induction bs arbitrary: m)
  case (Cons b bs)
  have "wider m b = max m (snd b)" by (simp add: wider_def max_def)
  then show ?case using Cons.IH [of "wider m b"] by (cases "bs = []") (simp_all add: max.assoc)
qed simp

lemma widest_bounds: "(u, n) \<in> set bs \<Longrightarrow> n \<le> widest bs"
proof -
  assume "(u, n) \<in> set bs"
  then have "n \<in> insert 0 (snd ` set bs)" by force
  then show ?thesis using Max_ge [of "insert 0 (snd ` set bs)" n] by (simp add: widest_def widest_fold)
qed

lemma widest_reached: "0 < widest bs \<Longrightarrow> \<exists>u. (u, widest bs) \<in> set bs"
  using Max_in [of "insert 0 (snd ` set bs)"] by (auto simp: widest_def widest_fold)

lemma band_bar_bounds: "n \<le> most \<Longrightarrow> length (band_bar most n) \<le> 40"
  using div_le_mono [of "n * 40" "most * 40" most] by (cases "most = 0") (simp_all add: band_bar_def histogram_width_def)

lemma frac_digits_whole: "frac_digits n (k * 10 ^ n) False = ([], False, k)"
proof (induction n)
  case (Suc n)
  have "k * 10 ^ Suc n mod 10 = 0" "k * 10 ^ Suc n div 10 = k * 10 ^ n" by simp_all
  then show ?case using Suc by (simp del: power_Suc)
qed simp

lemma body_of_whole:
  "0 < k \<Longrightarrow> k < 1000 \<Longrightarrow> body_of (k * millisecond) = decimal k @ ''ms''"
  "0 < k \<Longrightarrow> k < 60 \<Longrightarrow> body_of (k * second) = decimal k @ ''s''"
  using frac_digits_whole [of 6 k] frac_digits_whole [of 9 k]
  by (simp_all add: body_of_def second_def millisecond_def microsecond_def fmtFrac_def)

lemma Duration_String_nat: "Duration_String (int m) = body_of m"
  by (simp add: Duration_String_def)

lemma whole_label:
  assumes "0 < k" "k < 1000" "u = int (k * millisecond) \<or> k < 60 \<and> u = int (k * second)"
  shows "ascii (Duration_String u)" "length (Duration_String u) \<le> 8"
proof -
  have "Duration_String u = decimal k @ ''ms'' \<or> Duration_String u = decimal k @ ''s''"
    using assms body_of_whole [of k] Duration_String_nat by (metis (no_types))
  moreover have "length (decimal k) \<le> 3" using assms(2) by (intro length_decimal) simp_all
  ultimately show "ascii (Duration_String u)" "length (Duration_String u) \<le> 8"
    using digits_ascii [OF decimal_digits [of k]] by (auto simp: ascii_def byte_in_def)
qed

lemma band_labels: "u \<in> set bands \<Longrightarrow> ascii (Duration_String u) \<and> length (Duration_String u) \<le> 8"
proof -
  assume "u \<in> set bands"
  then obtain k where "0 < k" "k < 1000" "u = int (k * millisecond) \<or> k < 60 \<and> u = int (k * second)"
    by (auto simp: bands_def millisecond_def second_def)
  then show ?thesis using whole_label by blast
qed

lemma distribution_loop_labels:
  "(l, n) \<in> set (distribution_loop us ds) \<Longrightarrow> l \<in> Duration_String ` set us \<union> {''more''}"
  by (induction us ds rule: distribution_loop.induct) (auto simp: Let_def split: if_splits)

lemma distribution_bands:
  assumes "(l, n) \<in> set (distribution ds)"
  shows "ascii l" "length l \<le> 8" "n \<le> length ds"
proof -
  have "l \<in> Duration_String ` set bands \<union> {''more''}"
    using assms distribution_loop_labels by (fastforce simp: distribution_def split: if_splits)
  then show "ascii l" "length l \<le> 8" using band_labels by (auto simp: ascii_def byte_in_def)
  have "n \<le> (\<Sum>(u, n)\<leftarrow>distribution ds. n)"
    using assms by (intro member_le_sum_list) (force, simp)
  then show "n \<le> length ds" by (simp add: distribution_total)
qed

lemma percent_bounds:
  assumes "n \<le> N" "0 < N" "N < 10 ^ 6"
  shows "\<exists>x. fdiv (Fin 100 * Fin (float_of_int (int n))) (float_of_int (int N)) = Fin x \<and> 0 \<le> x \<and> x \<le> 100"
proof -
  have n: "float_of_int (int n) = of_nat n" "float_of_int (int N) = of_nat N"
    using assms f64_of_int [of "int n"] f64_of_int [of "int N"] by (simp_all add: float_of_int_def)
  have "f64 (of_int (100 * int n)) = of_int (100 * int n)" using assms by (intro f64_of_int) simp
  then have "f64 (100 * of_nat n) = 100 * of_nat n" by simp
  moreover have "(100 * of_nat n :: rat) < 2 ^ 1024"
  proof -
    have "of_nat n < (10 ^ 6 :: rat)" using assms by (metis of_nat_less_iff of_nat_numeral of_nat_power le_less_trans)
    then show ?thesis by simp
  qed
  ultimately have prod: "Fin 100 * Fin (of_nat n) = Fin (100 * of_nat n)" by (simp add: float64_arith fmul_def pack_small)
  have q: "100 * of_nat n / of_nat N \<le> (100 :: rat)" using assms by (simp add: divide_le_eq)
  have "f64 (100 * of_nat n / of_nat N) \<le> f64 (of_int 100)" using q by (intro f64_mono) simp
  moreover have "f64 (of_int 100) = of_int 100" by (intro f64_of_int) simp
  ultimately have "f64 (100 * of_nat n / of_nat N) \<le> 100" by simp
  moreover have "0 \<le> f64 (100 * of_nat n / of_nat N)" by (intro f64_nonneg) simp
  ultimately show ?thesis
    using assms(2) by (intro exI [of _ "f64 (100 * of_nat n / of_nat N)"]) (simp add: n prod fdiv_def pack_small)
qed

lemma band_line_width:
  assumes "ascii edge" "length edge \<le> 8" "n \<le> most" "n \<le> N" "0 < N" "N < 10 ^ 6"
  shows "ascii (band_line most N (edge, n))" "length (band_line most N (edge, n)) = 67"
proof -
  obtain x where x: "fdiv (Fin 100 * Fin (float_of_int (int n))) (float_of_int (int N)) = Fin x" "0 \<le> x" "x \<le> 100"
    using percent_bounds [OF assms(4,5,6)] by blast
  note share = share_width [OF x(2,3)]
  have number: "ascii (decimal n)" "length (decimal n) \<le> 6"
    using digits_ascii [OF decimal_digits] length_decimal [of 6 n] assms(4,6) by simp_all
  have bar: "ascii (band_bar most n)" "length (band_bar most n) \<le> 40"
    using band_bar_bounds [OF assms(3)] by (simp_all add: band_bar_def)
  show "ascii (band_line most N (edge, n))"
    using assms(1) share(1) number(1) bar(1) by (simp add: band_line_def x(1) ascii_Cons byte_in_def)
  show "length (band_line most N (edge, n)) = 67"
    using pad_width [OF assms(1,2)] pad_width [OF bar] pad_width [OF number] pad_width [OF share]
    by (simp add: band_line_def x(1))
qed

text \<open>
  The histogram a load test prints is to scale and lines up: every answer is in exactly one of its
  bands, the bar of the fullest band has forty marks and no other is longer, and every band's line is
  exactly 67 columns wide, for up to 999999 answers.
\<close>

lemma histogram_lines_up:
  assumes "r = summarise all connections took" "0 < length (sm_latencies all)" "length (sm_latencies all) < 10 ^ 6"
  shows "(\<Sum>(u, n)\<leftarrow>lr_histogram r. n) = lr_requests r
     \<and> (\<exists>u n. (u, n) \<in> set (lr_histogram r) \<and> band_bar (widest (lr_histogram r)) n = replicate 40 CHR ''#'')
     \<and> (\<forall>(u, n) \<in> set (lr_histogram r). length (band_bar (widest (lr_histogram r)) n) \<le> 40)
     \<and> (\<forall>l \<in> set (histogram_bands r). rune_count l = 67)"
proof -
  define ds where "ds = sort (sm_latencies all)"
  have fields: "lr_histogram r = distribution ds" "lr_requests r = length ds"
    by (simp_all add: assms(1) summarise_def ds_def Let_def)
  have n: "0 < length ds" "length ds < 10 ^ 6" using assms(2,3) by (simp_all add: ds_def)
  have "widest (distribution ds) \<noteq> 0"
  proof
    assume "widest (distribution ds) = 0"
    then have "\<forall>x\<in>set (distribution ds). snd x = 0" using widest_bounds by fastforce
    then have "(\<Sum>(u, n)\<leftarrow>distribution ds. n) = 0" by (induction "distribution ds") auto
    then show False using n(1) by (simp add: distribution_total)
  qed
  then obtain u where u: "(u, widest (distribution ds)) \<in> set (distribution ds)" "0 < widest (distribution ds)"
    using widest_reached [of "distribution ds"] by blast
  moreover have "rune_count (band_line (widest (distribution ds)) (length ds) (l, k)) = 67"
    if "(l, k) \<in> set (distribution ds)" for l k
    using band_line_width [OF distribution_bands(1,2) [OF that] widest_bounds [OF that] distribution_bands(3) [OF that] n]
    by (simp add: rune_count_of_ascii)
  moreover have "band_bar (widest (distribution ds)) (widest (distribution ds)) = replicate 40 CHR ''#''"
    using u(2) by (simp add: band_bar_def histogram_width_def)
  ultimately show ?thesis
    using widest_bounds band_bar_bounds by (auto simp: fields distribution_total histogram_bands_def)
qed

lemma histogram_lines_up_witness:
  "\<forall>l \<in> set (histogram_bands (summarise (newSamples\<lparr>sm_latencies := [3000000, 70]\<rparr>) 1 1000)). rune_count l = 67"
  using histogram_lines_up [of _ "newSamples\<lparr>sm_latencies := [3000000, 70]\<rparr>" 1 1000] by simp

end
