(* ===== verification/Load_Requests.thy ===== *)
theory Load_Requests
  imports Load_Counters
begin

text \<open>
  The requests the load generator sends (\<open>cmd/loadgen/main.go\<close>): the load the flags ask for, what a request
  carries, and the cookies an answer leaves. The lemma: under any order of answers, a request carries
  exactly the newest cookies its own session was given, and none of another's.
\<close>

text \<open>\<open>strings.ToUpper\<close>, of ASCII letters: an HTTP method has no others.\<close>

definition upper_char :: "char \<Rightarrow> char" where
  "upper_char c = (let n = of_char c :: nat in if 97 \<le> n \<and> n \<le> 122 then char_of (n - 32) else c)"

record load =
  ld_url :: string
  ld_method :: string
  ld_body :: "string option"
  ld_keys :: int
  ld_skew :: float64
  ld_jar :: "sessionJar option"

definition newSessionJar :: sessionJar where "newSessionJar = []"

definition load_of_flags :: "string \<Rightarrow> string \<Rightarrow> string \<Rightarrow> load_flags \<Rightarrow> load" where
  "load_of_flags target path method f =
     \<lparr>ld_url = target @ path, ld_method = map upper_char method,
      ld_body = (if lf_bodySize f > 0 then Some (replicate (nat (lf_bodySize f)) CHR ''x'') else None),
      ld_keys = lf_keys f, ld_skew = lf_skew f,
      ld_jar = (if lf_cookies f then Some newSessionJar else None)\<rparr>"

definition sessionHeader :: string where "sessionHeader = ''X-Session''"

record sent =
  se_method :: string
  se_url :: string
  se_body :: string
  se_headers :: "(string \<times> string) list"
  se_cookies :: "(string \<times> string) list"

definition load_request :: "load \<Rightarrow> string \<Rightarrow> sent" where
  "load_request l session =
     \<lparr>se_method = ld_method l, se_url = ld_url l,
      se_body = (case ld_body l of None \<Rightarrow> [] | Some b \<Rightarrow> b),
      se_headers = (if session \<noteq> [] then [(sessionHeader, session)] else []),
      se_cookies = (if session \<noteq> [] then (case ld_jar l of None \<Rightarrow> [] | Some j \<Rightarrow> jar_attach j session) else [])\<rparr>"

text \<open>What an answer to a request of a session leaves behind.\<close>

definition load_answered :: "load \<Rightarrow> string \<times> (string \<times> string) list \<Rightarrow> load" where
  "load_answered l x =
     (case ld_jar l of
        None \<Rightarrow> l
      | Some j \<Rightarrow> if fst x \<noteq> [] then l\<lparr>ld_jar := Some (jar_keep j (fst x) (snd x))\<rparr> else l)"

lemma load_answered_jar:
  "ld_jar l = Some j \<Longrightarrow> ld_jar (load_answered l x) = Some (if fst x \<noteq> [] then jar_keep j (fst x) (snd x) else j)"
  by (simp add: load_answered_def)

definition cookies_given :: "string \<Rightarrow> (string \<times> (string \<times> string) list) list \<Rightarrow> (string \<times> string) list" where
  "cookies_given s answers = concat (map snd (filter (\<lambda>x. fst x = s) answers))"

lemma cookies_given_snoc:
  "cookies_given s (answers @ [x]) = cookies_given s answers @ (if fst x = s then snd x else [])"
  by (simp add: cookies_given_def)

text \<open>
  A browser's behaviour, for every session apart: whatever answers came to whichever sessions in whatever
  order, the cookies a request carries are the newest of each name its own session was given.
\<close>

lemma load_cookies_are_the_sessions_own:
  assumes "lf_cookies f" "s \<noteq> []"
  shows "map_of (se_cookies (load_request (foldl load_answered (load_of_flags t p m f) answers) s))
    = map_of (rev (cookies_given s answers))"
proof -
  have "\<exists>j. ld_jar (foldl load_answered (load_of_flags t p m f) answers) = Some j
      \<and> map_of (jar_attach j s) = map_of (rev (cookies_given s answers))"
  proof (induction answers rule: rev_induct)
    case Nil
    show ?case
      using assms(1) by (simp add: load_of_flags_def newSessionJar_def jar_attach_def cookies_given_def)
  next
    case (snoc x answers)
    then obtain j where j: "ld_jar (foldl load_answered (load_of_flags t p m f) answers) = Some j"
      "map_of (jar_attach j s) = map_of (rev (cookies_given s answers))" by blast
    show ?case
    proof (cases "fst x = s")
      case True
      then show ?thesis using j assms(2) by (simp add: load_answered_jar cookies_given_snoc jar_keep_same)
    next
      case False
      then show ?thesis
        using j by (simp add: load_answered_jar cookies_given_snoc jar_keep_other)
    qed
  qed
  then show ?thesis using assms(2) by (auto simp: load_request_def)
qed

end
