(* ===== verification/Demo_Config.thy ===== *)
theory Demo_Config
  imports Go_Format
begin

text \<open>
  \<open>cmd/demo/config.go\<close>: how the demo console edits the configuration file, line by line so that its
  comments survive, and \<open>currentRateLimit\<close> of \<open>main.go\<close>. \<open>scalarLine\<close> is the regular expression of that
  name, its five parts cut as Go's leftmost-first matching cuts them. The lemmas: setting a value and
  setting it back gives the file byte for byte where the new value leaves room before the comment, and
  does not where it does not, although the comment in the code says so for both.
\<close>

definition re_space :: "char \<Rightarrow> bool" where
  "re_space c = (c \<in> {CHR 0x09, CHR 0x0A, CHR 0x0C, CHR 0x0D, CHR '' ''})"

definition key_byte :: "char \<Rightarrow> bool" where
  "key_byte c = (let n = of_char c :: nat in 97 \<le> n \<and> n \<le> 122 \<or> c = CHR ''_'')"

definition trailing_blanks :: "string \<Rightarrow> string" where
  "trailing_blanks t = rev (takeWhile re_space (rev t))"

text \<open>The indentation and key, the value, the gap after it, and the comment.\<close>

definition scalarLine :: "string \<Rightarrow> (string \<times> string \<times> string \<times> string) option" where
  "scalarLine line =
     (let indent = takeWhile re_space line; r1 = dropWhile re_space line;
          name = takeWhile key_byte r1
      in case dropWhile key_byte r1 of
           [] \<Rightarrow> None
         | c # r2 \<Rightarrow>
             if name = [] \<or> c \<noteq> CHR '':'' then None
             else
               (let r3 = dropWhile re_space r2;
                    t = takeWhile (\<lambda>c. c \<noteq> CHR ''#'') r3; gap = trailing_blanks t
                in Some (indent @ name @ CHR '':'' # takeWhile re_space r2,
                         take (length t - length gap) t, gap, dropWhile (\<lambda>c. c \<noteq> CHR ''#'') r3)))"

datatype scalar_error = KeyTwice string | KeyNotFound string | CannotRewrite string

definition names_key :: "string \<Rightarrow> string \<Rightarrow> bool" where
  "names_key key line = prefix (key @ '':'') (trim_space line)"

definition rewrite_scalar :: "string \<times> string \<times> string \<times> string \<Rightarrow> string \<Rightarrow> string" where
  "rewrite_scalar parts v =
     (case parts of (head, old, gap, comment) \<Rightarrow>
        (let rewritten = head @ v
         in if comment = [] then rewritten
            else
              (let column = length head + length old + length gap;
                   padding = int column - int (length rewritten)
               in rewritten @ replicate (nat (if padding < 1 then 1 else padding)) CHR '' '' @ comment)))"

definition newline :: char where "newline = CHR 0x0A"

definition setScalar :: "string \<Rightarrow> string \<Rightarrow> string \<Rightarrow> scalar_error + string" where
  "setScalar content key v =
     (let ls = split_byte newline content
      in case filter (\<lambda>i. names_key key (ls ! i)) [0..<length ls] of
           [] \<Rightarrow> Inl (KeyNotFound key)
         | i # others \<Rightarrow>
             if others \<noteq> [] then Inl (KeyTwice key)
             else (case scalarLine (ls ! i) of
                     None \<Rightarrow> Inl (CannotRewrite (ls ! i))
                   | Some parts \<Rightarrow> Inr (join [newline] (ls[i := rewrite_scalar parts v]))))"

subsection \<open>Weights\<close>

datatype weight_error = NoWeight string | BackendNotFound string

definition line_contains :: "string \<Rightarrow> string \<Rightarrow> bool" where
  "line_contains line t = sublist t line"

fun weight_loop :: "int \<Rightarrow> string list \<Rightarrow> string list option" where
  "weight_loop weight [] = None"
| "weight_loop weight (l # ls) =
     (let trimmed = trim_space l
      in if prefix ''weight:'' trimmed
         then Some ((takeWhile (\<lambda>c. c = CHR '' '') l @ ''weight: '' @ Itoa weight) # ls)
         else if prefix ''- addr:'' trimmed then None
         else map_option ((#) l) (weight_loop weight ls))"

fun backend_loop :: "string \<Rightarrow> int \<Rightarrow> string list \<Rightarrow> weight_error + string list" where
  "backend_loop addr weight [] = Inl (BackendNotFound addr)"
| "backend_loop addr weight (l # ls) =
     (if line_contains l addr \<and> line_contains l ''addr:''
      then (case weight_loop weight ls of None \<Rightarrow> Inl (NoWeight addr) | Some ls' \<Rightarrow> Inr (l # ls'))
      else (case backend_loop addr weight ls of Inl e \<Rightarrow> Inl e | Inr ls' \<Rightarrow> Inr (l # ls')))"

definition setBackendWeight :: "string \<Rightarrow> string \<Rightarrow> int \<Rightarrow> weight_error + string" where
  "setBackendWeight content addr weight =
     (case backend_loop addr weight (split_byte newline content) of
        Inl e \<Rightarrow> Inl e
      | Inr ls \<Rightarrow> Inr (join [newline] ls))"

text \<open>\<open>currentRateLimit\<close>: the first line that names the limit, up to a comment.\<close>

fun rate_limit_loop :: "string list \<Rightarrow> int option" where
  "rate_limit_loop [] = None"
| "rate_limit_loop (l # ls) =
     (let trimmed = trim_space l
      in if \<not> prefix ''rate_limit_per_ip:'' trimmed then rate_limit_loop ls
         else Atoi (trim_space (fst (cut (trim_space (fst (snd (cut trimmed CHR '':'')))) CHR ''#''))))"

definition currentRateLimit :: "string \<Rightarrow> int option" where
  "currentRateLimit content = rate_limit_loop (split_byte newline content)"

subsection \<open>The parts of a line\<close>

lemma trailing_blanks_suffix: "t = take (length t - length (trailing_blanks t)) t @ trailing_blanks t"
proof -
  have "rev t = takeWhile re_space (rev t) @ dropWhile re_space (rev t)" by simp
  then have "t = rev (dropWhile re_space (rev t)) @ trailing_blanks t"
    unfolding trailing_blanks_def by (metis rev_append rev_rev_ident)
  then show ?thesis by (metis append_eq_conv_conj append_take_drop_id length_append diff_add_inverse2)
qed

lemma scalarLine_whole: "scalarLine line = Some (head, old, gap, comment) \<Longrightarrow> line = head @ old @ gap @ comment"
proof -
  assume s: "scalarLine line = Some (head, old, gap, comment)"
  define r1 where "r1 = dropWhile re_space line"
  obtain c r2 where c: "dropWhile key_byte r1 = c # r2" "c = CHR '':''"
    using s by (auto simp: scalarLine_def r1_def Let_def split: list.splits if_splits)
  define r3 where "r3 = dropWhile re_space r2"
  define t where "t = takeWhile (\<lambda>c. c \<noteq> CHR ''#'') r3"
  have parts: "head = takeWhile re_space line @ takeWhile key_byte r1 @ CHR '':'' # takeWhile re_space r2"
    "old = take (length t - length gap) t" "gap = trailing_blanks t" "comment = dropWhile (\<lambda>c. c \<noteq> CHR ''#'') r3"
    using s c by (auto simp: scalarLine_def r1_def r3_def t_def Let_def split: if_splits)
  have "old @ gap = t" using trailing_blanks_suffix [of t] parts by simp
  then have "old @ gap @ comment = r3" unfolding parts(4) t_def by (metis append.assoc takeWhile_dropWhile_id)
  then have "head @ old @ gap @ comment = takeWhile re_space line @ takeWhile key_byte r1 @ (c # takeWhile re_space r2 @ r3)"
    by (simp add: parts(1) c(2))
  also have "\<dots> = line" unfolding r3_def using c(1) by (metis takeWhile_dropWhile_id r1_def)
  finally show ?thesis by simp
qed

text \<open>A head: blanks, a key, a colon, and more blanks.\<close>

definition is_head :: "string \<Rightarrow> string \<Rightarrow> bool" where
  "is_head name head \<longleftrightarrow>
     (\<exists>indent sp. head = indent @ name @ CHR '':'' # sp \<and> list_all re_space indent \<and> list_all re_space sp)
     \<and> name \<noteq> [] \<and> list_all key_byte name"

lemma scalarLine_head:
  "scalarLine line = Some (head, old, gap, comment) \<Longrightarrow> \<exists>name. is_head name head"
  by (auto simp: scalarLine_def is_head_def Let_def list_all_iff dest!: set_takeWhileD
      split: list.splits if_splits intro!: exI)

text \<open>A value that stands alone on its line.\<close>

definition plain :: "string \<Rightarrow> bool" where
  "plain v \<longleftrightarrow> v \<noteq> [] \<and> \<not> re_space (hd v) \<and> \<not> re_space (last v) \<and> CHR ''#'' \<notin> set v \<and> newline \<notin> set v"

lemma key_not_space: "key_byte c \<Longrightarrow> \<not> re_space c" "\<not> key_byte CHR '':''" "\<not> re_space CHR '':''"
  by (auto simp: key_byte_def re_space_def Let_def)

lemma takeWhile_all_then: "list_all P xs \<Longrightarrow> ys = [] \<or> \<not> P (hd ys) \<Longrightarrow> takeWhile P (xs @ ys) = xs \<and> dropWhile P (xs @ ys) = ys"
  by (induction xs) (auto, cases ys, auto, cases ys, auto)

lemma trailing_blanks_of: "list_all re_space gap \<Longrightarrow> v \<noteq> [] \<Longrightarrow> \<not> re_space (last v) \<Longrightarrow> trailing_blanks (v @ gap) = gap"
  using takeWhile_all_then [of re_space "rev gap" "rev v"] by (simp add: trailing_blanks_def hd_rev)

lemma scalarLine_reads:
  assumes "is_head name head" "plain v" "list_all re_space gap" "comment = [] \<or> hd comment = CHR ''#''"
  shows "scalarLine (head @ v @ gap @ comment) = Some (head, v, gap, comment)"
proof -
  obtain indent sp where h: "head = indent @ name @ CHR '':'' # sp" "list_all re_space indent" "list_all re_space sp"
    "name \<noteq> []" "list_all key_byte name"
    using assms(1) by (auto simp: is_head_def)
  have v: "v \<noteq> []" "\<not> re_space (hd v)" "\<not> re_space (last v)" "CHR ''#'' \<notin> set v" using assms(2) by (simp_all add: plain_def)
  have hash: "\<not> re_space CHR ''#''" by (simp add: re_space_def)
  have "\<not> re_space (hd name)" using h(4,5) key_not_space by (cases name) auto
  then have 1: "takeWhile re_space (indent @ name @ CHR '':'' # sp @ v @ gap @ comment) = indent"
    "dropWhile re_space (indent @ name @ CHR '':'' # sp @ v @ gap @ comment) = name @ CHR '':'' # sp @ v @ gap @ comment"
    using takeWhile_all_then [of re_space indent "name @ CHR '':'' # sp @ v @ gap @ comment"] h(2,4) by simp_all
  have 2: "takeWhile key_byte (name @ CHR '':'' # sp @ v @ gap @ comment) = name"
    "dropWhile key_byte (name @ CHR '':'' # sp @ v @ gap @ comment) = CHR '':'' # sp @ v @ gap @ comment"
    using takeWhile_all_then [of key_byte name "CHR '':'' # sp @ v @ gap @ comment"] h(5) key_not_space by simp_all
  have 3: "takeWhile re_space (sp @ v @ gap @ comment) = sp" "dropWhile re_space (sp @ v @ gap @ comment) = v @ gap @ comment"
    using takeWhile_all_then [of re_space sp "v @ gap @ comment"] h(3) v(1,2) by simp_all
  have "list_all (\<lambda>c. c \<noteq> CHR ''#'') (v @ gap)" using v(4) assms(3) hash by (auto simp: list_all_iff)
  then have 4: "takeWhile (\<lambda>c. c \<noteq> CHR ''#'') (v @ gap @ comment) = v @ gap"
    "dropWhile (\<lambda>c. c \<noteq> CHR ''#'') (v @ gap @ comment) = comment"
    using takeWhile_all_then [of "\<lambda>c. c \<noteq> CHR ''#''" "v @ gap" comment] assms(4) by auto
  show ?thesis
    using 1 2 3 4 h(1,4) trailing_blanks_of [OF assms(3) v(1,3)] by (simp add: scalarLine_def Let_def)
qed

subsection \<open>Which line a key names\<close>

lemma colon_not_blank: "p \<in> set go_spaces \<Longrightarrow> CHR '':'' \<notin> set p"
  by (auto simp: go_spaces_def)

lemma trim_right_keeps: "prefix (s @ [CHR '':'']) (trim_right (s @ CHR '':'' # t))"
proof (induction "s @ CHR '':'' # t" arbitrary: t rule: trim_right.induct)
  case 1
  show ?case
  proof (cases "trailing_space (s @ CHR '':'' # t)")
    case None
    then show ?thesis by (subst trim_right.simps) simp
  next
    case (Some p)
    then have p: "p \<in> set go_spaces" "suffix p (s @ CHR '':'' # t)"
      by (auto simp: trailing_space_def dest: find_SomeD)
    have "length p \<le> length t"
    proof (rule ccontr)
      assume "\<not> length p \<le> length t"
      then have "suffix (CHR '':'' # t) p" using p(2) by (auto simp: suffix_def append_eq_append_conv2 Cons_eq_append_conv)
      then show False using colon_not_blank [OF p(1)] by (auto simp: suffix_def)
    qed
    then have "take (length (s @ CHR '':'' # t) - length p) (s @ CHR '':'' # t) = s @ CHR '':'' # take (length t - length p) t"
      by (simp add: Suc_diff_le)
    then show ?thesis
      using 1 Some by (subst trim_right.simps) simp
  qed
qed

lemma spaces_not_key: "p \<in> set go_spaces \<Longrightarrow> \<not> key_byte (hd p)"
proof -
  have "list_all (\<lambda>p. \<not> key_byte (hd p)) go_spaces" by code_simp
  then show "p \<in> set go_spaces \<Longrightarrow> \<not> key_byte (hd p)" by (simp add: list_all_iff)
qed

lemma trim_left_indent:
  "list_all re_space indent \<Longrightarrow> name \<noteq> [] \<Longrightarrow> key_byte (hd name) \<Longrightarrow> trim_left (indent @ name @ r) = name @ r"
proof (induction indent)
  case Nil
  have "\<not> prefix p (name @ r)" if "p \<in> set go_spaces" for p
  proof
    assume "prefix p (name @ r)"
    then have "hd p = hd name" using go_spaces_nonempty [OF that] Nil(2) by (cases p; cases name) auto
    then show False using spaces_not_key [OF that] Nil(3) by simp
  qed
  then have "leading_space (name @ r) = None" by (simp add: leading_space_def find_None_iff)
  then show ?case by (simp add: trim_left_id)
next
  case (Cons c indent)
  have "leading_space (c # indent @ name @ r) = Some [c]"
    using Cons.prems(1) unfolding list.pred_inject re_space_def insert_iff empty_iff
    by (elim conjE disjE; simp add: leading_space_def go_spaces_def)
  then show ?case using Cons by (subst trim_left.simps) simp
qed

lemma names_key_head:
  assumes "is_head name head" "CHR '':'' \<notin> set key"
  shows "names_key key (head @ r) \<longleftrightarrow> key = name"
proof -
  obtain indent sp where h: "head = indent @ name @ CHR '':'' # sp" "list_all re_space indent" "name \<noteq> []" "list_all key_byte name"
    using assms(1) by (auto simp: is_head_def)
  have "trim_left (indent @ name @ CHR '':'' # sp @ r) = name @ CHR '':'' # sp @ r"
    using trim_left_indent [of indent name "CHR '':'' # sp @ r"] h(2-4) by (cases name) simp_all
  then obtain x where x: "trim_space (head @ r) = name @ CHR '':'' # x"
    using trim_right_keeps [of name "sp @ r"] by (auto simp: trim_space_def h(1) prefix_def)
  have name: "CHR '':'' \<notin> set name" using h(4) key_not_space by (auto simp: list_all_iff)
  have key: "key = name" if "name @ CHR '':'' # x = key @ CHR '':'' # z" for z
  proof -
    have "takeWhile (\<lambda>c. c \<noteq> CHR '':'') (n @ CHR '':'' # y) = n" if "CHR '':'' \<notin> set n" for n y
    proof -
      have "list_all (\<lambda>c. c \<noteq> CHR '':'') n" using that by (auto simp: list_all_iff)
      then show ?thesis using takeWhile_all_then [of "\<lambda>c. c \<noteq> CHR '':''" n "CHR '':'' # y"] by simp
    qed
    then show ?thesis using that name assms(2) by metis
  qed
  have "prefix (key @ '':'') (name @ CHR '':'' # x) \<Longrightarrow> key = name"
    by (auto simp: prefix_def intro: key)
  then show ?thesis unfolding names_key_def x by auto
qed

subsection \<open>Setting a value and setting it back\<close>

text \<open>The one line that names the key, with its parts.\<close>

definition scalar_at :: "string \<Rightarrow> string \<Rightarrow> nat \<Rightarrow> string \<times> string \<times> string \<times> string \<Rightarrow> bool" where
  "scalar_at content key i parts \<longleftrightarrow>
     (let ls = split_byte newline content
      in filter (\<lambda>i. names_key key (ls ! i)) [0..<length ls] = [i] \<and> scalarLine (ls ! i) = Some parts)"

lemma setScalar_at:
  "scalar_at content key i parts \<Longrightarrow>
     setScalar content key v = Inr (join [newline] ((split_byte newline content)[i := rewrite_scalar parts v]))"
  by (simp add: scalar_at_def setScalar_def Let_def)

lemma scalar_at_length: "scalar_at content key i parts \<Longrightarrow> i < length (split_byte newline content)"
proof -
  assume "scalar_at content key i parts"
  then have "filter (\<lambda>i. names_key key (split_byte newline content ! i)) [0..<length (split_byte newline content)] = [i]"
    by (simp add: scalar_at_def Let_def)
  then have "i \<in> set (filter (\<lambda>i. names_key key (split_byte newline content ! i)) [0..<length (split_byte newline content)])"
    by simp
  then show ?thesis by simp
qed

text \<open>Replacing the line by one with the same head keeps it the one line that names the key.\<close>

lemma scalar_at_replaced:
  assumes "scalar_at content key i (head, old, gap, comment)" "CHR '':'' \<notin> set key"
    and "scalarLine (head @ r) = Some parts" "newline \<notin> set (head @ r)"
  shows "scalar_at (join [newline] ((split_byte newline content)[i := head @ r])) key i parts"
proof -
  let ?ls = "split_byte newline content"
  have i: "i < length ?ls" using assms(1) by (rule scalar_at_length)
  have line: "scalarLine (?ls ! i) = Some (head, old, gap, comment)"
    and one: "filter (\<lambda>i. names_key key (?ls ! i)) [0..<length ?ls] = [i]"
    using assms(1) by (simp_all add: scalar_at_def Let_def)
  obtain name where name: "is_head name head" using scalarLine_head [OF line] by blast
  have "names_key key (?ls ! i)"
    using arg_cong [OF one, of set] by auto
  then have same: "names_key key (head @ r) \<longleftrightarrow> names_key key (?ls ! i)"
    using scalarLine_whole [OF line] names_key_head [OF name assms(2)] by simp
  have "newline \<notin> set l" if "l \<in> set (?ls[i := head @ r])" for l
    using set_update_subset_insert [of ?ls i "head @ r"] that assms(4) split_byte_no_sep [of l newline content]
    by auto
  then have lines: "split_byte newline (join [newline] (?ls[i := head @ r])) = ?ls[i := head @ r]"
    by (intro split_byte_join) auto
  have "filter (\<lambda>j. names_key key (?ls[i := head @ r] ! j)) [0..<length ?ls]
      = filter (\<lambda>j. names_key key (?ls ! j)) [0..<length ?ls]"
    using same i by (intro filter_cong) (auto simp: nth_list_update)
  then show ?thesis using one assms(3) i by (simp add: scalar_at_def Let_def lines)
qed

text \<open>The new value leaves the comment, if there is one, in its column.\<close>

definition leaves_room :: "string \<times> string \<times> string \<times> string \<Rightarrow> string \<Rightarrow> bool" where
  "leaves_room parts v \<longleftrightarrow>
     (case parts of (head, old, gap, comment) \<Rightarrow>
        if comment = [] then gap = []
        else gap \<noteq> [] \<and> list_all (\<lambda>c. c = CHR '' '') gap \<and> length v < length old + length gap)"

lemma list_all_replicate: "list_all (\<lambda>c. c = x) xs \<Longrightarrow> xs = replicate (length xs) x"
  by (induction xs) auto

lemma comment_hash:
  assumes "scalarLine line = Some (head, old, gap, comment)"
  shows "comment = [] \<or> hd comment = CHR ''#''"
proof -
  obtain r where "comment = dropWhile (\<lambda>c. c \<noteq> CHR ''#'') r"
    using assms by (auto simp: scalarLine_def Let_def split: list.splits if_splits)
  then show ?thesis using hd_dropWhile [of "\<lambda>c. c \<noteq> CHR ''#''" r] by blast
qed

lemma rewrite_gap:
  assumes "leaves_room (head, old, gap, comment) v"
  obtains q where "rewrite_scalar (head, old, gap, comment) v = head @ v @ q @ comment"
    and "list_all re_space q" "newline \<notin> set q"
    and "rewrite_scalar (head, v, q, comment) old = head @ old @ gap @ comment"
proof (cases "comment = []")
  case True
  then show thesis using that [of "[]"] assms by (simp add: rewrite_scalar_def leaves_room_def)
next
  case False
  let ?n = "length old + length gap - length v"
  let ?q = "replicate ?n CHR '' ''"
  have room: "0 < ?n" "gap = replicate (length gap) CHR '' ''" "0 < length gap" "length v < length old + length gap"
    using assms False list_all_replicate [of "CHR '' ''" gap] by (auto simp: leaves_room_def)
  show thesis
  proof (rule that [of ?q])
    show "rewrite_scalar (head, old, gap, comment) v = head @ v @ ?q @ comment"
      using False room by (simp add: rewrite_scalar_def Let_def nat_diff_distrib of_nat_diff)
    show "rewrite_scalar (head, v, ?q, comment) old = head @ old @ gap @ comment"
      using False room(3,4) by (subst (2) room(2)) (simp add: rewrite_scalar_def Let_def)
    show "list_all re_space ?q" by (simp add: list_all_iff re_space_def)
    show "newline \<notin> set ?q" by (simp add: newline_def)
  qed
qed

text \<open>
  Setting a key of the configuration file and setting it back leaves the file byte for byte as it was,
  comments and their columns included, where the new value leaves at least one space before the comment.
\<close>

lemma setScalar_round_trip:
  assumes "scalar_at content key i (head, old, gap, comment)" "CHR '':'' \<notin> set key"
    and "plain old" "plain v" "leaves_room (head, old, gap, comment) v"
    and "setScalar content key v = Inr content'"
  shows "setScalar content' key old = Inr content"
proof -
  let ?ls = "split_byte newline content"
  have line: "scalarLine (?ls ! i) = Some (head, old, gap, comment)" using assms(1) by (simp add: scalar_at_def Let_def)
  have i: "i < length ?ls" using assms(1) by (rule scalar_at_length)
  note whole = scalarLine_whole [OF line]
  obtain name where name: "is_head name head" using scalarLine_head [OF line] by blast
  obtain q where q: "rewrite_scalar (head, old, gap, comment) v = head @ v @ q @ comment" "list_all re_space q"
    "newline \<notin> set q" "rewrite_scalar (head, v, q, comment) old = head @ old @ gap @ comment"
    using assms(5) by (rule rewrite_gap)
  have "newline \<notin> set (?ls ! i)" using i by (intro split_byte_no_sep) (auto simp: in_set_conv_nth)
  then have clean: "newline \<notin> set (head @ v @ q @ comment)"
    using whole q(3) assms(4) by (auto simp: plain_def)
  have content': "content' = join [newline] (?ls[i := head @ v @ q @ comment])"
    using setScalar_at [OF assms(1), of v] assms(6) q(1) by simp
  have "scalarLine (head @ v @ q @ comment) = Some (head, v, q, comment)"
    using name assms(4) q(2) comment_hash [OF line] by (rule scalarLine_reads)
  from scalar_at_replaced [OF assms(1,2) this clean]
  have at: "scalar_at content' key i (head, v, q, comment)" by (simp add: content')
  have "newline \<notin> set l" if "l \<in> set (?ls[i := head @ v @ q @ comment])" for l
    using set_update_subset_insert [of ?ls i "head @ v @ q @ comment"] that clean split_byte_no_sep [of l newline content]
    by auto
  then have "split_byte newline content' = ?ls[i := head @ v @ q @ comment]"
    unfolding content' by (intro split_byte_join) auto
  then have "setScalar content' key old = Inr (join [newline] (?ls[i := ?ls ! i]))"
    using setScalar_at [OF at, of old] q(4) whole by simp
  then show ?thesis by (simp add: join_split_byte)
qed

definition ex_file :: string where
  "ex_file = ''algorithm: ab   # c'' @ newline # ''mode: none''"

lemma ex_file_at: "scalar_at ex_file ''algorithm'' 0 (''algorithm: '', ''ab'', ''   '', ''# c'')"
  by code_simp

lemma setScalar_round_trip_witness:
  "setScalar (''algorithm: abcd # c'' @ newline # ''mode: none'') ''algorithm'' ''ab'' = Inr ex_file"
proof (rule setScalar_round_trip [OF ex_file_at])
  show "setScalar ex_file ''algorithm'' ''abcd'' = Inr (''algorithm: abcd # c'' @ newline # ''mode: none'')" by code_simp
qed (simp_all add: plain_def leaves_room_def re_space_def newline_def)

text \<open>
  A longer value pushes the comment to the right, and setting the old value back leaves it there, although
  the code promises the file byte for byte \<open>whether the new value is longer or shorter\<close>.
\<close>

lemma longer_value_moves_comment:
  "setScalar ''mode: none # c'' ''mode'' ''cookies'' = Inr ''mode: cookies # c''"
  "setScalar ''mode: cookies # c'' ''mode'' ''none'' = Inr ''mode: none    # c''"
  by code_simp+

subsection \<open>Reading the limit back\<close>

definition solid :: "char \<Rightarrow> bool" where
  "solid c \<longleftrightarrow> list_all (\<lambda>p. c \<notin> set p) go_spaces"

lemma fst_cut: "fst (cut s c) = takeWhile (\<lambda>x. x \<noteq> c) s"
  by (auto simp: cut_def intro: takeWhile_eq_all_conv [THEN iffD2, symmetric])

lemma trim_right_solid:
  assumes "solid c"
  shows "\<exists>t'. trim_right (s @ c # t) = s @ c # t' \<and> prefix t' t"
proof -
  have "prefix (s @ [c]) (trim_right (s @ c # t))"
  proof (induction "s @ c # t" arbitrary: t rule: trim_right.induct)
    case 1
    show ?case
    proof (cases "trailing_space (s @ c # t)")
      case None
      then show ?thesis by (subst trim_right.simps) simp
    next
      case (Some p)
      then have p: "p \<in> set go_spaces" "suffix p (s @ c # t)"
        by (auto simp: trailing_space_def dest: find_SomeD)
      have "length p \<le> length t"
      proof (rule ccontr)
        assume "\<not> length p \<le> length t"
        then have "suffix (c # t) p" using p(2) by (auto simp: suffix_def append_eq_append_conv2 Cons_eq_append_conv)
        then show False using assms p(1) by (auto simp: suffix_def solid_def list_all_iff)
      qed
      then have "take (length (s @ c # t) - length p) (s @ c # t) = s @ c # take (length t - length p) t"
        by (simp add: Suc_diff_le)
      then show ?thesis using 1 Some by (subst trim_right.simps) simp
    qed
  qed
  then obtain t' where "trim_right (s @ c # t) = s @ c # t'" by (auto simp: prefix_def)
  then show ?thesis using prefix_trim_right [of "s @ c # t"] by simp
qed

lemma trim_left_solid: "solid c \<Longrightarrow> trim_left (c # t) = c # t"
proof -
  assume c: "solid c"
  have "\<not> prefix p (c # t)" if "p \<in> set go_spaces" for p
    using bspec [OF c [unfolded solid_def list_all_iff] that] go_spaces_nonempty [OF that] by (cases p) auto
  then show ?thesis by (simp add: trim_left_id leading_space_def find_None_iff)
qed

lemma leading_blank: "re_space c \<Longrightarrow> leading_space (c # t) = Some [c]"
  unfolding re_space_def insert_iff empty_iff by (elim disjE; simp add: leading_space_def go_spaces_def)

lemma trailing_blank: "re_space c \<Longrightarrow> trailing_space (t @ [c]) = Some [c]"
  unfolding re_space_def insert_iff empty_iff by (elim disjE; simp add: trailing_space_def go_spaces_def suffix_def)

lemma trim_left_blanks: "list_all re_space sp \<Longrightarrow> trim_left (sp @ t) = trim_left t"
  by (induction sp) (auto simp: leading_blank trim_left.simps)

lemma trim_right_blanks: "list_all re_space g \<Longrightarrow> trim_right (t @ g) = trim_right t"
proof (induction g rule: rev_induct)
  case (snoc c g)
  then have "trailing_space ((t @ g) @ [c]) = Some [c]" by (intro trailing_blank) simp
  then show ?case using snoc by (subst trim_right.simps) simp
qed simp

lemma trim_space_word:
  assumes "list_all re_space sp" "v \<noteq> []" "solid (hd v)" "solid (last v)"
  shows "\<exists>t'. trim_space (sp @ v @ t) = v @ t' \<and> prefix t' t" "list_all re_space g \<Longrightarrow> trim_space (v @ g) = v"
proof -
  have l: "trim_left (v @ t) = v @ t" for t using trim_left_solid [OF assms(3)] assms(2) by (cases v) auto
  have v: "v @ t = butlast v @ last v # t" for t using assms(2) by (simp add: append_butlast_last_id [symmetric] del: append_butlast_last_id)
  then have r: "\<exists>t'. trim_right (v @ t) = v @ t' \<and> prefix t' t" for t
    using trim_right_solid [OF assms(4), of "butlast v" t] by metis
  show "\<exists>t'. trim_space (sp @ v @ t) = v @ t' \<and> prefix t' t"
    using r assms(1) by (simp add: trim_space_def trim_left_blanks l)
  show "trim_space (v @ g) = v" if "list_all re_space g"
    using r [of "[]"] trim_right_blanks [OF that, of v] by (auto simp: trim_space_def l)
qed

lemma takeWhile_prefix: "prefix s t \<Longrightarrow> prefix (takeWhile P s) (takeWhile P t)"
  by (induction s t rule: list_induct2') auto

lemma printable_solid: "33 \<le> (of_char c :: nat) \<Longrightarrow> (of_char c :: nat) \<le> 126 \<Longrightarrow> solid c"
proof -
  have "list_all (list_all (\<lambda>d. (of_char d :: nat) < 33 \<or> 126 < (of_char d :: nat))) go_spaces" by code_simp
  then show "33 \<le> (of_char c :: nat) \<Longrightarrow> (of_char c :: nat) \<le> 126 \<Longrightarrow> solid c"
    unfolding solid_def list_all_iff by fastforce
qed

text \<open>The limit is read as it is written.\<close>

lemma limit_of_line:
  assumes "is_head name head" "v \<noteq> []" "list_all solid v" "CHR ''#'' \<notin> set v" "CHR '':'' \<notin> set v"
    and "list_all re_space gap" "comment = [] \<or> hd comment = CHR ''#''"
  shows "trim_space (fst (cut (trim_space (fst (snd (cut (trim_space (head @ v @ gap @ comment)) CHR '':'')))) CHR ''#'')) = v"
proof -
  obtain indent sp where h: "head = indent @ name @ CHR '':'' # sp" "list_all re_space indent" "list_all re_space sp"
    "name \<noteq> []" "list_all key_byte name"
    using assms(1) by (auto simp: is_head_def)
  have solid: "solid (hd v)" "solid (last v)" using assms(2,3) by (simp_all add: list_all_iff)
  have hn: "solid (hd name)"
  proof -
    have "key_byte (hd name)" using h(4,5) by (simp add: list_all_iff)
    then show ?thesis by (intro printable_solid) (auto simp: key_byte_def Let_def)
  qed
  have "\<exists>t'. trim_space (indent @ (name @ CHR '':'' # sp @ v) @ gap @ comment) = (name @ CHR '':'' # sp @ v) @ t' \<and> prefix t' (gap @ comment)"
    using h(2,4) hn solid(2) assms(2) by (intro trim_space_word(1)) simp_all
  then obtain t' where t': "trim_space (head @ v @ gap @ comment) = name @ CHR '':'' # sp @ v @ t'" "prefix t' (gap @ comment)"
    by (auto simp: h(1))
  have "list_all (\<lambda>c. c \<noteq> CHR '':'') name" using h(5) key_not_space by (auto simp: list_all_iff)
  then have cut: "fst (snd (cut (name @ CHR '':'' # sp @ v @ t') CHR '':'')) = sp @ v @ t'"
    using takeWhile_all_then [of "\<lambda>c. c \<noteq> CHR '':''" name "CHR '':'' # sp @ v @ t'"] by (simp add: cut_def)
  obtain t'' where t'': "trim_space (sp @ v @ t') = v @ t''" "prefix t'' t'"
    using trim_space_word(1) [OF h(3) assms(2) solid, of t'] by blast
  have hash: "list_all (\<lambda>c. c \<noteq> CHR ''#'') v" "list_all (\<lambda>c. c \<noteq> CHR ''#'') gap"
  proof -
    have "\<not> re_space CHR ''#''" by (simp add: re_space_def)
    then show "list_all (\<lambda>c. c \<noteq> CHR ''#'') v" "list_all (\<lambda>c. c \<noteq> CHR ''#'') gap"
      using assms(4,6) unfolding list_all_iff by metis+
  qed
  have "prefix (takeWhile (\<lambda>c. c \<noteq> CHR ''#'') t'') (takeWhile (\<lambda>c. c \<noteq> CHR ''#'') (gap @ comment))"
    using t'(2) t''(2) by (intro takeWhile_prefix) (rule prefix_order.trans)
  moreover have "takeWhile (\<lambda>c. c \<noteq> CHR ''#'') (gap @ comment) = gap"
    using takeWhile_all_then [OF hash(2), of comment] assms(7) by auto
  ultimately have g: "list_all re_space (takeWhile (\<lambda>c. c \<noteq> CHR ''#'') t'')"
    using assms(6) by (auto simp: prefix_def)
  have "takeWhile (\<lambda>c. c \<noteq> CHR ''#'') (v @ t'') = v @ takeWhile (\<lambda>c. c \<noteq> CHR ''#'') t''"
    using hash(1) by (simp add: takeWhile_append list_all_iff)
  then show ?thesis
    unfolding t'(1) cut t''(1) fst_cut using trim_space_word(2) [OF _ assms(2) solid g, of "[]"] by simp
qed

lemma rate_limit_loop_find:
  "rate_limit_loop ls = (case find (names_key ''rate_limit_per_ip'') ls of None \<Rightarrow> None
     | Some l \<Rightarrow> Atoi (trim_space (fst (cut (trim_space (fst (snd (cut (trim_space l) CHR '':'')))) CHR ''#''))))"
  by (induction ls) (simp_all add: names_key_def Let_def)

lemma Itoa_word: "Itoa n \<noteq> []" "list_all solid (Itoa n)" "CHR ''#'' \<notin> set (Itoa n)" "CHR '':'' \<notin> set (Itoa n)"
  "newline \<notin> set (Itoa n)" "list_all (\<lambda>c. \<not> re_space c) (Itoa n)"
proof -
  have d: "is_digit c \<Longrightarrow> solid c \<and> c \<noteq> CHR ''#'' \<and> c \<noteq> CHR '':'' \<and> c \<noteq> newline \<and> \<not> re_space c" for c
    using printable_solid [of c] by (auto simp: is_digit_def newline_def re_space_def Let_def)
  have m: "solid CHR ''-'' \<and> \<not> re_space CHR ''-''" by (simp add: printable_solid re_space_def)
  show "Itoa n \<noteq> []" "list_all solid (Itoa n)" "CHR ''#'' \<notin> set (Itoa n)" "CHR '':'' \<notin> set (Itoa n)"
    "newline \<notin> set (Itoa n)" "list_all (\<lambda>c. \<not> re_space c) (Itoa n)"
    using decimal_digits [of "nat n"] decimal_digits [of "nat (- n)"] d m
    by (auto simp: Itoa_def list_all_iff newline_def)
qed

lemma plain_Itoa: "plain (Itoa n)"
  using Itoa_word [of n] by (simp add: plain_def list_all_iff)

lemma scalarLine_gap: "scalarLine line = Some (head, old, gap, comment) \<Longrightarrow> list_all re_space gap"
  by (auto simp: scalarLine_def trailing_blanks_def Let_def list_all_iff dest!: set_takeWhileD split: list.splits if_splits)

lemma currentRateLimit_at:
  assumes "scalar_at content ''rate_limit_per_ip'' i (head, Itoa n, gap, comment)" "- (2 ^ 63) \<le> n" "n < 2 ^ 63"
  shows "currentRateLimit content = Some n"
proof -
  let ?ls = "split_byte newline content"
  have i: "i < length ?ls" using assms(1) by (rule scalar_at_length)
  have line: "scalarLine (?ls ! i) = Some (head, Itoa n, gap, comment)"
    and one: "filter (\<lambda>i. names_key ''rate_limit_per_ip'' (?ls ! i)) [0..<length ?ls] = [i]"
    using assms(1) by (simp_all add: scalar_at_def Let_def)
  have named: "names_key ''rate_limit_per_ip'' (?ls ! j) \<longleftrightarrow> j = i" if "j < length ?ls" for j
    using arg_cong [OF one, of set] that by auto
  have "find (names_key ''rate_limit_per_ip'') ?ls = Some (?ls ! i)"
    unfolding find_Some_iff using i named by (intro exI [of _ i]) auto
  moreover obtain name where "is_head name head" using scalarLine_head [OF line] by blast
  then have "trim_space (fst (cut (trim_space (fst (snd (cut (trim_space (?ls ! i)) CHR '':'')))) CHR ''#'')) = Itoa n"
    using limit_of_line [of name head "Itoa n" gap comment] Itoa_word scalarLine_gap [OF line] comment_hash [OF line]
      scalarLine_whole [OF line] by simp
  ultimately show ?thesis
    using Atoi_Itoa [OF assms(2,3)] by (simp add: currentRateLimit_def rate_limit_loop_find)
qed

end
