(* ===== verification/Mock_Profile.thy ===== *)
theory Mock_Profile
  imports Go_Format
begin

text \<open>
  \<open>cmd/mockbackend/profile.go\<close> and \<open>parseFlags\<close> of \<open>main.go\<close>: how a mock backend behaves, what its
  validation rejects, the sizes it reads, and the service times it draws. What the \<open>flag\<close> package found
  on the command line, \<open>strconv.ParseFloat\<close>, the generator's numbers and \<open>math.Log\<close> and \<open>math.Exp\<close> are
  arguments. The lemmas: validation reports a problem exactly when the profile is not well-formed; a size
  is read with its unit, and one beyond 64 bits wraps.
\<close>

record profile =
  pf_name :: string
  pf_latency :: duration
  pf_p99 :: duration
  pf_capacity :: int
  pf_queue :: int
  pf_bodySize :: int
  pf_errorRate :: float64
  pf_cacheSize :: int
  pf_missPenalty :: duration
  pf_hangRate :: float64
  pf_resetRate :: float64
  pf_dripRate :: float64
  pf_dripOver :: duration
  pf_coldStart :: duration
  pf_coldFactor :: float64
  pf_pauseEvery :: duration
  pf_pause :: duration

subsection \<open>Validation\<close>

datatype profile_problem =
    NameRequired | LatencyNegative | P99Negative | P99WithoutLatency | P99BelowLatency duration duration
  | CapacityNegative | QueueNegative | QueueWithoutCapacity | BodySizeNegative
  | RateOutOfRange string | RatesTooHigh float64
  | CacheSizeNegative | MissPenaltyNegative | MissPenaltyWithoutCache
  | DripOverNegative | DripOverRequired | ColdStartNegative | ColdFactorTooSmall | ColdStartRequired
  | PauseNegative | PauseEveryTooShort duration duration

definition rate_problem :: "string \<times> float64 \<Rightarrow> profile_problem list" where
  "rate_problem r = (case r of (name, x) \<Rightarrow> add_if (flt x 0 \<or> flt 1 x) (RateOutOfRange name))"

definition profile_rates :: "profile \<Rightarrow> (string \<times> float64) list" where
  "profile_rates p =
     [(''error-rate'', pf_errorRate p), (''hang-rate'', pf_hangRate p), (''reset-rate'', pf_resetRate p),
      (''drip-rate'', pf_dripRate p)]"

definition rate_sum :: "profile \<Rightarrow> float64" where
  "rate_sum p = pf_errorRate p + pf_hangRate p + pf_resetRate p + pf_dripRate p"

definition profile_validate :: "profile \<Rightarrow> profile_problem list" where
  "profile_validate p =
     add_if (pf_name p = []) NameRequired
   @ add_if (pf_latency p < 0) LatencyNegative
   @ add_if (pf_p99 p < 0) P99Negative
   @ add_if (pf_p99 p > 0 \<and> pf_latency p = 0) P99WithoutLatency
   @ add_if (pf_p99 p > 0 \<and> pf_p99 p < pf_latency p) (P99BelowLatency (pf_p99 p) (pf_latency p))
   @ add_if (pf_capacity p < 0) CapacityNegative
   @ add_if (pf_queue p < 0) QueueNegative
   @ add_if (pf_queue p > 0 \<and> pf_capacity p = 0) QueueWithoutCapacity
   @ add_if (pf_bodySize p < 0) BodySizeNegative
   @ concat (map rate_problem (profile_rates p))
   @ add_if (flt 1 (rate_sum p)) (RatesTooHigh (rate_sum p))
   @ add_if (pf_cacheSize p < 0) CacheSizeNegative
   @ add_if (pf_missPenalty p < 0) MissPenaltyNegative
   @ add_if (pf_missPenalty p > 0 \<and> pf_cacheSize p = 0) MissPenaltyWithoutCache
   @ add_if (pf_dripOver p < 0) DripOverNegative
   @ add_if (flt 0 (pf_dripRate p) \<and> pf_dripOver p = 0) DripOverRequired
   @ add_if (pf_coldStart p < 0) ColdStartNegative
   @ add_if (\<not> feq (pf_coldFactor p) 0 \<and> flt (pf_coldFactor p) 1) ColdFactorTooSmall
   @ add_if (flt 1 (pf_coldFactor p) \<and> pf_coldStart p = 0) ColdStartRequired
   @ add_if (pf_pauseEvery p < 0 \<or> pf_pause p < 0) PauseNegative
   @ add_if (pf_pause p > 0 \<and> pf_pauseEvery p \<le> pf_pause p) (PauseEveryTooShort (pf_pauseEvery p) (pf_pause p))"

text \<open>What a profile that passes guarantees; a rate that is no number passes every comparison.\<close>

definition share :: "float64 \<Rightarrow> bool" where
  "share x \<longleftrightarrow> x = NaN \<or> \<not> flt x 0 \<and> \<not> flt 1 x"

definition profile_ok :: "profile \<Rightarrow> bool" where
  "profile_ok p \<longleftrightarrow>
     pf_name p \<noteq> [] \<and> 0 \<le> pf_latency p \<and> 0 \<le> pf_p99 p
   \<and> (0 < pf_p99 p \<longrightarrow> pf_latency p \<noteq> 0) \<and> (0 < pf_p99 p \<longrightarrow> pf_latency p \<le> pf_p99 p)
   \<and> 0 \<le> pf_capacity p \<and> 0 \<le> pf_queue p \<and> (0 < pf_queue p \<longrightarrow> pf_capacity p \<noteq> 0) \<and> 0 \<le> pf_bodySize p
   \<and> share (pf_errorRate p) \<and> share (pf_hangRate p) \<and> share (pf_resetRate p) \<and> share (pf_dripRate p)
   \<and> \<not> flt 1 (rate_sum p)
   \<and> 0 \<le> pf_cacheSize p \<and> 0 \<le> pf_missPenalty p \<and> (0 < pf_missPenalty p \<longrightarrow> pf_cacheSize p \<noteq> 0)
   \<and> 0 \<le> pf_dripOver p \<and> (flt 0 (pf_dripRate p) \<longrightarrow> pf_dripOver p \<noteq> 0)
   \<and> 0 \<le> pf_coldStart p \<and> (\<not> feq (pf_coldFactor p) 0 \<longrightarrow> \<not> flt (pf_coldFactor p) 1)
   \<and> (flt 1 (pf_coldFactor p) \<longrightarrow> pf_coldStart p \<noteq> 0)
   \<and> 0 \<le> pf_pauseEvery p \<and> 0 \<le> pf_pause p \<and> (0 < pf_pause p \<longrightarrow> pf_pause p < pf_pauseEvery p)"

lemma share_alt: "share x \<longleftrightarrow> \<not> flt x 0 \<and> \<not> flt 1 x"
  by (cases x) (auto simp: share_def float64_arith)

lemma profile_validate_ok: "profile_validate p = [] \<longleftrightarrow> profile_ok p"
  unfolding profile_ok_def share_alt
  by (simp only: profile_validate_def rate_problem_def profile_rates_def append_is_Nil_conv add_if_Nil
      list.map concat.simps prod.case append_Nil2 de_Morgan_conj de_Morgan_disj not_less not_le not_not
      imp_conv_disj)
    (rule iffI; elim conjE; intro conjI; assumption)

subsection \<open>Sizes\<close>

definition size_units :: "(string \<times> int) list" where
  "size_units = [(''MiB'', 2 ^ 20), (''KiB'', 2 ^ 10), (''B'', 1)]"

fun size_loop :: "string \<Rightarrow> (string \<times> int) list \<Rightarrow> string \<times> int" where
  "size_loop number [] = (number, 1)"
| "size_loop number ((sfx, scale) # us) =
     (case cut_suffix number sfx of
        Some trimmed \<Rightarrow> (trim_space trimmed, scale)
      | None \<Rightarrow> size_loop number us)"

definition parseSize :: "string \<Rightarrow> int option" where
  "parseSize value =
     (case size_loop (trim_space value) size_units of
        (number, scale) \<Rightarrow>
          (case Atoi number of
             None \<Rightarrow> None
           | Some count \<Rightarrow> if count < 0 then None else Some (wrap64 (count * scale))))"

subsection \<open>Flags\<close>

text \<open>
  A setting is what the command line gives for it, else the environment's, else the default. \<open>given\<close> is
  what \<open>flag.Parse\<close> found.
\<close>

definition upper_byte :: "char \<Rightarrow> char" where
  "upper_byte c = (let n = of_char c :: nat in if 97 \<le> n \<and> n \<le> 122 then char_of (n - 32) else c)"

definition env_name :: "string \<Rightarrow> string" where
  "env_name name = ''MOCK_'' @ map upper_byte (map (\<lambda>c. if c = CHR ''-'' then CHR ''_'' else c) name)"

definition setting :: "(string \<Rightarrow> string) \<Rightarrow> (string \<rightharpoonup> string) \<Rightarrow> string \<times> string \<Rightarrow> string" where
  "setting getenv given nf =
     (case nf of (name, fallback) \<Rightarrow>
        (let value = getenv (env_name name); fallback' = (if value \<noteq> [] then value else fallback)
         in case given name of Some v \<Rightarrow> v | None \<Rightarrow> fallback'))"

datatype flag_problem =
    NotADuration string string | NotAWholeNumber string string | NotANumber string string
  | NotASize string | ProfileProblem profile_problem

record mock_options =
  mo_seed :: nat
  mo_listen :: string
  mo_admin :: string

definition read_with :: "(string \<Rightarrow> 'v option) \<Rightarrow> 'v \<Rightarrow> 'e \<Rightarrow> string \<Rightarrow> 'v \<times> 'e list" where
  "read_with parse zero e value = (case parse value of Some x \<Rightarrow> (x, []) | None \<Rightarrow> (zero, [e]))"

text \<open>\<open>strconv.ParseUint\<close>, base ten.\<close>

definition ParseUint :: "string \<Rightarrow> nat option" where
  "ParseUint s = (if s = [] \<or> \<not> list_all is_digit s \<or> 2 ^ 64 \<le> digits_value s then None else Some (digits_value s))"

definition parseFlags ::
  "(string \<Rightarrow> float64 option) \<Rightarrow> nat \<Rightarrow> (string \<Rightarrow> string) \<Rightarrow> (string \<rightharpoonup> string)
    \<Rightarrow> flag_problem list + profile \<times> mock_options" where
  "parseFlags ParseFloat random getenv given =
     (let get = (\<lambda>name fallback. setting getenv given (name, fallback));
          dur = (\<lambda>name fallback. read_with ParseDuration 0 (NotADuration name (get name fallback)) (get name fallback));
          count = (\<lambda>name fallback. read_with Atoi 0 (NotAWholeNumber name (get name fallback)) (get name fallback));
          num = (\<lambda>name fallback. read_with ParseFloat 0 (NotANumber name (get name fallback)) (get name fallback));
          (latency, e1) = dur ''latency'' ''0s'';
          (p99, e2) = dur ''latency-p99'' ''0s'';
          (capacity, e3) = count ''capacity'' ''0'';
          (queue, e4) = count ''queue'' ''0'';
          (errorRate, e5) = num ''error-rate'' ''0'';
          (cacheSize, e6) = count ''cache-size'' ''0'';
          (missPenalty, e7) = dur ''miss-penalty'' ''0s'';
          (hangRate, e8) = num ''hang-rate'' ''0'';
          (resetRate, e9) = num ''reset-rate'' ''0'';
          (dripRate, e10) = num ''drip-rate'' ''0'';
          (dripOver, e11) = dur ''drip-over'' ''2s'';
          (coldStart, e12) = dur ''cold-start'' ''0s'';
          (coldFactor, e13) = num ''cold-factor'' ''1'';
          (pauseEvery, e14) = dur ''pause-every'' ''0s'';
          (pause, e15) = dur ''pause'' ''0s'';
          (bodySize, e16) = read_with parseSize 0 (NotASize (get ''body-size'' ''0'')) (get ''body-size'' ''0'');
          (chosen, e17) = read_with ParseUint 0 (NotAWholeNumber ''seed'' (get ''seed'' ''0'')) (get ''seed'' ''0'');
          problems = concat [e1, e2, e3, e4, e5, e6, e7, e8, e9, e10, e11, e12, e13, e14, e15, e16, e17];
          p = \<lparr>pf_name = get ''name'' [], pf_latency = latency, pf_p99 = p99, pf_capacity = capacity,
               pf_queue = queue, pf_bodySize = bodySize, pf_errorRate = errorRate, pf_cacheSize = cacheSize,
               pf_missPenalty = missPenalty, pf_hangRate = hangRate, pf_resetRate = resetRate,
               pf_dripRate = dripRate, pf_dripOver = dripOver, pf_coldStart = coldStart,
               pf_coldFactor = coldFactor, pf_pauseEvery = pauseEvery, pf_pause = pause\<rparr>
      in if problems \<noteq> [] then Inl problems
         else if profile_validate p \<noteq> [] then Inl (map ProfileProblem (profile_validate p))
         else Inr (p, \<lparr>mo_seed = (if chosen = 0 then random else chosen),
                      mo_listen = get ''listen'' '':5678'', mo_admin = get ''admin'' []\<rparr>))"

lemma parseFlags_ok: "parseFlags pf random getenv given = Inr (p, opts) \<Longrightarrow> profile_ok p"
  unfolding profile_validate_ok [symmetric]
  by (auto simp: parseFlags_def Let_def split: prod.splits if_splits)

subsection \<open>Service times\<close>

definition z99 :: rat where "z99 = f64 (23263478740408408 / 10 ^ 16)"

record sampler =
  sa_median :: rat
  sa_sigma :: rat

definition newSampler :: "(rat \<Rightarrow> rat) \<Rightarrow> profile \<Rightarrow> sampler" where
  "newSampler lg p =
     \<lparr>sa_median = float_of_int (pf_latency p),
      sa_sigma = (if pf_p99 p > pf_latency p \<and> pf_latency p > 0
                  then f64 (lg (f64 (float_of_int (pf_p99 p) / float_of_int (pf_latency p))) / z99)
                  else 0)\<rparr>"

text \<open>\<open>z\<close> is the generator's next normal number.\<close>

definition sample_latency :: "(rat \<Rightarrow> float64) \<Rightarrow> sampler \<Rightarrow> rat \<Rightarrow> duration" where
  "sample_latency ex s z =
     (if sa_sigma s = 0 then int64_of_rat (sa_median s)
      else int64_of_float (Fin (sa_median s) * ex (f64 (sa_sigma s * z))))"

lemma steady_latency:
  assumes "pf_p99 p = 0" "0 \<le> pf_latency p" "pf_latency p \<le> 2 ^ 53"
  shows "sample_latency ex (newSampler lg p) z = pf_latency p"
  using assms
  by (simp add: sample_latency_def newSampler_def float_of_int_def f64_of_int int64_of_rat_def Let_def)

end
