(* ===== verification/Mock_Faults.thy ===== *)
theory Mock_Faults
  imports Mock_Profile "HOL-Library.AList" "HOL-Library.List_Lexorder" "HOL-Library.Char_ord"
begin

text \<open>
  \<open>cmd/mockbackend/faults.go\<close>, \<open>clock.go\<close> and \<open>parseInjection\<close> of \<open>admin.go\<close>: how a mock backend
  misbehaves. An operation reads the clock once, as its argument \<open>now\<close>. The injected faults are an
  association list, since the admin port lists them. The lemmas: an injected fault takes the place of the
  profile's for its mode until it ends; the modes take consecutive slices of the random draw; a fault
  whose rate is no number, which the admin port accepts, switches the modes after it off; the pauses
  come at the end of every period and a stopped process runs again when they are over.
\<close>

subsection \<open>Faults\<close>

definition modeHang :: string where "modeHang = ''hang''"
definition modeReset :: string where "modeReset = ''reset''"
definition modeDrip :: string where "modeDrip = ''drip''"
definition modeError :: string where "modeError = ''error''"
definition modeSlow :: string where "modeSlow = ''slow''"
definition modeFreeze :: string where "modeFreeze = ''freeze''"

lemmas mode_defs = modeHang_def modeReset_def modeDrip_def modeError_def modeSlow_def modeFreeze_def

definition perRequest :: "string list" where
  "perRequest = [modeHang, modeReset, modeDrip, modeError]"

record fault =
  fa_rate :: float64
  fa_factor :: float64
  fa_over :: duration
  fa_until :: "time option"

definition no_fault :: fault where
  "no_fault = \<lparr>fa_rate = 0, fa_factor = 0, fa_over = 0, fa_until = None\<rparr>"

record faults =
  fs_profile :: "(string \<times> fault) list"
  fs_injected :: "(string \<times> fault) list"

definition newFaults :: "profile \<Rightarrow> faults" where
  "newFaults p =
     \<lparr>fs_profile = filter (\<lambda>(m, ft). flt 0 (fa_rate ft))
        [(modeHang, no_fault\<lparr>fa_rate := pf_hangRate p\<rparr>),
         (modeReset, no_fault\<lparr>fa_rate := pf_resetRate p\<rparr>),
         (modeDrip, no_fault\<lparr>fa_rate := pf_dripRate p, fa_over := pf_dripOver p\<rparr>),
         (modeError, no_fault\<lparr>fa_rate := pf_errorRate p\<rparr>)],
      fs_injected = []\<rparr>"

definition before :: "time \<Rightarrow> time option \<Rightarrow> bool" where
  "before now until = (case until of None \<Rightarrow> False | Some t \<Rightarrow> now < t)"

definition current :: "faults \<Rightarrow> time \<Rightarrow> string \<Rightarrow> fault option \<times> faults" where
  "current f now m =
     (case map_of (fs_injected f) m of
        Some ft \<Rightarrow>
          if before now (fa_until ft) then (Some ft, f)
          else (map_of (fs_profile f) m, f\<lparr>fs_injected := AList.delete m (fs_injected f)\<rparr>)
      | None \<Rightarrow> (map_of (fs_profile f) m, f))"

fun possible_loop :: "faults \<Rightarrow> time \<Rightarrow> string list \<Rightarrow> bool \<times> faults" where
  "possible_loop f now [] = (False, f)"
| "possible_loop f now (m # ms) =
     (case current f now m of
        (Some ft, f') \<Rightarrow> if flt 0 (fa_rate ft) then (True, f') else possible_loop f' now ms
      | (None, f') \<Rightarrow> possible_loop f' now ms)"

definition possible :: "faults \<Rightarrow> time \<Rightarrow> bool \<times> faults" where
  "possible f now = possible_loop f now perRequest"

fun slice_loop :: "faults \<Rightarrow> time \<Rightarrow> rat \<Rightarrow> float64 \<Rightarrow> string list \<Rightarrow> (string \<times> fault) \<times> faults" where
  "slice_loop f now u edge [] = (([], no_fault), f)"
| "slice_loop f now u edge (m # ms) =
     (case current f now m of
        (None, f') \<Rightarrow> slice_loop f' now u edge ms
      | (Some ft, f') \<Rightarrow>
          if fle (fa_rate ft) 0 then slice_loop f' now u edge ms
          else if flt (Fin u) (edge + fa_rate ft) then ((m, ft), f')
          else slice_loop f' now u (edge + fa_rate ft) ms)"

definition faults_choose :: "faults \<Rightarrow> time \<Rightarrow> rat \<Rightarrow> (string \<times> fault) \<times> faults" where
  "faults_choose f now u = slice_loop f now u 0 perRequest"

definition slowdown :: "faults \<Rightarrow> time \<Rightarrow> float64 \<times> faults" where
  "slowdown f now =
     (case current f now modeSlow of
        (Some ft, f') \<Rightarrow> if flt 1 (fa_factor ft) then (fa_factor ft, f') else (1, f')
      | (None, f') \<Rightarrow> (1, f'))"

definition inject :: "faults \<Rightarrow> time \<Rightarrow> string \<Rightarrow> fault \<Rightarrow> duration \<Rightarrow> faults" where
  "inject f now m ft d = f\<lparr>fs_injected := AList.update m (ft\<lparr>fa_until := Some (now + d)\<rparr>) (fs_injected f)\<rparr>"

definition faults_clear :: "faults \<Rightarrow> faults" where
  "faults_clear f = f\<lparr>fs_injected := []\<rparr>"

text \<open>What the admin port lists: mode, rate, factor, and the texts of \<open>over\<close> and of the time left.\<close>

record activeFault =
  af_mode :: string
  af_rate :: float64
  af_factor :: float64
  af_over :: string
  af_remaining :: string

definition left_of :: "time \<Rightarrow> fault \<Rightarrow> duration" where
  "left_of now ft = (case fa_until ft of None \<Rightarrow> min_duration | Some t \<Rightarrow> time_sub t now)"

definition active_entry :: "time \<Rightarrow> string \<times> fault \<Rightarrow> activeFault" where
  "active_entry now x =
     (case x of (m, ft) \<Rightarrow>
        \<lparr>af_mode = m, af_rate = fa_rate ft, af_factor = fa_factor ft,
         af_over = (if fa_over ft > 0 then Duration_String (fa_over ft) else []),
         af_remaining = Duration_String (Duration_Round (left_of now ft) (100 * int millisecond))\<rparr>)"

definition active :: "faults \<Rightarrow> time \<Rightarrow> activeFault list" where
  "active f now =
     sort_key af_mode (map (active_entry now) (filter (\<lambda>(m, ft). \<not> left_of now ft \<le> 0) (fs_injected f)))"

definition profileRates :: "faults \<Rightarrow> (string \<times> float64) list" where
  "profileRates f = map (\<lambda>(m, ft). (m, fa_rate ft)) (fs_profile f)"

subsection \<open>Injecting a fault\<close>

definition defaultFaultDuration :: duration where "defaultFaultDuration = 30 * nanos_per_second"
definition maxFaultDuration :: duration where "maxFaultDuration = 10 * 60 * nanos_per_second"
definition defaultSlowFactor :: float64 where "defaultSlowFactor = Fin 4"
definition defaultDripOver :: duration where "defaultDripOver = 2 * nanos_per_second"

datatype injection_error =
    ForInvalid string | ForTooLong duration | RateInvalid string | OverInvalid string
  | FactorInvalid string | ModeUnknown

text \<open>An optional field of the form, read and checked; without it the default.\<close>

definition form_field ::
  "(string \<Rightarrow> string) \<Rightarrow> string \<Rightarrow> (string \<Rightarrow> 'v option) \<Rightarrow> ('v \<Rightarrow> bool) \<Rightarrow> (string \<Rightarrow> injection_error) \<Rightarrow> 'v
    \<Rightarrow> injection_error + 'v" where
  "form_field form name parse bad e dflt =
     (let raw = form name
      in if raw = [] then Inr dflt
         else case parse raw of None \<Rightarrow> Inl (e raw) | Some v \<Rightarrow> if bad v then Inl (e raw) else Inr v)"

definition strength ::
  "(string \<Rightarrow> float64 option) \<Rightarrow> (string \<Rightarrow> string) \<Rightarrow> string \<Rightarrow> injection_error + fault" where
  "strength ParseFloat form m =
     (if m \<in> set perRequest then
        (case form_field form ''rate'' ParseFloat (\<lambda>r. fle r 0 \<or> flt 1 r) RateInvalid 1 of
           Inl e \<Rightarrow> Inl e
         | Inr rate \<Rightarrow>
             if m = modeDrip then
               (case form_field form ''over'' ParseDuration (\<lambda>d. d \<le> 0) OverInvalid defaultDripOver of
                  Inl e \<Rightarrow> Inl e
                | Inr over \<Rightarrow> Inr (no_fault\<lparr>fa_rate := rate, fa_over := over\<rparr>))
             else Inr (no_fault\<lparr>fa_rate := rate\<rparr>))
      else if m = modeSlow then
        (case form_field form ''factor'' ParseFloat (\<lambda>x. fle x 1) FactorInvalid defaultSlowFactor of
           Inl e \<Rightarrow> Inl e
         | Inr factor \<Rightarrow> Inr (no_fault\<lparr>fa_factor := factor\<rparr>))
      else if m = modeFreeze then Inr no_fault
      else Inl ModeUnknown)"

definition parseInjection ::
  "(string \<Rightarrow> float64 option) \<Rightarrow> (string \<Rightarrow> string) \<Rightarrow> injection_error + string \<times> fault \<times> duration" where
  "parseInjection ParseFloat form =
     (let m = form ''mode''
      in case form_field form ''for'' ParseDuration (\<lambda>d. d \<le> 0) ForInvalid defaultFaultDuration of
           Inl e \<Rightarrow> Inl e
         | Inr lasts \<Rightarrow>
             if lasts > maxFaultDuration then Inl (ForTooLong lasts)
             else (case strength ParseFloat form m of Inl e \<Rightarrow> Inl e | Inr ft \<Rightarrow> Inr (m, ft, lasts)))"

subsection \<open>The clock\<close>

record mock_clock =
  ck_start :: time
  ck_coldStart :: duration
  ck_coldFactor :: float64
  ck_pauseEvery :: duration
  ck_pause :: duration
  ck_phase :: duration
  ck_frozenUntil :: "time option"

definition newClock :: "profile \<Rightarrow> time \<Rightarrow> mock_clock" where
  "newClock p now =
     \<lparr>ck_start = now, ck_coldStart = pf_coldStart p, ck_coldFactor = pf_coldFactor p,
      ck_pauseEvery = pf_pauseEvery p, ck_pause = pf_pause p, ck_phase = 0, ck_frozenUntil = None\<rparr>"

definition clock_factor :: "mock_clock \<Rightarrow> time \<Rightarrow> float64" where
  "clock_factor c now =
     (if fle (ck_coldFactor c) 1 \<or> ck_coldStart c \<le> 0 then 1
      else
        (let elapsed = time_sub now (ck_start c)
         in if elapsed \<ge> ck_coldStart c then 1
            else
              (let left = f64 (1 - f64 (float_of_int elapsed / float_of_int (ck_coldStart c)))
               in 1 + (ck_coldFactor c + Fin (- 1)) * Fin left)))"

definition into_period :: "mock_clock \<Rightarrow> time \<Rightarrow> duration" where
  "into_period c now = go_mod (wrap64 (time_sub now (ck_start c) + ck_phase c)) (ck_pauseEvery c)"

definition pause_left :: "mock_clock \<Rightarrow> time \<Rightarrow> duration" where
  "pause_left c now =
     (if ck_pause c > 0 \<and> ck_pauseEvery c > ck_pause c \<and> into_period c now \<ge> ck_pauseEvery c - ck_pause c
      then ck_pauseEvery c - into_period c now else 0)"

definition freeze_left :: "mock_clock \<Rightarrow> time \<Rightarrow> duration" where
  "freeze_left c now = (case ck_frozenUntil c of None \<Rightarrow> min_duration | Some t \<Rightarrow> time_sub t now)"

definition stall :: "mock_clock \<Rightarrow> time \<Rightarrow> duration" where
  "stall c now =
     (let wait = pause_left c now; frozen = freeze_left c now in if frozen > wait then frozen else wait)"

definition freeze :: "mock_clock \<Rightarrow> time \<Rightarrow> duration \<Rightarrow> mock_clock" where
  "freeze c now d =
     (if (case ck_frozenUntil c of None \<Rightarrow> True | Some t \<Rightarrow> now + d > t)
      then c\<lparr>ck_frozenUntil := Some (now + d)\<rparr> else c)"

definition thaw :: "mock_clock \<Rightarrow> mock_clock" where
  "thaw c = c\<lparr>ck_frozenUntil := None\<rparr>"

text \<open>
  One turn of \<open>wait\<close>, with the time its timer fires if it has set one: whether the client is still there
  once the process runs, or until when it sleeps. The timer was set for what the stop had left at the
  time, and nothing but the client's leaving ends it early.
\<close>

definition wait_turn :: "mock_clock \<Rightarrow> time \<Rightarrow> bool \<Rightarrow> time option \<Rightarrow> bool + time" where
  "wait_turn c now gone timer =
     (let turn = (if stall c now \<le> 0 then Inl (\<not> gone) else if gone then Inl False else Inr (now + stall c now))
      in case timer of
           None \<Rightarrow> turn
         | Some t \<Rightarrow> if gone then Inl False else if now < t then Inr t else turn)"

subsection \<open>The faults in force\<close>

definition in_force :: "faults \<Rightarrow> time \<Rightarrow> string \<Rightarrow> fault option" where
  "in_force f now m = fst (current f now m)"

lemma in_force_alt:
  "in_force f now m =
     (case map_of (fs_injected f) m of
        Some ft \<Rightarrow> if before now (fa_until ft) then Some ft else map_of (fs_profile f) m
      | None \<Rightarrow> map_of (fs_profile f) m)"
  by (simp add: in_force_def current_def split: option.splits)

text \<open>Forgetting a fault that has ended changes nothing from then on.\<close>

lemma in_force_current:
  assumes "now \<le> t"
  shows "in_force (snd (current f now k)) t m = in_force f t m"
  using assms
  by (auto simp: in_force_alt current_def before_def delete_conv' split: option.splits)

lemma in_force_inject:
  "in_force (inject f now m ft d) t m' =
     (if m' = m then if t < now + d then Some (ft\<lparr>fa_until := Some (now + d)\<rparr>) else map_of (fs_profile f) m
      else in_force f t m')"
  by (simp add: in_force_alt inject_def update_conv' before_def split: option.split)

lemma in_force_clear: "in_force (faults_clear f) t m = map_of (fs_profile f) m"
  by (simp add: in_force_alt faults_clear_def)

lemma profile_kept:
  "fs_profile (snd (current f now m)) = fs_profile f" "fs_profile (inject f now m ft d) = fs_profile f"
  "fs_profile (faults_clear f) = fs_profile f"
  by (simp_all add: current_def inject_def faults_clear_def split: option.split)

subsection \<open>The slices of the draw\<close>

fun pick :: "rat \<Rightarrow> float64 \<Rightarrow> (string \<times> fault) list \<Rightarrow> string \<times> fault" where
  "pick u edge [] = ([], no_fault)"
| "pick u edge ((m, ft) # rest) =
     (if flt (Fin u) (edge + fa_rate ft) then (m, ft) else pick u (edge + fa_rate ft) rest)"

definition drawn :: "faults \<Rightarrow> time \<Rightarrow> string list \<Rightarrow> (string \<times> fault) list" where
  "drawn f now ms =
     concat (map (\<lambda>m. case in_force f now m of
                        None \<Rightarrow> []
                      | Some ft \<Rightarrow> if fle (fa_rate ft) 0 then [] else [(m, ft)]) ms)"

lemma drawn_current: "drawn (snd (current f now k)) now ms = drawn f now ms"
  by (simp add: drawn_def in_force_current)

lemma slice_loop_pick: "fst (slice_loop f now u edge ms) = pick u edge (drawn f now ms)"
proof (induction ms arbitrary: f edge)
  case (Cons m ms)
  obtain x f' where c: "current f now m = (x, f')" by fastforce
  then have "in_force f now m = x" "drawn f' now ms = drawn f now ms"
    using drawn_current [of f now m ms] by (simp_all add: in_force_def)
  then show ?case
    using Cons by (cases x) (simp_all add: c drawn_def)
qed (simp add: drawn_def)

lemma possible_loop_drawn:
  "\<forall>m\<in>set ms. case in_force f now m of None \<Rightarrow> True | Some ft \<Rightarrow> fa_rate ft \<noteq> NaN \<Longrightarrow>
     fst (possible_loop f now ms) \<longleftrightarrow> drawn f now ms \<noteq> []"
proof (induction ms arbitrary: f)
  case (Cons m ms)
  obtain x f' where c: "current f now m = (x, f')" by fastforce
  then have x: "in_force f now m = x" and d: "drawn f' now ms = drawn f now ms"
    and i: "in_force f' now m' = in_force f now m'" for m'
    using drawn_current [of f now m ms] in_force_current [of now now f m m'] by (simp_all add: in_force_def)
  have pos: "fle r 0 \<longleftrightarrow> \<not> flt 0 r" if "r \<noteq> NaN" for r
    using that by (cases r) (auto simp: fle_def zero_float64_def)
  show ?case
    using Cons.IH [of f'] Cons.prems x d i pos by (cases x) (auto simp: c drawn_def)
qed (simp add: drawn_def)

text \<open>With finite edges the draw falls into the slice between two consecutive edges.\<close>

fun edges :: "float64 \<Rightarrow> (string \<times> fault) list \<Rightarrow> float64 list" where
  "edges e [] = [e]"
| "edges e ((m, ft) # rest) = e # edges (e + fa_rate ft) rest"

lemma edges_hd: "edges e xs ! 0 = e"
  by (cases xs) auto

lemma pick_slice:
  assumes "\<not> flt (Fin u) e" "i < length xs"
    and "\<And>j. j \<le> i \<Longrightarrow> \<not> flt (Fin u) (edges e xs ! j)" "flt (Fin u) (edges e xs ! Suc i)"
  shows "pick u e xs = xs ! i"
  using assms
proof (induction xs arbitrary: e i)
  case (Cons x xs)
  obtain m ft where x: "x = (m, ft)" by (cases x)
  show ?case
  proof (cases i)
    case 0
    then show ?thesis using Cons.prems(4) x by (simp add: edges_hd)
  next
    case (Suc k)
    have "\<not> flt (Fin u) (e + fa_rate ft)"
      using Cons.prems(3) [of 1] Suc x by (simp add: edges_hd)
    moreover have "\<not> flt (Fin u) (edges (e + fa_rate ft) xs ! j)" if "j \<le> k" for j
      using Cons.prems(3) [of "Suc j"] that Suc x by simp
    ultimately show ?thesis
      using Cons.IH [of "e + fa_rate ft" k] Cons.prems Suc x by simp
  qed
qed simp

text \<open>An edge that is no number ends the choice.\<close>

lemma pick_NaN: "pick u NaN xs = ([], no_fault)"
  by (induction xs) auto

text \<open>
  The admin port accepts a fault whose rate reads as a number that is none: it checks that the rate is
  not at most 0 and not above 1. While such a hang fault lasts, no request suffers any fault of the draw,
  neither the injected ones nor those of the profile.
\<close>

lemma rate_without_value_hides_faults:
  assumes "ParseFloat raw = Some NaN" "raw \<noteq> []"
    and "form ''mode'' = modeHang" "form ''rate'' = raw" "form ''for'' = []"
  shows "\<exists>ft. parseInjection ParseFloat form = Inr (modeHang, ft, defaultFaultDuration)
     \<and> (\<forall>t u. t < now + defaultFaultDuration \<longrightarrow>
          fst (faults_choose (inject f now modeHang ft defaultFaultDuration) t u) = ([], no_fault))"
proof -
  let ?ft = "no_fault\<lparr>fa_rate := NaN\<rparr>"
  have bad: "\<not> fle NaN 0" "\<not> flt 1 NaN" by (simp_all add: fle_def float64_arith)
  have m: "modeHang \<in> set perRequest" "modeHang \<noteq> modeDrip" by (simp_all add: perRequest_def mode_defs)
  have "parseInjection ParseFloat form = Inr (modeHang, ?ft, defaultFaultDuration)"
    using assms m bad
    by (simp add: parseInjection_def strength_def form_field_def Let_def defaultFaultDuration_def maxFaultDuration_def
        nanos_per_second_def)
  moreover have "fst (faults_choose (inject f now modeHang ?ft defaultFaultDuration) t u) = ([], no_fault)"
    if "t < now + defaultFaultDuration" for t u
    unfolding faults_choose_def slice_loop_pick
    using that bad by (simp add: perRequest_def drawn_def in_force_inject pick_NaN)
  ultimately show ?thesis by blast
qed

definition ex_parse :: "string \<Rightarrow> float64 option" where
  "ex_parse s = (if s = ''NaN'' then Some NaN else if s = ''0'' then Some 0 else None)"

definition ex_form :: "string \<Rightarrow> string" where
  "ex_form name = (if name = ''mode'' then ''hang'' else if name = ''rate'' then ''NaN'' else [])"

lemma rate_without_value_hides_faults_witness:
  "\<exists>ft. parseInjection ex_parse ex_form = Inr (modeHang, ft, defaultFaultDuration)"
proof -
  have "ex_parse ''NaN'' = Some NaN" "ex_form ''mode'' = modeHang" "ex_form ''rate'' = ''NaN''" "ex_form ''for'' = []"
    by (simp_all add: ex_parse_def ex_form_def modeHang_def)
  from rate_without_value_hides_faults [of ex_parse "''NaN''" ex_form 0 "\<lparr>fs_profile = [], fs_injected = []\<rparr>", OF this(1) _ this(2,3,4)]
  show ?thesis by blast
qed

subsection \<open>Pauses and freezes\<close>

definition clock_ok :: "mock_clock \<Rightarrow> bool" where
  "clock_ok c \<longleftrightarrow> 0 < ck_pause c \<and> ck_pause c < ck_pauseEvery c \<and> 0 \<le> ck_phase c"

lemma into_period_mod:
  assumes "clock_ok c" "ck_start c \<le> now" "now - ck_start c + ck_phase c \<le> max_duration"
  shows "into_period c now = (now - ck_start c + ck_phase c) mod ck_pauseEvery c"
proof -
  have "time_sub now (ck_start c) = now - ck_start c"
    using assms by (simp add: time_sub_def clock_ok_def min_duration_def)
  then show ?thesis
    using assms by (simp add: into_period_def wrap64_id go_mod_nonneg clock_ok_def max_duration_def)
qed

lemma pause_left_mod:
  assumes "clock_ok c" "ck_start c \<le> now" "now - ck_start c + ck_phase c \<le> max_duration"
  shows "pause_left c now =
     (let r = (now - ck_start c + ck_phase c) mod ck_pauseEvery c
      in if r \<ge> ck_pauseEvery c - ck_pause c then ck_pauseEvery c - r else 0)"
  using assms(1) into_period_mod [OF assms] by (simp add: pause_left_def clock_ok_def Let_def)

lemma pause_left_nonneg:
  assumes "clock_ok c" "ck_start c \<le> now" "now - ck_start c + ck_phase c \<le> max_duration"
  shows "0 \<le> pause_left c now"
proof -
  have "0 < ck_pauseEvery c" using assms(1) by (simp add: clock_ok_def)
  then have "(now - ck_start c + ck_phase c) mod ck_pauseEvery c < ck_pauseEvery c" by (rule pos_mod_bound)
  then show ?thesis using pause_left_mod [OF assms] by (simp add: Let_def)
qed

lemma stall_not_frozen:
  assumes "clock_ok c" "ck_frozenUntil c = None" "ck_start c \<le> now"
    and "now - ck_start c + ck_phase c \<le> max_duration"
  shows "stall c now = pause_left c now"
  using pause_left_nonneg [OF assms(1,3,4)] assms(2)
  by (simp add: stall_def freeze_left_def Let_def min_duration_def)

text \<open>A process that slept through its pause runs.\<close>

lemma runs_after_pause:
  assumes "clock_ok c" "ck_frozenUntil c = None" "ck_start c \<le> now"
    and "now + stall c now - ck_start c + ck_phase c \<le> max_duration" "0 < stall c now"
  shows "stall c (now + stall c now) = 0"
proof -
  let ?n = "now - ck_start c + ck_phase c" and ?e = "ck_pauseEvery c"
  have e: "0 < ?e" "ck_pause c < ?e" using assms(1) by (simp_all add: clock_ok_def)
  have s: "stall c now = ?e - ?n mod ?e"
    using stall_not_frozen [OF assms(1-3)] pause_left_mod [OF assms(1,3)] assms(4,5)
    by (auto simp: Let_def split: if_splits)
  have "(?n + (?e - ?n mod ?e)) mod ?e = (?n + ?e - ?n mod ?e) mod ?e" by (simp add: add_diff_eq)
  also have "\<dots> = 0" by (metis mod_0 mod_add_self2 mod_diff_right_eq diff_self diff_add_eq mod_diff_left_eq)
  finally have "(now + stall c now - ck_start c + ck_phase c) mod ?e = 0"
    unfolding s by (simp add: algebra_simps)
  then show ?thesis
    using stall_not_frozen [OF assms(1,2) _ assms(4)] pause_left_mod [OF assms(1) _ assms(4)] assms(3,5) e
    by (simp add: Let_def)
qed

text \<open>Freezing a process never shortens a stop, and a freeze lasts its time.\<close>

lemma min_duration_time_sub: "min_duration \<le> time_sub t u"
  by (simp add: time_sub_def)

lemma freeze_left_mono: "freeze_left c t \<le> freeze_left (freeze c now d) t"
  by (auto simp: freeze_left_def freeze_def min_duration_time_sub time_sub_mono split: option.split)

lemma freeze_fields:
  "into_period (freeze c now d) t = into_period c t" "ck_pause (freeze c now d) = ck_pause c"
  "ck_pauseEvery (freeze c now d) = ck_pauseEvery c"
  by (simp_all add: freeze_def into_period_def)

lemma freeze_never_shortens: "stall c t \<le> stall (freeze c now d) t"
proof -
  have "pause_left (freeze c now d) t = pause_left c t"
    by (simp add: pause_left_def freeze_fields)
  then show ?thesis using freeze_left_mono [of c t now d] by (simp add: stall_def Let_def)
qed

lemma freeze_lasts: "0 < d \<Longrightarrow> d \<le> max_duration \<Longrightarrow> d \<le> stall (freeze c now d) now"
proof -
  assume d: "0 < d" "d \<le> max_duration"
  have "d \<le> freeze_left (freeze c now d) now"
    using d by (auto simp: freeze_left_def freeze_def time_sub_def split: option.split)
  then show ?thesis by (simp add: stall_def Let_def)
qed

end
