(* ===== verification/Demo_Console.thy ===== *)
theory Demo_Console
  imports Demo_Config Mock_Faults Http
begin

text \<open>
  \<open>cmd/demo\<close>: what the demo console decides, apart from the terminal, Docker and the requests it sends:
  the misbehaviours it offers and how it asks a backend for one (\<open>faults.go\<close>, \<open>misbehave\<close> of \<open>main.go\<close>),
  the book it keeps of them, the names it orders and reads (\<open>actions.go\<close>, \<open>environment.go\<close>), the edits
  behind a change of the algorithm, and the stream of traffic it starts and stops. The lemmas: a fault
  the console asks for is accepted by the backend's admin port, for exactly the time that was asked; the
  prompt lists the faults still in force; at most one stream runs.
\<close>

subsection \<open>Menus\<close>

definition pick_choice :: "string \<Rightarrow> nat \<Rightarrow> nat option" where
  "pick_choice answer count =
     (case Atoi answer of
        None \<Rightarrow> None
      | Some n \<Rightarrow> if n < 1 \<or> n > int count then None else Some (nat (n - 1)))"

definition orDefault :: "string \<Rightarrow> string \<Rightarrow> string" where
  "orDefault answer fallback = (if answer = [] then fallback else answer)"

lemma pick_in_range: "pick_choice answer count = Some i \<Longrightarrow> i < count"
  by (auto simp: pick_choice_def split: option.splits if_splits)

text \<open>\<open>environment.services\<close>: the hosts of the backends' addresses.\<close>

definition services :: "string list \<Rightarrow> string list" where
  "services addrs =
     concat (map (\<lambda>a. case cut a CHR '':'' of (host, _, found) \<Rightarrow> if found then [host] else []) addrs)"

subsection \<open>Faults\<close>

record faultKind =
  fk_mode :: string
  fk_strength :: string
  fk_doing :: string

definition faultKinds :: "faultKind list" where
  "faultKinds =
     [\<lparr>fk_mode = ''hang'', fk_strength = ''rate'', fk_doing = ''hanging''\<rparr>,
      \<lparr>fk_mode = ''slow'', fk_strength = ''factor'', fk_doing = ''slow''\<rparr>,
      \<lparr>fk_mode = ''error'', fk_strength = ''rate'', fk_doing = ''failing''\<rparr>,
      \<lparr>fk_mode = ''reset'', fk_strength = ''rate'', fk_doing = ''dropping''\<rparr>,
      \<lparr>fk_mode = ''drip'', fk_strength = ''rate'', fk_doing = ''dripping''\<rparr>,
      \<lparr>fk_mode = ''freeze'', fk_strength = [], fk_doing = ''frozen''\<rparr>]"

definition console_maxFaultDuration :: duration where
  "console_maxFaultDuration = 10 * 60 * nanos_per_second"

lemma console_mirrors_limit: "console_maxFaultDuration = maxFaultDuration"
  by (simp add: console_maxFaultDuration_def maxFaultDuration_def)

definition adminURL :: "string \<Rightarrow> int \<Rightarrow> string option" where
  "adminURL service firstPort =
     (case cut_prefix service ''backend-'' of
        None \<Rightarrow> None
      | Some number \<Rightarrow>
          (case Atoi number of
             None \<Rightarrow> None
           | Some n \<Rightarrow> if n < 1 then None else Some (''http://127.0.0.1:'' @ Itoa (wrap64 (firstPort + n - 1)))))"

text \<open>The form, by the names of its fields; a field that is not set is empty.\<close>

definition faultForm :: "faultKind \<Rightarrow> string \<Rightarrow> duration \<Rightarrow> string \<Rightarrow> string" where
  "faultForm kind amount lasts =
     (let form = (\<lambda>_. [])(''mode'' := fk_mode kind, ''for'' := Duration_String lasts)
      in if fk_strength kind = ''rate'' then form(''rate'' := amount)
         else if fk_strength kind = ''factor'' then form(''factor'' := amount)
         else form)"

datatype misbehaviour_error = NoBackendsConfigured | NotInList string | NotAFault string | NotALimitedDuration string

text \<open>\<open>answers\<close> are what the operator types, in the order the questions are asked.\<close>

record fault_answers =
  fq_which :: string
  fq_fault :: string
  fq_strength :: string
  fq_lasts :: string

definition misbehave :: "string list \<Rightarrow> fault_answers \<Rightarrow> misbehaviour_error + string \<times> faultKind \<times> string \<times> duration" where
  "misbehave servs a =
     (if servs = [] then Inl NoBackendsConfigured
      else case pick_choice (fq_which a) (length servs) of
        None \<Rightarrow> Inl (NotInList (fq_which a))
      | Some index \<Rightarrow>
          (case pick_choice (fq_fault a) (length faultKinds) of
             None \<Rightarrow> Inl (NotAFault (fq_fault a))
           | Some choice \<Rightarrow>
               (let kind = faultKinds ! choice;
                    amount = (if fk_strength kind = ''rate'' then orDefault (fq_strength a) ''1''
                              else if fk_strength kind = ''factor'' then orDefault (fq_strength a) ''4'' else []);
                    answer = orDefault (fq_lasts a) ''30s''
                in case ParseDuration answer of
                     None \<Rightarrow> Inl (NotALimitedDuration answer)
                   | Some lasts \<Rightarrow>
                       if lasts \<le> 0 \<or> lasts > console_maxFaultDuration then Inl (NotALimitedDuration answer)
                       else Inr (servs ! index, kind, amount, lasts))))"

text \<open>A strength the admin port reads as one.\<close>

definition strength_ok :: "(string \<Rightarrow> float64 option) \<Rightarrow> faultKind \<Rightarrow> string \<Rightarrow> bool" where
  "strength_ok ParseFloat kind s \<longleftrightarrow>
     (fk_strength kind = ''rate'' \<longrightarrow> (\<exists>x. ParseFloat s = Some x \<and> \<not> fle x 0 \<and> \<not> flt 1 x))
     \<and> (fk_strength kind = ''factor'' \<longrightarrow> (\<exists>x. ParseFloat s = Some x \<and> \<not> fle x 1))"

lemma faultForm_fields:
  "faultForm kind s lasts ''mode'' = fk_mode kind" "faultForm kind s lasts ''for'' = Duration_String lasts"
  "fk_strength kind = ''rate'' \<Longrightarrow> faultForm kind s lasts ''rate'' = s"
  "fk_strength kind = ''factor'' \<Longrightarrow> faultForm kind s lasts ''factor'' = s"
  "faultForm kind s lasts ''over'' = []"
  by (simp_all add: faultForm_def Let_def)

lemma kind_strength:
  assumes "kind \<in> set faultKinds" "strength_ok ParseFloat kind s" "s \<noteq> [] \<or> fk_strength kind = []"
  shows "\<exists>ft. strength ParseFloat (faultForm kind s lasts) (fk_mode kind) = Inr ft"
proof -
  have "fk_strength kind = ''rate'' \<and> fk_mode kind \<in> set perRequest
      \<or> fk_strength kind = ''factor'' \<and> fk_mode kind = modeSlow \<or> fk_strength kind = [] \<and> fk_mode kind = modeFreeze"
    using assms(1) by (auto simp: faultKinds_def perRequest_def mode_defs)
  then consider (rate) "fk_strength kind = ''rate''" "fk_mode kind \<in> set perRequest"
    | (factor) "fk_strength kind = ''factor''" "fk_mode kind = modeSlow"
    | (freeze) "fk_strength kind = []" "fk_mode kind = modeFreeze" by blast
  then show ?thesis
  proof cases
    case rate
    obtain x where "ParseFloat s = Some x" "\<not> fle x 0" "\<not> flt 1 x" using assms(2) rate by (auto simp: strength_ok_def)
    then show ?thesis
      using rate assms(3) by (auto simp: strength_def form_field_def faultForm_fields Let_def)
  next
    case factor
    obtain x where "ParseFloat s = Some x" "\<not> fle x 1" using assms(2) factor by (auto simp: strength_ok_def)
    moreover have "modeSlow \<notin> set perRequest" by (simp add: perRequest_def mode_defs)
    ultimately show ?thesis
      using factor assms(3) by (auto simp: strength_def form_field_def faultForm_fields Let_def)
  next
    case freeze
    moreover have "modeFreeze \<notin> set perRequest" "modeFreeze \<noteq> modeSlow" by (simp_all add: perRequest_def mode_defs)
    ultimately show ?thesis by (simp add: strength_def)
  qed
qed

lemma Duration_String_nonempty: "min_duration \<le> d \<Longrightarrow> d \<le> max_duration \<Longrightarrow> Duration_String d \<noteq> []"
  using Duration_String_reads_back [of d] by (auto simp: ParseDuration_def)

lemma misbehave_answer:
  assumes "misbehave servs a = Inr (service, kind, s, lasts)"
  shows "service \<in> set servs" "kind \<in> set faultKinds" "s \<noteq> [] \<or> fk_strength kind = []" "0 < lasts" "lasts \<le> maxFaultDuration"
proof -
  obtain i j where i: "pick_choice (fq_which a) (length servs) = Some i" "service = servs ! i"
    and j: "pick_choice (fq_fault a) (length faultKinds) = Some j" "kind = faultKinds ! j"
    and lasts: "0 < lasts" "lasts \<le> console_maxFaultDuration"
    and s: "s = (if fk_strength kind = ''rate'' then orDefault (fq_strength a) ''1''
              else if fk_strength kind = ''factor'' then orDefault (fq_strength a) ''4'' else [])"
    using assms by (auto simp: misbehave_def Let_def split: if_splits option.splits)
  show "service \<in> set servs" using pick_in_range [OF i(1)] i(2) by simp
  show kind: "kind \<in> set faultKinds" using pick_in_range [OF j(1)] j(2) by simp
  show "0 < lasts" "lasts \<le> maxFaultDuration" using lasts console_mirrors_limit by simp_all
  have "fk_strength kind \<in> {''rate'', ''factor'', []}" using kind by (auto simp: faultKinds_def)
  then show "s \<noteq> [] \<or> fk_strength kind = []" by (auto simp: s orDefault_def)
qed

text \<open>
  Every fault the console sends is one the backend's admin port accepts, in the mode that was chosen
  and for exactly as long as was typed, to the nanosecond: the console writes the time as a duration and
  the backend reads it back, and both have the same limit. The strength that was typed must be a share,
  or a factor above 1.
\<close>

lemma console_fault_is_injected:
  assumes "misbehave servs a = Inr (service, kind, s, lasts)" "strength_ok ParseFloat kind s"
  shows "\<exists>ft. parseInjection ParseFloat (faultForm kind s lasts) = Inr (fk_mode kind, ft, lasts)"
proof -
  note m = misbehave_answer [OF assms(1)]
  obtain ft where ft: "strength ParseFloat (faultForm kind s lasts) (fk_mode kind) = Inr ft"
    using kind_strength [OF m(2) assms(2) m(3)] by blast
  have range: "min_duration \<le> lasts" "lasts \<le> max_duration"
    using m(4,5) by (simp_all add: min_duration_def max_duration_def maxFaultDuration_def nanos_per_second_def)
  show ?thesis
    using ft m(4,5) Duration_String_reads_back [OF range] Duration_String_nonempty [OF range]
    by (simp add: parseInjection_def form_field_def faultForm_fields Let_def)
qed

definition ex_answers :: fault_answers where
  "ex_answers = \<lparr>fq_which = ''1'', fq_fault = ''6'', fq_strength = [], fq_lasts = Duration_String 90000000000\<rparr>"

lemma ex_misbehave: "misbehave [''backend-1''] ex_answers = Inr (''backend-1'', faultKinds ! 5, [], 90000000000)"
proof -
  have picks: "pick_choice ''1'' (length [''backend-1'']) = Some 0" "pick_choice ''6'' (length faultKinds) = Some 5"
    by code_simp+
  have range: "min_duration \<le> 90000000000" "90000000000 \<le> max_duration"
    by (simp_all add: min_duration_def max_duration_def)
  note reads = Duration_String_reads_back [OF range] Duration_String_nonempty [OF range]
  have "fk_strength (faultKinds ! 5) = []" by (simp add: faultKinds_def)
  then show ?thesis
    using picks reads
    by (simp add: misbehave_def ex_answers_def orDefault_def console_maxFaultDuration_def nanos_per_second_def)
qed

lemma console_fault_is_injected_witness:
  "\<exists>ft. parseInjection (\<lambda>_. None) (faultForm (faultKinds ! 5) [] 90000000000)
     = Inr (''freeze'', ft, 90000000000)"
proof -
  have "fk_mode (faultKinds ! 5) = ''freeze''" "strength_ok (\<lambda>_. None) (faultKinds ! 5) []"
    by (simp_all add: faultKinds_def strength_ok_def)
  then show ?thesis using console_fault_is_injected [OF ex_misbehave, of "\<lambda>_. None"] by simp
qed

subsection \<open>The book of faults\<close>

type_synonym faultBook = "(string \<times> time) list"

definition book_add :: "faultBook \<Rightarrow> time \<Rightarrow> string \<Rightarrow> string \<Rightarrow> duration \<Rightarrow> faultBook" where
  "book_add b now service doing lasts = AList.update (service @ '' '' @ doing) (now + lasts) b"

definition book_clear :: "faultBook \<Rightarrow> faultBook" where
  "book_clear b = []"

definition book_summary :: "faultBook \<Rightarrow> time \<Rightarrow> string \<times> faultBook" where
  "book_summary b now =
     (let b' = filter (\<lambda>(what, until). time_sub until now > 0) b;
          running = map (\<lambda>(what, until). (what, Duration_Round (time_sub until now) (int second))) b'
      in (join '', '' (map (\<lambda>(what, d). what @ '' '' @ Duration_String d) (sort_key snd running)), b'))"

definition book_any :: "faultBook \<Rightarrow> time \<Rightarrow> bool \<times> faultBook" where
  "book_any b now = (case book_summary b now of (s, b') \<Rightarrow> (s \<noteq> [], b'))"

lemma join_nonempty: "ss \<noteq> [] \<Longrightarrow> (\<And>s. s \<in> set ss \<Longrightarrow> s \<noteq> []) \<Longrightarrow> join sep ss \<noteq> []"
  by (induction sep ss rule: join.induct) auto

text \<open>The console believes a fault to be in force exactly while one it started has not ended.\<close>

lemma book_any_running: "fst (book_any b now) \<longleftrightarrow> (\<exists>(what, until)\<in>set b. until > now)"
proof -
  define b' where "b' = filter (\<lambda>(what, until). time_sub until now > 0) b"
  have pos: "time_sub until now > 0 \<longleftrightarrow> until > now" for until
    by (auto simp: time_sub_def min_duration_def max_duration_def)
  have "fst (book_any b now) \<longleftrightarrow> b' \<noteq> []"
  proof (cases "b' = []")
    case True
    then show ?thesis by (simp add: book_any_def book_summary_def b'_def [symmetric] Let_def)
  next
    case False
    let ?r = "sort_key snd (map (\<lambda>(what, until). (what, Duration_Round (time_sub until now) (int second))) b')"
    have "join '', '' (map (\<lambda>(what, d). what @ '' '' @ Duration_String d) ?r) \<noteq> []"
    proof (rule join_nonempty)
      have "set ?r \<noteq> {}" using False by simp
      then show "map (\<lambda>(what, d). what @ '' '' @ Duration_String d) ?r \<noteq> []" by (metis list.map_disc_iff set_empty)
      show "t \<noteq> []" if "t \<in> set (map (\<lambda>(what, d). what @ '' '' @ Duration_String d) ?r)" for t
        using that by (auto simp del: set_sort)
    qed
    then show ?thesis using False by (simp add: book_any_def book_summary_def b'_def [symmetric] Let_def)
  qed
  also have "\<dots> \<longleftrightarrow> (\<exists>(what, until)\<in>set b. until > now)"
    by (auto simp: b'_def filter_empty_conv pos)
  finally show ?thesis .
qed

subsection \<open>Names and answers\<close>

definition splitTrailingNumber :: "string \<Rightarrow> string \<times> int" where
  "splitTrailingNumber name =
     (let digits = rev (takeWhile is_digit (rev name))
      in case Atoi digits of
           None \<Rightarrow> (name, - 1)
         | Some n \<Rightarrow> (take (length name - length digits) name, n))"

definition naturalLess :: "string \<Rightarrow> string \<Rightarrow> bool" where
  "naturalLess a b =
     (case (splitTrailingNumber a, splitTrailingNumber b) of
        ((pa, na), (pb, nb)) \<Rightarrow> if pa \<noteq> pb then pa < pb else na < nb)"

definition backendOf :: "header \<Rightarrow> string \<Rightarrow> string" where
  "backendOf hdr body =
     (let name = header_get hdr ''X-Backend''
      in if name \<noteq> [] then name else trim_space (fst (cut body CHR 0x0A)))"

text \<open>Unlike the load generator's, the console's order of names is transitive.\<close>

lemma naturalLess_trans: "naturalLess a b \<Longrightarrow> naturalLess b c \<Longrightarrow> naturalLess a c"
  by (auto simp: naturalLess_def split: prod.splits if_splits)

lemma naturalLess_irrefl: "\<not> naturalLess a a"
  by (auto simp: naturalLess_def split: prod.splits)

text \<open>What \<open>measure\<close> counts: an exchange is an error, or a status, the headers and the body.\<close>

type_synonym exchange_result = "(int \<times> header \<times> string) option"

definition count_exchange ::
  "(string \<Rightarrow> int) \<times> (int \<Rightarrow> int) \<Rightarrow> exchange_result \<Rightarrow> (string \<Rightarrow> int) \<times> (int \<Rightarrow> int)" where
  "count_exchange c r =
     (case c of (bodies, statuses) \<Rightarrow>
        (case r of
           None \<Rightarrow> (bodies, statuses(0 := statuses 0 + 1))
         | Some (status, hdr, body) \<Rightarrow>
             (bodies(backendOf hdr body := bodies (backendOf hdr body) + 1), statuses(status := statuses status + 1))))"

definition measure_counts :: "exchange_result list \<Rightarrow> (string \<Rightarrow> int) \<times> (int \<Rightarrow> int)" where
  "measure_counts rs = foldl count_exchange (\<lambda>_. 0, \<lambda>_. 0) rs"

lemma measure_counts_snoc: "measure_counts (rs @ [r]) = count_exchange (measure_counts rs) r"
  by (simp add: measure_counts_def)

text \<open>The statuses account for every request.\<close>

definition status_of :: "exchange_result \<Rightarrow> int" where
  "status_of r = (case r of None \<Rightarrow> 0 | Some x \<Rightarrow> fst x)"

lemma snd_count_exchange: "snd (count_exchange c r) s = snd c s + (if status_of r = s then 1 else 0)"
  by (auto simp: count_exchange_def status_of_def split: prod.splits option.splits)

lemma measure_statuses:
  "snd (measure_counts rs) s = int (length (filter (\<lambda>r. status_of r = s) rs))"
proof (induction rs rule: rev_induct)
  case (snoc r rs)
  then show ?case by (simp add: measure_counts_snoc snd_count_exchange)
qed (simp add: measure_counts_def)

subsection \<open>Changing the configuration\<close>

datatype edit_error = ScalarEdit scalar_error | WeightEdit weight_error | NoAlgorithm string | NoBackendToWeigh

type_synonym edit = "string \<Rightarrow> edit_error + string"

definition scalar_edit :: "string \<Rightarrow> string \<Rightarrow> edit" where
  "scalar_edit key v content = (case setScalar content key v of Inl e \<Rightarrow> Inl (ScalarEdit e) | Inr c \<Rightarrow> Inr c)"

definition weight_edit :: "string \<Rightarrow> int \<Rightarrow> edit" where
  "weight_edit addr weight content =
     (case setBackendWeight content addr weight of Inl e \<Rightarrow> Inl (WeightEdit e) | Inr c \<Rightarrow> Inr c)"

text \<open>\<open>applyConfig\<close>: every edit in turn; the file is written, once, only if all of them succeed.\<close>

fun apply_edits :: "edit list \<Rightarrow> edit" where
  "apply_edits [] content = Inr content"
| "apply_edits (e # es) content = (case e content of Inl err \<Rightarrow> Inl err | Inr c \<Rightarrow> apply_edits es c)"

definition changeAlgorithm :: "string \<Rightarrow> string list \<Rightarrow> edit_error + edit list" where
  "changeAlgorithm choice addrs =
     (if choice = ''1'' then Inr [scalar_edit ''algorithm'' ''round_robin'']
      else if choice = ''2'' then Inr [scalar_edit ''algorithm'' ''least_connections'']
      else if choice = ''4'' then Inr [scalar_edit ''algorithm'' ''consistent_hash'']
      else if choice = ''3'' then
        (case addrs of
           [] \<Rightarrow> Inl NoBackendToWeigh
         | a # _ \<Rightarrow> Inr [scalar_edit ''algorithm'' ''weighted_round_robin'', weight_edit a 5])
      else Inl (NoAlgorithm choice))"

definition setSticky :: "string \<Rightarrow> edit list" where
  "setSticky mode = [scalar_edit ''mode'' mode]"

definition setRateLimit :: "int \<Rightarrow> edit list" where
  "setRateLimit requests = [scalar_edit ''rate_limit_per_ip'' (Itoa requests)]"

definition toggled :: "string \<Rightarrow> string" where
  "toggled sticky = (if sticky = ''cookie'' then ''none'' else ''cookie'')"

subsection \<open>The stream of traffic\<close>

text \<open>The stream's stop channel, if it runs, and the senders that were started and have not returned.\<close>

record traffic =
  tr_stop :: "nat option"
  tr_senders :: "nat list"
  tr_fresh :: nat

definition traffic_running :: "traffic \<Rightarrow> bool" where
  "traffic_running t = (tr_stop t \<noteq> None)"

definition traffic_start :: "traffic \<Rightarrow> traffic" where
  "traffic_start t =
     (if tr_stop t \<noteq> None then t
      else t\<lparr>tr_stop := Some (tr_fresh t), tr_senders := tr_fresh t # tr_senders t, tr_fresh := tr_fresh t + 1\<rparr>)"

text \<open>\<open>halt\<close> waits for the sender it stops to return.\<close>

definition traffic_halt :: "traffic \<Rightarrow> bool \<times> traffic" where
  "traffic_halt t =
     (case tr_stop t of
        None \<Rightarrow> (False, t)
      | Some c \<Rightarrow> (True, t\<lparr>tr_stop := None, tr_senders := removeAll c (tr_senders t)\<rparr>))"

definition toggleTraffic :: "traffic \<Rightarrow> traffic" where
  "toggleTraffic t = (case traffic_halt t of (True, t') \<Rightarrow> t' | (False, t') \<Rightarrow> traffic_start t')"

definition traffic_ok :: "traffic \<Rightarrow> bool" where
  "traffic_ok t \<longleftrightarrow> tr_senders t = (case tr_stop t of None \<Rightarrow> [] | Some c \<Rightarrow> [c])"

lemma traffic_ok_kept [wf_intros]:
  "traffic_ok t \<Longrightarrow> traffic_ok (traffic_start t)" "traffic_ok t \<Longrightarrow> traffic_ok (snd (traffic_halt t))"
  by (auto simp: traffic_ok_def traffic_start_def traffic_halt_def split: option.splits)

lemma toggle_twice:
  "traffic_ok t \<Longrightarrow> traffic_running (toggleTraffic t) \<longleftrightarrow> \<not> traffic_running t"
  by (auto simp: toggleTraffic_def traffic_halt_def traffic_start_def traffic_running_def traffic_ok_def split: option.splits)

end
