(* ===== verification/Mock_Cache.thy ===== *)
theory Mock_Cache
  imports Go_Prelude
begin

text \<open>
  \<open>cmd/mockbackend/cache.go\<close>: the sessions a mock backend remembers. The code keeps a linked list, the
  most recently seen session first, and a map from sessions to the list's elements; here the elements
  carry an identity, so that the map holds references as in the code. What the server relies on is the
  locale \<open>session_memory\<close>: a memory is a list of sessions, and seeing one moves it to the front of the
  list, which is then cut to the capacity. The lemmas: the list and the map implement that, and whatever
  was seen before, exactly the sessions among the last \<open>capacity\<close> different ones are remembered.
\<close>

subsection \<open>The cache\<close>

type_synonym element = "nat \<times> string"

record cache =
  ca_capacity :: int
  ca_order :: "element list"
  ca_entries :: "string \<rightharpoonup> nat"
  ca_fresh :: nat

definition newCache :: "int \<Rightarrow> cache" where
  "newCache capacity = \<lparr>ca_capacity = capacity, ca_order = [], ca_entries = Map.empty, ca_fresh = 0\<rparr>"

definition MoveToFront :: "nat \<Rightarrow> element list \<Rightarrow> element list" where
  "MoveToFront e xs =
     (case find (\<lambda>x. fst x = e) xs of None \<Rightarrow> xs | Some x \<Rightarrow> x # filter (\<lambda>y. fst y \<noteq> e) xs)"

definition seen :: "cache \<Rightarrow> string \<Rightarrow> bool \<times> cache" where
  "seen c key =
     (case ca_entries c key of
        Some e \<Rightarrow> (True, c\<lparr>ca_order := MoveToFront e (ca_order c)\<rparr>)
      | None \<Rightarrow>
          (let e = ca_fresh c;
               c1 = c\<lparr>ca_order := (e, key) # ca_order c, ca_entries := (ca_entries c)(key \<mapsto> e), ca_fresh := e + 1\<rparr>
           in if int (length (ca_order c1)) > ca_capacity c1
              then (let oldest = last (ca_order c1)
                    in (False, c1\<lparr>ca_order := filter (\<lambda>x. fst x \<noteq> fst oldest) (ca_order c1),
                                 ca_entries := (ca_entries c1)(snd oldest := None)\<rparr>))
              else (False, c1)))"

definition cache_size :: "cache \<Rightarrow> nat" where
  "cache_size c = length (ca_order c)"

definition cache_clear :: "cache \<Rightarrow> cache" where
  "cache_clear c = c\<lparr>ca_order := [], ca_entries := Map.empty\<rparr>"

subsection \<open>What the server relies on\<close>

definition touch :: "nat \<Rightarrow> string \<Rightarrow> string list \<Rightarrow> string list" where
  "touch n key ks = take n (key # filter (\<lambda>k. k \<noteq> key) ks)"

locale session_memory =
  fixes remembered :: "'m \<Rightarrow> string list"
    and see :: "'m \<Rightarrow> string \<Rightarrow> bool \<times> 'm"
    and ok :: "'m \<Rightarrow> bool"
    and room_for :: "'m \<Rightarrow> nat"
  assumes ok_distinct: "ok m \<Longrightarrow> distinct (remembered m)"
    and ok_room: "ok m \<Longrightarrow> length (remembered m) \<le> room_for m"
    and see_known: "ok m \<Longrightarrow> fst (see m k) \<longleftrightarrow> k \<in> set (remembered m)"
    and see_remembered: "ok m \<Longrightarrow> remembered (snd (see m k)) = touch (room_for m) k (remembered m)"
    and see_ok: "ok m \<Longrightarrow> ok (snd (see m k))"
    and see_room: "room_for (snd (see m k)) = room_for m"
begin

text \<open>The memory after a sequence of sessions, and the different sessions of it, latest first.\<close>

definition see_all :: "'m \<Rightarrow> string list \<Rightarrow> 'm" where
  "see_all m ks = foldl (\<lambda>m k. snd (see m k)) m ks"

lemma see_all_snoc: "see_all m (ks @ [k]) = snd (see (see_all m ks) k)"
  by (simp add: see_all_def)

lemma see_all_ok: "ok m \<Longrightarrow> ok (see_all m ks) \<and> room_for (see_all m ks) = room_for m"
  by (induction ks rule: rev_induct) (simp_all add: see_all_snoc see_ok see_room, simp add: see_all_def)

lemma take_touch:
  assumes "distinct ks"
  shows "take n (key # filter (\<lambda>k. k \<noteq> key) (take n ks)) = take n (key # filter (\<lambda>k. k \<noteq> key) ks)"
proof (cases n)
  case (Suc m)
  have "take m (filter (\<lambda>k. k \<noteq> key) (take (Suc m) ks)) = take m (filter (\<lambda>k. k \<noteq> key) ks)"
    using assms
  proof (induction ks arbitrary: m)
    case (Cons k ks)
    show ?case
    proof (cases "k = key")
      case True
      then have "filter (\<lambda>k. k \<noteq> key) ks = ks" "filter (\<lambda>k. k \<noteq> key) (take m ks) = take m ks"
        using Cons.prems by (auto simp: filter_id_conv dest: in_set_takeD)
      then show ?thesis using True by simp
    next
      case False
      then show ?thesis using Cons by (cases m) simp_all
    qed
  qed simp
  then show ?thesis using Suc by simp
qed simp

lemma remdups_snoc: "remdups (ks @ [k]) = filter (\<lambda>x. x \<noteq> k) (remdups ks) @ [k]"
  by (induction ks) auto

lemma see_all_latest:
  assumes "ok m" "remembered m = []"
  shows "remembered (see_all m ks) = take (room_for m) (rev (remdups ks))"
proof (induction ks rule: rev_induct)
  case Nil
  then show ?case using assms by (simp add: see_all_def)
next
  case (snoc k ks)
  have "remembered (see_all m (ks @ [k])) = touch (room_for m) k (take (room_for m) (rev (remdups ks)))"
    using see_all_ok [OF assms(1), of ks] by (simp add: see_all_snoc see_remembered snoc)
  also have "\<dots> = take (room_for m) (k # filter (\<lambda>x. x \<noteq> k) (rev (remdups ks)))"
    unfolding touch_def by (rule take_touch) simp
  finally show ?case by (simp add: remdups_snoc rev_filter)
qed

lemma see_latest:
  assumes "ok m" "remembered m = []"
  shows "fst (see (see_all m ks) k) \<longleftrightarrow> k \<in> set (take (room_for m) (rev (remdups ks)))"
  using see_all_ok [OF assms(1), of ks] see_all_latest [OF assms, of ks] by (simp add: see_known)

end

subsection \<open>The list and the map\<close>

definition sessions_of :: "cache \<Rightarrow> string list" where
  "sessions_of c = map snd (ca_order c)"

definition cache_ok :: "cache \<Rightarrow> bool" where
  "cache_ok c \<longleftrightarrow>
     distinct (map fst (ca_order c)) \<and> distinct (map snd (ca_order c))
     \<and> (\<forall>k e. ca_entries c k = Some e \<longleftrightarrow> (e, k) \<in> set (ca_order c))
     \<and> (\<forall>e\<in>fst ` set (ca_order c). e < ca_fresh c)
     \<and> length (ca_order c) \<le> nat (ca_capacity c)"

lemma find_element:
  "distinct (map fst xs) \<Longrightarrow> (e, k) \<in> set xs \<Longrightarrow> find (\<lambda>x. fst x = e) xs = Some (e, k)"
  by (induction xs) (auto simp: image_iff split: if_splits)

lemma filter_fst_snd:
  "distinct (map fst xs) \<Longrightarrow> distinct (map snd xs) \<Longrightarrow> (e, k) \<in> set xs \<Longrightarrow>
     map snd (filter (\<lambda>x. fst x \<noteq> e) xs) = filter (\<lambda>x. x \<noteq> k) (map snd xs)"
proof (induction xs)
  case (Cons x xs)
  show ?case
  proof (cases "x = (e, k)")
    case True
    have "filter (\<lambda>x. fst x \<noteq> e) xs = xs" "filter (\<lambda>y. y \<noteq> k) (map snd xs) = map snd xs"
      using Cons.prems True by (auto simp: filter_id_conv)
    then show ?thesis using True by simp
  next
    case False
    then have "(e, k) \<in> set xs" using Cons.prems(3) by auto
    then have "e \<in> fst ` set xs" "k \<in> snd ` set xs" by force+
    then have "fst x \<noteq> e" "snd x \<noteq> k" using Cons.prems(1,2) by auto
    then show ?thesis using Cons False by auto
  qed
qed simp

lemma entry_of_session: "cache_ok c \<Longrightarrow> k \<in> set (sessions_of c) \<longleftrightarrow> ca_entries c k \<noteq> None"
  by (force simp: cache_ok_def sessions_of_def image_iff)

lemma cache_known: "cache_ok c \<Longrightarrow> fst (seen c k) \<longleftrightarrow> k \<in> set (sessions_of c)"
  unfolding entry_of_session by (simp add: seen_def Let_def split: option.split)

lemma filter_last:
  "distinct (map fst xs) \<Longrightarrow> xs \<noteq> [] \<Longrightarrow> filter (\<lambda>x. fst x \<noteq> fst (last xs)) xs = butlast xs"
proof (induction xs rule: rev_induct)
  case (snoc x xs)
  have "fst x \<notin> fst ` set xs" using snoc.prems(1) by simp
  then have "filter (\<lambda>y. fst y \<noteq> fst x) xs = xs" by (intro filter_True) (metis image_eqI)
  then show ?case by simp
qed simp

lemma seen_hit:
  assumes "cache_ok c" "ca_entries c k = Some e"
  shows "snd (seen c k) = c\<lparr>ca_order := (e, k) # filter (\<lambda>y. fst y \<noteq> e) (ca_order c)\<rparr>"
    and "map snd (filter (\<lambda>y. fst y \<noteq> e) (ca_order c)) = filter (\<lambda>x. x \<noteq> k) (sessions_of c)"
proof -
  have m: "(e, k) \<in> set (ca_order c)" using assms by (simp add: cache_ok_def)
  show "snd (seen c k) = c\<lparr>ca_order := (e, k) # filter (\<lambda>y. fst y \<noteq> e) (ca_order c)\<rparr>"
    unfolding seen_def assms(2) using find_element [OF _ m] assms(1) by (simp add: MoveToFront_def cache_ok_def)
  show "map snd (filter (\<lambda>y. fst y \<noteq> e) (ca_order c)) = filter (\<lambda>x. x \<noteq> k) (sessions_of c)"
    using assms m by (simp add: filter_fst_snd cache_ok_def sessions_of_def)
qed

lemma seen_miss:
  assumes "cache_ok c" "ca_entries c k = None"
  shows "fst (seen c k) = False"
    and "ca_order (snd (seen c k)) = (if nat (ca_capacity c) = length (ca_order c)
           then butlast ((ca_fresh c, k) # ca_order c) else (ca_fresh c, k) # ca_order c)"
    and "ca_entries (snd (seen c k)) = (if nat (ca_capacity c) = length (ca_order c)
           then (ca_entries c)(k \<mapsto> ca_fresh c, snd (last ((ca_fresh c, k) # ca_order c)) := None)
           else (ca_entries c)(k \<mapsto> ca_fresh c))"
    and "ca_fresh (snd (seen c k)) = ca_fresh c + 1" "ca_capacity (snd (seen c k)) = ca_capacity c"
proof -
  have full: "int (length ((ca_fresh c, k) # ca_order c)) > ca_capacity c \<longleftrightarrow> nat (ca_capacity c) = length (ca_order c)"
    using assms(1) by (auto simp: cache_ok_def)
  have "distinct (map fst ((ca_fresh c, k) # ca_order c))" using assms(1) by (auto simp: cache_ok_def)
  note cut = filter_last [OF this list.distinct(2)]
  show "fst (seen c k) = False" using assms by (simp add: seen_def Let_def)
  show "ca_order (snd (seen c k)) = (if nat (ca_capacity c) = length (ca_order c)
           then butlast ((ca_fresh c, k) # ca_order c) else (ca_fresh c, k) # ca_order c)"
    using assms(2) full cut by (simp add: seen_def Let_def del: filter.simps butlast.simps last.simps)
  show "ca_entries (snd (seen c k)) = (if nat (ca_capacity c) = length (ca_order c)
           then (ca_entries c)(k \<mapsto> ca_fresh c, snd (last ((ca_fresh c, k) # ca_order c)) := None)
           else (ca_entries c)(k \<mapsto> ca_fresh c))"
    using assms(2) full by (simp add: seen_def Let_def del: last.simps)
  show "ca_fresh (snd (seen c k)) = ca_fresh c + 1" "ca_capacity (snd (seen c k)) = ca_capacity c"
    using assms(2) by (simp_all add: seen_def Let_def)
qed

text \<open>The invariant, on the list and the map alone.\<close>

definition linked :: "element list \<Rightarrow> (string \<rightharpoonup> nat) \<Rightarrow> nat \<Rightarrow> bool" where
  "linked xs m n \<longleftrightarrow>
     distinct (map fst xs) \<and> distinct (map snd xs) \<and> (\<forall>k e. m k = Some e \<longleftrightarrow> (e, k) \<in> set xs)
     \<and> (\<forall>e\<in>fst ` set xs. e < n)"

lemma cache_ok_linked:
  "cache_ok c \<longleftrightarrow> linked (ca_order c) (ca_entries c) (ca_fresh c) \<and> length (ca_order c) \<le> nat (ca_capacity c)"
  by (auto simp: cache_ok_def linked_def)

lemma linked_push: "linked xs m n \<Longrightarrow> m k = None \<Longrightarrow> linked ((n, k) # xs) (m(k \<mapsto> n)) (n + 1)"
  by (force simp: linked_def)

lemma linked_pop:
  assumes "linked (xs @ [(e, k)]) m n"
  shows "linked xs (m(k := None)) n"
  using assms by (force simp: linked_def)

lemma linked_front:
  assumes "linked xs m n" "m k = Some e"
  shows "linked ((e, k) # filter (\<lambda>y. fst y \<noteq> e) xs) m n"
proof -
  have mem: "(e, k) \<in> set xs" and d: "distinct (map fst xs)" "distinct (map snd xs)"
    using assms by (auto simp: linked_def)
  have k: "(e', k') \<in> set xs \<Longrightarrow> e' = e \<longleftrightarrow> k' = k" for e' k'
    using mem d by (metis eq_key_imp_eq_value map_of_is_SomeI assms linked_def option.inject)
  have "distinct (map fst (filter (\<lambda>y. fst y \<noteq> e) xs))" "distinct (map snd (filter (\<lambda>y. fst y \<noteq> e) xs))"
    using d by (simp_all add: distinct_map_filter)
  then show ?thesis
    using assms mem k by (auto simp: linked_def)
qed

lemma cache_ok_seen: "cache_ok c \<Longrightarrow> cache_ok (snd (seen c k))"
proof (cases "ca_entries c k")
  case None
  assume ok: "cache_ok c"
  have l: "linked ((ca_fresh c, k) # ca_order c) ((ca_entries c)(k \<mapsto> ca_fresh c)) (ca_fresh c + 1)"
    using ok None by (intro linked_push) (simp_all add: cache_ok_linked)
  obtain ys e k' where ys: "(ca_fresh c, k) # ca_order c = ys @ [(e, k')]"
    by (metis list.distinct(1) rev_exhaust surj_pair)
  have popped: "linked ys ((ca_entries c)(k \<mapsto> ca_fresh c, k' := None)) (ca_fresh c + 1)"
    using l unfolding ys by (rule linked_pop)
  have ends: "butlast ((ca_fresh c, k) # ca_order c) = ys" "last ((ca_fresh c, k) # ca_order c) = (e, k')"
    by (simp_all only: ys) simp_all
  have len: "length ys = length (ca_order c)" using arg_cong [OF ys, of length] by simp
  show ?thesis
  proof (cases "nat (ca_capacity c) = length (ca_order c)")
    case True
    then show ?thesis
      unfolding cache_ok_linked seen_miss [OF ok None] ends by (simp add: popped [simplified] len)
  next
    case False
    then show ?thesis
      using l ok unfolding cache_ok_linked seen_miss [OF ok None] by (simp add: cache_ok_linked)
  qed
next
  case (Some e)
  assume ok: "cache_ok c"
  have "length (filter (\<lambda>y. fst y \<noteq> e) (ca_order c)) < length (ca_order c)"
    using ok Some by (intro length_filter_less [of "(e, k)"]) (auto simp: cache_ok_def)
  then show ?thesis
    using ok linked_front [of "ca_order c" "ca_entries c" "ca_fresh c" k e] Some
    by (auto simp: seen_hit [OF ok Some] cache_ok_linked)
qed

lemma cache_capacity_seen: "ca_capacity (snd (seen c k)) = ca_capacity c"
  by (simp add: seen_def Let_def split: option.splits)

lemma sessions_seen:
  assumes "cache_ok c"
  shows "sessions_of (snd (seen c k)) = touch (nat (ca_capacity c)) k (sessions_of c)"
proof (cases "ca_entries c k")
  case None
  then have "k \<notin> set (sessions_of c)" using cache_known [OF assms, of k] seen_miss(1) [OF assms] by simp
  then have "filter (\<lambda>x. x \<noteq> k) (sessions_of c) = sessions_of c" by (auto simp: filter_id_conv)
  moreover have "length (sessions_of c) \<le> nat (ca_capacity c)" "length (sessions_of c) = length (ca_order c)"
    using assms by (simp_all add: sessions_of_def cache_ok_def)
  moreover have "sessions_of (snd (seen c k)) = (if nat (ca_capacity c) = length (ca_order c)
      then butlast (k # sessions_of c) else k # sessions_of c)"
    by (simp add: sessions_of_def seen_miss [OF assms None] map_butlast)
  ultimately show ?thesis by (auto simp: touch_def butlast_conv_take)
next
  case (Some e)
  have "k \<in> set (sessions_of c)"
    using cache_known [OF assms, of k] Some by (simp add: seen_def)
  then have "length (filter (\<lambda>x. x \<noteq> k) (sessions_of c)) < nat (ca_capacity c)"
    using assms length_filter_less [of k "sessions_of c" "\<lambda>x. x \<noteq> k"] by (simp add: cache_ok_def sessions_of_def)
  then show ?thesis
    using seen_hit [OF assms Some] by (simp add: sessions_of_def touch_def)
qed

lemma cache_ok_sessions:
  "cache_ok c \<Longrightarrow> distinct (sessions_of c)" "cache_ok c \<Longrightarrow> length (sessions_of c) \<le> nat (ca_capacity c)"
  by (simp_all add: sessions_of_def cache_ok_def)

interpretation lru: session_memory sessions_of seen cache_ok "\<lambda>c. nat (ca_capacity c)"
  by unfold_locales
    (simp_all add: cache_known sessions_seen cache_ok_seen cache_capacity_seen cache_ok_sessions)

lemma cache_ok_new: "cache_ok (newCache n)"
  by (simp add: cache_ok_def newCache_def)

lemma cache_ok_clear: "cache_ok c \<Longrightarrow> cache_ok (cache_clear c)"
  by (simp add: cache_ok_def cache_clear_def)

lemma cache_size_bound: "cache_ok c \<Longrightarrow> cache_size c \<le> nat (ca_capacity c)"
  by (simp add: cache_ok_def cache_size_def)

definition seen_all :: "cache \<Rightarrow> string list \<Rightarrow> cache" where
  "seen_all c ks = foldl (\<lambda>c k. snd (seen c k)) c ks"

text \<open>
  C20: A mock backend with room for \<open>n\<close> sessions remembers a session exactly when it is one of the last
  \<open>n\<close> different ones it has seen, whatever the requests were before: a request costs the miss penalty
  when at least \<open>n\<close> other sessions have come since its session's last request, and only then.
\<close>

lemma cache_remembers_latest:
  "fst (seen (seen_all (newCache n) history) key)
     = (key \<in> set (take (nat n) (rev (remdups history))))"
  using lru.see_latest [OF cache_ok_new [of n], of history key]
  by (simp add: seen_all_def lru.see_all_def newCache_def sessions_of_def)

end
