(* ===== verification/Mock_Server.thy ===== *)
theory Mock_Server
  imports Mock_Faults Mock_Cache Http
begin

text \<open>
  \<open>cmd/mockbackend/server.go\<close>, the counters of \<open>metrics.go\<close> and the operations of \<open>admin.go\<close>: the mock
  backend's server. A request is a process whose pieces run from one wait to the next: for the clock, for
  a worker, for the client's body, for the service time, for a hang to end, between the pieces of a
  dripped answer. A wait for a time keeps the time it ends at, one for the client's body goes on until the
  piece is told that the body has ended. What the waits end with (whether the client is gone, whether the
  body is there, the generator's numbers) is an argument of the piece. \<open>mock_step\<close> interleaves the pieces of any number of requests with the admin
  port's operations and the passing of time. The lemmas: the counters are exact however the requests
  interleave, so no more requests are served or queued than the profile says, and every request is
  counted under exactly one outcome; a dripped answer is the whole answer.
\<close>

subsection \<open>State\<close>

definition outcomeAnswered :: string where "outcomeAnswered = ''answered''"
definition outcomeOverloaded :: string where "outcomeOverloaded = ''overloaded''"
definition outcomeAbandoned :: string where "outcomeAbandoned = ''abandoned''"

definition outcomes :: "string list" where
  "outcomes = [outcomeAnswered, modeHang, modeReset, modeDrip, modeError, outcomeOverloaded, outcomeAbandoned]"

definition modes :: "string list" where
  "modes = [modeHang, modeReset, modeDrip, modeError, modeSlow, modeFreeze]"

lemmas outcome_defs = outcomeAnswered_def outcomeOverloaded_def outcomeAbandoned_def

record counts =
  ct_outcomes :: "string \<Rightarrow> int"
  ct_cache :: "string \<Rightarrow> int"
  ct_injected :: "string \<Rightarrow> int"

definition newCounts :: counts where
  "newCounts = \<lparr>ct_outcomes = (\<lambda>_. 0), ct_cache = (\<lambda>_. 0), ct_injected = (\<lambda>_. 0)\<rparr>"

definition bump :: "string \<Rightarrow> (string \<Rightarrow> int) \<Rightarrow> string \<Rightarrow> int" where
  "bump k c = c(k := c k + 1)"

record server =
  ms_profile :: profile
  ms_sampler :: sampler
  ms_faults :: faults
  ms_clock :: mock_clock
  ms_cache :: "cache option"
  ms_counts :: counts
  ms_slots :: int
  ms_busy :: int
  ms_waiting :: int
  ms_stopping :: bool
  ms_body :: string
  ms_now :: time

definition pattern :: string where "pattern = ''0123456789abcdefghijklmnopqrstuvwxyz''"

definition newline :: string where "newline = [CHR 0x0A]"

definition bodyFor :: "string \<Rightarrow> int \<Rightarrow> string" where
  "bodyFor name sz =
     (let head = name @ newline
      in if sz \<le> int (length head) then head
         else (let n = nat sz;
                   body = head @ map (\<lambda>i. pattern ! (i mod length pattern)) [0..<n - length head]
               in body[n - 1 := CHR 0x0A]))"

text \<open>\<open>u\<close> is the generator's draw for the phase of the pauses.\<close>

definition newServer :: "(rat \<Rightarrow> rat) \<Rightarrow> profile \<Rightarrow> rat \<Rightarrow> time \<Rightarrow> server" where
  "newServer lg p u now =
     (let clock = newClock p now
      in \<lparr>ms_profile = p, ms_sampler = newSampler lg p, ms_faults = newFaults p,
          ms_clock = (if pf_pauseEvery p > 0
                      then clock\<lparr>ck_phase := int64_of_rat (f64 (u * float_of_int (pf_pauseEvery p)))\<rparr> else clock),
          ms_cache = (if pf_cacheSize p > 0 then Some (newCache (pf_cacheSize p)) else None),
          ms_counts = newCounts, ms_slots = 0, ms_busy = 0, ms_waiting = 0, ms_stopping = False,
          ms_body = bodyFor (pf_name p) (pf_bodySize p), ms_now = now\<rparr>)"

definition stop :: "server \<Rightarrow> server" where
  "stop s = s\<lparr>ms_stopping := True\<rparr>"

subsection \<open>Requests\<close>

text \<open>
  What the client gets: an answer with its status, the first part of one whose full length was announced,
  a dropped connection, or nothing it is still there for.
\<close>

datatype reply = Reply int string | Part string | Dropped | NoReply

datatype mock_process =
    Arrived "time option"
  | Overflowing
  | Queued
  | Reading
  | Hanging
  | Working string fault "time option"
  | Answering string fault "time option"
  | Dripping duration string "string list"
  | Pausing duration string "string list" "time option"
  | Done string reply

definition count_outcome :: "server \<Rightarrow> string \<Rightarrow> server" where
  "count_outcome s o' = s\<lparr>ms_counts := (ms_counts s)\<lparr>ct_outcomes := bump o' (ct_outcomes (ms_counts s))\<rparr>\<rparr>"

text \<open>The deferred calls of \<open>serve\<close>, for a request with a worker and for one without.\<close>

definition leave :: "server \<Rightarrow> string \<Rightarrow> reply \<Rightarrow> server \<times> mock_process" where
  "leave s result r =
     (let s1 = s\<lparr>ms_slots := (if pf_capacity (ms_profile s) > 0 then ms_slots s - 1 else ms_slots s),
                 ms_busy := ms_busy s - 1\<rparr>
      in (count_outcome s1 result, Done result r))"

definition turn_away :: "server \<Rightarrow> string \<Rightarrow> reply \<Rightarrow> server \<times> mock_process" where
  "turn_away s result r = (count_outcome s result, Done result r)"

subsection \<open>The pieces of a request\<close>

definition admitted :: "server \<Rightarrow> server \<times> mock_process" where
  "admitted s =
     (s\<lparr>ms_slots := (if pf_capacity (ms_profile s) > 0 then ms_slots s + 1 else ms_slots s),
        ms_busy := ms_busy s + 1\<rparr>, Reading)"

definition server_admit :: "server \<Rightarrow> server \<times> mock_process" where
  "server_admit s =
     (let cap = pf_capacity (ms_profile s)
      in if \<not> cap > 0 then admitted s
         else if ms_slots s < cap then admitted s
         else (let s1 = s\<lparr>ms_waiting := ms_waiting s + 1\<rparr>
               in if ms_waiting s1 > pf_queue (ms_profile s) then (s1, Overflowing) else (s1, Queued)))"

definition take_in :: "server \<Rightarrow> bool \<Rightarrow> time option \<Rightarrow> server \<times> mock_process" where
  "take_in s gone timer =
     (case wait_turn (ms_clock s) (ms_now s) gone timer of
        Inr t \<Rightarrow> (s, Arrived (Some t))
      | Inl False \<Rightarrow> turn_away s outcomeAbandoned NoReply
      | Inl True \<Rightarrow> server_admit s)"

definition overflow :: "server \<Rightarrow> bool \<Rightarrow> server \<times> mock_process" where
  "overflow s gone =
     (let s1 = s\<lparr>ms_waiting := ms_waiting s - 1\<rparr>
      in if gone then turn_away s1 outcomeAbandoned NoReply
         else turn_away s1 outcomeOverloaded (Reply 503 (''overloaded'' @ newline)))"

definition get_worker :: "server \<Rightarrow> bool \<Rightarrow> server \<times> mock_process" where
  "get_worker s gone =
     (let s1 = s\<lparr>ms_waiting := ms_waiting s - 1\<rparr>
      in if gone then turn_away s1 outcomeAbandoned NoReply
         else if ms_slots s < pf_capacity (ms_profile s) then admitted s1
         else (s, Queued))"

definition server_choose :: "server \<Rightarrow> rat \<Rightarrow> (string \<times> fault) \<times> server" where
  "server_choose s u =
     (case possible (ms_faults s) (ms_now s) of
        (False, f) \<Rightarrow> (([], no_fault), s\<lparr>ms_faults := f\<rparr>)
      | (True, f) \<Rightarrow>
          (case faults_choose f (ms_now s) u of (c, f') \<Rightarrow> (c, s\<lparr>ms_faults := f'\<rparr>)))"

definition serviceTime :: "(rat \<Rightarrow> float64) \<Rightarrow> server \<Rightarrow> rat \<Rightarrow> string \<Rightarrow> duration \<times> string \<times> server" where
  "serviceTime ex s z key =
     (case slowdown (ms_faults s) (ms_now s) of
        (slow, f) \<Rightarrow>
          (let took = Fin (float_of_int (sample_latency ex (ms_sampler s) z)) * clock_factor (ms_clock s) (ms_now s) * slow;
               s1 = s\<lparr>ms_faults := f\<rparr>
           in case (if key \<noteq> [] then ms_cache s1 else None) of
                None \<Rightarrow> (int64_of_float took, [], s1)
              | Some c \<Rightarrow>
                  (case seen c key of
                     (hit, c') \<Rightarrow>
                       (let result = (if hit then ''hit'' else ''miss'');
                            took' = (if hit then took else took + Fin (float_of_int (pf_missPenalty (ms_profile s1))));
                            s2 = s1\<lparr>ms_cache := Some c',
                                    ms_counts := (ms_counts s1)\<lparr>ct_cache := bump result (ct_cache (ms_counts s1))\<rparr>\<rparr>
                        in (int64_of_float took', result, s2)))))"

text \<open>
  \<open>sleep\<close>: the timer it sets, if there is something to wait for, and what it comes back with: whether the
  client was there, or that it goes on waiting. When the timer and the client's leaving are both there,
  \<open>select\<close> may take either, so a piece may then be told that the client is not gone.
\<close>

definition sleep_timer :: "server \<Rightarrow> duration \<Rightarrow> time option" where
  "sleep_timer s d = (if d \<le> 0 then None else Some (ms_now s + d))"

definition sleep_turn :: "server \<Rightarrow> bool \<Rightarrow> time option \<Rightarrow> bool + time" where
  "sleep_turn s gone timer =
     (case timer of
        None \<Rightarrow> Inl (\<not> gone)
      | Some t \<Rightarrow> if gone then Inl False else if ms_now s < t then Inr t else Inl True)"

text \<open>
  Once the body has ended, or can no longer be read: the request hangs, or its service time begins. Until
  then it waits, for as long as its client does.
\<close>

definition begin_work ::
  "(rat \<Rightarrow> float64) \<Rightarrow> server \<Rightarrow> bool \<Rightarrow> rat \<Rightarrow> rat \<Rightarrow> string \<Rightarrow> server \<times> mock_process" where
  "begin_work ex s arrived u z key =
     (if \<not> arrived then (s, Reading)
      else case server_choose s u of
        ((m, ft), s1) \<Rightarrow>
          if m = modeHang then (s1, Hanging)
          else (case serviceTime ex s1 z key of (d, x, s2) \<Rightarrow> (s2, Working m ft (sleep_timer s2 d))))"

definition end_hang :: "server \<Rightarrow> bool \<Rightarrow> server \<times> mock_process" where
  "end_hang s gone =
     (if gone then leave s modeHang NoReply
      else if ms_stopping s then leave s modeHang Dropped
      else (s, Hanging))"

definition end_work :: "server \<Rightarrow> string \<Rightarrow> fault \<Rightarrow> bool \<Rightarrow> time option \<Rightarrow> server \<times> mock_process" where
  "end_work s m ft gone timer =
     (case sleep_turn s gone timer of
        Inr t \<Rightarrow> (s, Working m ft (Some t))
      | Inl False \<Rightarrow> leave s outcomeAbandoned NoReply
      | Inl True \<Rightarrow> (s, Answering m ft None))"

definition dripPieces :: int where "dripPieces = 10"

function drip_from :: "nat \<Rightarrow> string \<Rightarrow> string list" where
  "drip_from piece b = (if piece = 0 \<or> b = [] then [] else take piece b # drip_from piece (drop piece b))"
  by pat_completeness auto
termination
  by (relation "measure (length \<circ> snd)") auto

declare drip_from.simps [simp del]

definition drip_pieces :: "string \<Rightarrow> string list" where
  "drip_pieces b = drip_from (nat (max 1 (go_div (int (length b) + dripPieces - 1) dripPieces))) b"

text \<open>
  A piece is written, which \<open>ok\<close> says succeeded; before the next one the request sleeps for a tenth of the
  time the answer is spread over.
\<close>

definition drip_piece :: "server \<Rightarrow> duration \<Rightarrow> string \<Rightarrow> string list \<Rightarrow> bool \<Rightarrow> server \<times> mock_process" where
  "drip_piece s over sent ps ok =
     (case ps of
        [] \<Rightarrow> leave s modeDrip (Reply 200 sent)
      | p # rest \<Rightarrow>
          if \<not> ok then leave s modeDrip (Part sent)
          else if rest = [] then leave s modeDrip (Reply 200 (sent @ p))
          else (s, Pausing over (sent @ p) rest (sleep_timer s (go_div over dripPieces))))"

definition drip_pause ::
  "server \<Rightarrow> duration \<Rightarrow> string \<Rightarrow> string list \<Rightarrow> bool \<Rightarrow> time option \<Rightarrow> server \<times> mock_process" where
  "drip_pause s over sent ps gone timer =
     (case sleep_turn s gone timer of
        Inr t \<Rightarrow> (s, Pausing over sent ps (Some t))
      | Inl False \<Rightarrow> leave s modeDrip (Part sent)
      | Inl True \<Rightarrow> (s, Dripping over sent ps))"

definition send_answer :: "server \<Rightarrow> string \<Rightarrow> fault \<Rightarrow> server \<times> mock_process" where
  "send_answer s m ft =
     (if m = modeError then leave s modeError (Reply 500 (pf_name (ms_profile s) @ '' failed'' @ newline))
      else if m = modeReset then leave s modeReset (Part (take (length (ms_body s) div 2) (ms_body s)))
      else if m = modeDrip then (s, Dripping (fa_over ft) [] (drip_pieces (ms_body s)))
      else leave s (if m \<noteq> [] then m else outcomeAnswered) (Reply 200 (ms_body s)))"

definition end_stop :: "server \<Rightarrow> string \<Rightarrow> fault \<Rightarrow> bool \<Rightarrow> time option \<Rightarrow> server \<times> mock_process" where
  "end_stop s m ft gone timer =
     (case wait_turn (ms_clock s) (ms_now s) gone timer of
        Inr t \<Rightarrow> (s, Answering m ft (Some t))
      | Inl False \<Rightarrow> leave s outcomeAbandoned NoReply
      | Inl True \<Rightarrow> send_answer s m ft)"

text \<open>What a piece is told by the waits around it.\<close>

record told =
  td_gone :: bool
  td_arrived :: bool
  td_ok :: bool
  td_draw :: rat
  td_normal :: rat
  td_session :: string

fun mock_piece :: "(rat \<Rightarrow> float64) \<Rightarrow> server \<Rightarrow> mock_process \<Rightarrow> told \<Rightarrow> server \<times> mock_process" where
  "mock_piece ex s (Arrived timer) t = take_in s (td_gone t) timer"
| "mock_piece ex s Overflowing t = overflow s (td_gone t)"
| "mock_piece ex s Queued t = get_worker s (td_gone t)"
| "mock_piece ex s Reading t = begin_work ex s (td_arrived t) (td_draw t) (td_normal t) (td_session t)"
| "mock_piece ex s Hanging t = end_hang s (td_gone t)"
| "mock_piece ex s (Working m ft timer) t = end_work s m ft (td_gone t) timer"
| "mock_piece ex s (Answering m ft timer) t = end_stop s m ft (td_gone t) timer"
| "mock_piece ex s (Dripping over sent ps) t = drip_piece s over sent ps (td_ok t)"
| "mock_piece ex s (Pausing over sent ps timer) t = drip_pause s over sent ps (td_gone t) timer"
| "mock_piece ex s (Done o' r) t = (s, Done o' r)"

subsection \<open>The health check and the admin port\<close>

definition server_health :: "server \<Rightarrow> bool \<Rightarrow> time option \<Rightarrow> reply + time" where
  "server_health s gone timer =
     (case wait_turn (ms_clock s) (ms_now s) gone timer of
        Inr t \<Rightarrow> Inr t
      | Inl False \<Rightarrow> Inl NoReply
      | Inl True \<Rightarrow>
          if pf_queue (ms_profile s) > 0 \<and> 2 * ms_waiting s > pf_queue (ms_profile s)
          then Inl (Reply 503 (''overloaded'' @ newline))
          else Inl (Reply 200 (pf_name (ms_profile s) @ newline)))"

definition injectFault ::
  "(string \<Rightarrow> float64 option) \<Rightarrow> server \<Rightarrow> (string \<Rightarrow> string) \<Rightarrow> injection_error option \<times> server" where
  "injectFault ParseFloat s form =
     (case parseInjection ParseFloat form of
        Inl e \<Rightarrow> (Some e, s)
      | Inr (m, ft, lasts) \<Rightarrow>
          (let s1 = (if m = modeFreeze then s\<lparr>ms_clock := freeze (ms_clock s) (ms_now s) lasts\<rparr> else s)
           in (None, s1\<lparr>ms_faults := inject (ms_faults s1) (ms_now s1) m ft lasts,
                        ms_counts := (ms_counts s1)\<lparr>ct_injected := bump m (ct_injected (ms_counts s1))\<rparr>\<rparr>)))"

definition clearFaults :: "server \<Rightarrow> server" where
  "clearFaults s = s\<lparr>ms_faults := faults_clear (ms_faults s), ms_clock := thaw (ms_clock s)\<rparr>"

text \<open>What \<open>run\<close> does before it waits for the requests in flight.\<close>

definition shut_down :: "server \<Rightarrow> server" where
  "shut_down s = (let s1 = stop s in s1\<lparr>ms_clock := thaw (ms_clock s1)\<rparr>)"

definition clearCache :: "server \<Rightarrow> server" where
  "clearCache s = s\<lparr>ms_cache := map_option cache_clear (ms_cache s)\<rparr>"

record mock_state =
  mt_backend :: string
  mt_injected :: "activeFault list"
  mt_profile :: "(string \<times> float64) list"
  mt_cacheKeys :: nat
  mt_cacheSize :: int
  mt_coldFactor :: float64
  mt_waiting :: int

definition cache_keys :: "server \<Rightarrow> nat" where
  "cache_keys s = (case ms_cache s of None \<Rightarrow> 0 | Some c \<Rightarrow> cache_size c)"

definition server_state :: "server \<Rightarrow> mock_state" where
  "server_state s =
     \<lparr>mt_backend = pf_name (ms_profile s), mt_injected = active (ms_faults s) (ms_now s),
      mt_profile = profileRates (ms_faults s), mt_cacheKeys = cache_keys s,
      mt_cacheSize = pf_cacheSize (ms_profile s), mt_coldFactor = clock_factor (ms_clock s) (ms_now s),
      mt_waiting = ms_waiting s\<rparr>"

text \<open>The samples of \<open>/metrics\<close>: the family, the label's value, and the number.\<close>

definition float_of :: "int \<Rightarrow> float64" where "float_of n = Fin (float_of_int n)"

definition mock_metrics :: "server \<Rightarrow> (string \<times> string \<times> float64) list" where
  "mock_metrics s =
     map (\<lambda>o'. (''mock_requests_total'', o', float_of (ct_outcomes (ms_counts s) o'))) outcomes
   @ map (\<lambda>r. (''mock_cache_requests_total'', r, float_of (ct_cache (ms_counts s) r))) [''hit'', ''miss'']
   @ map (\<lambda>m. (''mock_faults_injected_total'', m, float_of (ct_injected (ms_counts s) m))) modes
   @ (let inForce = map af_mode (active (ms_faults s) (ms_now s))
      in map (\<lambda>m. (''mock_fault_in_force'', m, if m \<in> set inForce then 1 else 0)) modes)
   @ [(''mock_cache_keys'', [], float_of (int (cache_keys s))),
      (''mock_busy_workers'', [], float_of (ms_busy s)),
      (''mock_capacity'', [], float_of (pf_capacity (ms_profile s))),
      (''mock_waiting'', [], float_of (ms_waiting s)),
      (''mock_cold_factor'', [], clock_factor (ms_clock s) (ms_now s))]"

subsection \<open>Answers\<close>

lemma bodyFor_length: "length (bodyFor name sz) = max (length name + 1) (nat sz)"
  by (simp add: bodyFor_def newline_def Let_def)

lemma bodyFor_name: "take (length name) (bodyFor name sz) = name"
  by (simp add: bodyFor_def newline_def Let_def take_update_cancel)

lemma bodyFor_last: "last (bodyFor name sz) = CHR 0x0A"
  by (simp add: bodyFor_def newline_def Let_def last_list_update last_conv_nth)

lemma concat_drip_from: "0 < n \<Longrightarrow> concat (drip_from n b) = b"
  by (induction n b rule: drip_from.induct) (subst drip_from.simps, simp)

lemma length_drip_from: "0 < n \<Longrightarrow> length b \<le> k * n \<Longrightarrow> length (drip_from n b) \<le> k"
proof (induction n b arbitrary: k rule: drip_from.induct)
  case (1 n b)
  show ?case
  proof (cases "b = []")
    case False
    then obtain j where j: "k = Suc j" using 1(3) by (cases k) auto
    have "length (drip_from n (drop n b)) \<le> j"
      using 1(1) [of j] 1(2,3) False j by simp
    then show ?thesis using False 1(2) j by (subst drip_from.simps) simp
  qed (simp add: drip_from.simps)
qed

text \<open>A dripped answer is the whole answer, in at most ten pieces.\<close>

lemma drip_whole: "concat (drip_pieces b) = b"
  unfolding drip_pieces_def by (rule concat_drip_from) simp

lemma drip_at_most_ten: "length (drip_pieces b) \<le> 10"
proof -
  let ?n = "nat (max 1 (go_div (int (length b) + dripPieces - 1) dripPieces))"
  have "go_div (int (length b) + dripPieces - 1) dripPieces = (int (length b) + 9) div 10"
    by (simp add: go_div_nonneg dripPieces_def)
  moreover have "int (length b) \<le> 10 * ((int (length b) + 9) div 10)" by linarith
  ultimately have "int (length b) \<le> 10 * int ?n" by (simp add: max_def)
  then have "length b \<le> 10 * ?n" by linarith
  then show ?thesis unfolding drip_pieces_def by (intro length_drip_from) simp_all
qed

subsection \<open>Interleaving\<close>

inductive mock_step ::
  "(rat \<Rightarrow> float64) \<Rightarrow> (string \<Rightarrow> float64 option) \<Rightarrow> server \<times> mock_process list \<Rightarrow> server \<times> mock_process list \<Rightarrow> bool"
  for ex pf where
  Request: "mock_step ex pf (s, ps) (s, ps @ [Arrived None])"
| Piece: "i < length ps \<Longrightarrow> mock_piece ex s (ps ! i) t = (s', p') \<Longrightarrow> mock_step ex pf (s, ps) (s', ps[i := p'])"
| Inject: "injectFault pf s form = (e, s') \<Longrightarrow> mock_step ex pf (s, ps) (s', ps)"
| ClearFaults: "mock_step ex pf (s, ps) (clearFaults s, ps)"
| ClearCache: "mock_step ex pf (s, ps) (clearCache s, ps)"
| Stop: "mock_step ex pf (s, ps) (shut_down s, ps)"
| Tick: "0 \<le> d \<Longrightarrow> mock_step ex pf (s, ps) (s\<lparr>ms_now := ms_now s + d\<rparr>, ps)"

inductive mock_reach ::
  "(rat \<Rightarrow> float64) \<Rightarrow> (string \<Rightarrow> float64 option) \<Rightarrow> server \<Rightarrow> server \<times> mock_process list \<Rightarrow> bool"
  for ex pf s0 where
  Start: "mock_reach ex pf s0 (s0, [])"
| Step: "mock_reach ex pf s0 a \<Longrightarrow> mock_step ex pf a b \<Longrightarrow> mock_reach ex pf s0 b"

inductive_cases mock_stepE: "mock_step ex pf (s, ps) (s', ps')"

fun holds_worker :: "mock_process \<Rightarrow> bool" where
  "holds_worker Reading = True"
| "holds_worker Hanging = True"
| "holds_worker (Working m ft timer) = True"
| "holds_worker (Answering m ft timer) = True"
| "holds_worker (Dripping over sent ps) = True"
| "holds_worker (Pausing over sent ps timer) = True"
| "holds_worker p = False"

definition counted_waiting :: "mock_process \<Rightarrow> bool" where
  "counted_waiting p \<longleftrightarrow> p = Queued \<or> p = Overflowing"

definition ended_as :: "string \<Rightarrow> mock_process \<Rightarrow> bool" where
  "ended_as o' p \<longleftrightarrow> (\<exists>r. p = Done o' r)"

text \<open>A one for each process of a kind.\<close>

definition one_if :: "bool \<Rightarrow> int" where "one_if b = (if b then 1 else 0)"

lemma one_if_simps [simp]: "one_if True = 1" "one_if False = 0"
  by (simp_all add: one_if_def)

definition tally :: "('p \<Rightarrow> bool) \<Rightarrow> 'p list \<Rightarrow> int" where
  "tally P ps = (\<Sum>p\<leftarrow>ps. one_if (P p))"

lemma tally_update: "i < length ps \<Longrightarrow> tally P (ps[i := p]) = tally P ps - one_if (P (ps ! i)) + one_if (P p)"
  by (simp add: tally_def sum_list_update_int)

lemma tally_append [simp]: "tally P (ps @ qs) = tally P ps + tally P qs"
  by (simp add: tally_def)

lemma tally_Nil [simp]: "tally P [] = 0" and tally_Cons [simp]: "tally P (p # ps) = one_if (P p) + tally P ps"
  by (simp_all add: tally_def)

lemma tally_nonneg: "0 \<le> tally P ps"
  by (induction ps) (simp_all add: one_if_def)

lemma tally_mono: "(\<And>p. P p \<Longrightarrow> Q p) \<Longrightarrow> tally P ps \<le> tally Q ps"
  by (induction ps) (auto simp: one_if_def)

text \<open>What a piece does to the counters, by the process before and after it.\<close>

definition ledger :: "server \<Rightarrow> mock_process \<Rightarrow> server \<Rightarrow> mock_process \<Rightarrow> bool" where
  "ledger s p s' p' \<longleftrightarrow>
     ms_profile s' = ms_profile s
     \<and> ms_busy s' = ms_busy s - one_if (holds_worker p) + one_if (holds_worker p')
     \<and> ms_slots s' = (if pf_capacity (ms_profile s) > 0
                      then ms_slots s - one_if (holds_worker p) + one_if (holds_worker p') else ms_slots s)
     \<and> (pf_capacity (ms_profile s) > 0 \<longrightarrow> ms_slots s \<le> pf_capacity (ms_profile s)
          \<longrightarrow> ms_slots s' \<le> pf_capacity (ms_profile s))
     \<and> ms_waiting s' = ms_waiting s - one_if (counted_waiting p) + one_if (counted_waiting p')
     \<and> (p' = Queued \<longrightarrow> p \<noteq> Queued \<longrightarrow> ms_waiting s' \<le> pf_queue (ms_profile s))
     \<and> (\<forall>o'. ct_outcomes (ms_counts s') o' =
              ct_outcomes (ms_counts s) o' - one_if (ended_as o' p) + one_if (ended_as o' p'))"

lemmas piece_defs =
  leave_def turn_away_def admitted_def server_admit_def take_in_def overflow_def get_worker_def
  end_hang_def end_work_def drip_piece_def drip_pause_def send_answer_def end_stop_def count_outcome_def bump_def

lemma server_choose_frame:
  "server_choose s u = (c, s') \<Longrightarrow> \<exists>f. s' = s\<lparr>ms_faults := f\<rparr>"
  by (auto simp: server_choose_def split: prod.splits bool.splits)

lemma serviceTime_frame:
  "serviceTime ex s z key = (d, x, s') \<Longrightarrow>
     ms_profile s' = ms_profile s \<and> ms_busy s' = ms_busy s \<and> ms_slots s' = ms_slots s
     \<and> ms_waiting s' = ms_waiting s \<and> ct_outcomes (ms_counts s') = ct_outcomes (ms_counts s)"
  by (auto simp: serviceTime_def Let_def split: prod.splits option.splits)

lemma ledger_begin_work: "begin_work ex s arrived u z key = (s', p') \<Longrightarrow> ledger s Reading s' p'"
  by (auto simp: begin_work_def ledger_def counted_waiting_def ended_as_def
      dest!: server_choose_frame serviceTime_frame split: prod.splits if_splits)

lemma ledger_piece: "mock_piece ex s p t = (s', p') \<Longrightarrow> ledger s p s' p'"
proof (induction ex s p t rule: mock_piece.induct)
  case (4 ex s t)
  then show ?case by (auto intro: ledger_begin_work)
qed (auto simp: piece_defs ledger_def counted_waiting_def ended_as_def Let_def
      split: option.splits sum.splits bool.splits if_splits list.splits)

subsection \<open>The counters are exact\<close>

definition mock_inv :: "server \<times> mock_process list \<Rightarrow> bool" where
  "mock_inv a \<longleftrightarrow>
     (case a of (s, ps) \<Rightarrow>
        ms_busy s = tally holds_worker ps
        \<and> (pf_capacity (ms_profile s) > 0 \<longrightarrow>
             ms_slots s = tally holds_worker ps \<and> ms_slots s \<le> pf_capacity (ms_profile s))
        \<and> ms_waiting s = tally counted_waiting ps
        \<and> tally (\<lambda>p. p = Queued) ps \<le> pf_queue (ms_profile s)
        \<and> (\<forall>o'. ct_outcomes (ms_counts s) o' = tally (ended_as o') ps))"

lemma mock_inv_piece:
  assumes "mock_inv (s, ps)" "i < length ps" "mock_piece ex s (ps ! i) t = (s', p')"
  shows "mock_inv (s', ps[i := p'])"
proof -
  note l = ledger_piece [OF assms(3), unfolded ledger_def]
  have w: "tally counted_waiting (ps[i := p']) = ms_waiting s'"
    using assms(1) l by (simp add: mock_inv_def tally_update [OF assms(2)])
  have "tally (\<lambda>p. p = Queued) (ps[i := p']) \<le> pf_queue (ms_profile s)"
  proof (cases "p' = Queued \<and> ps ! i \<noteq> Queued")
    case True
    have "tally (\<lambda>p. p = Queued) (ps[i := p']) \<le> tally counted_waiting (ps[i := p'])"
      by (rule tally_mono) (simp add: counted_waiting_def)
    then show ?thesis using True l w by simp
  next
    case False
    then show ?thesis
      using assms(1) by (auto simp: mock_inv_def tally_update [OF assms(2)] one_if_def)
  qed
  then show ?thesis
    using assms(1) l w by (auto simp: mock_inv_def tally_update [OF assms(2)])
qed

lemma injectFault_frame:
  "injectFault pf s form = (e, s') \<Longrightarrow>
     ms_profile s' = ms_profile s \<and> ms_busy s' = ms_busy s \<and> ms_slots s' = ms_slots s
     \<and> ms_waiting s' = ms_waiting s \<and> ct_outcomes (ms_counts s') = ct_outcomes (ms_counts s)"
  by (auto simp: injectFault_def Let_def split: sum.splits prod.splits if_splits)

lemma mock_inv_step: "mock_step ex pf a b \<Longrightarrow> mock_inv a \<Longrightarrow> mock_inv b"
proof (induction rule: mock_step.induct)
  case (Piece i ps s t s' p')
  then show ?case by (intro mock_inv_piece)
qed (auto simp: mock_inv_def counted_waiting_def ended_as_def clearFaults_def clearCache_def shut_down_def stop_def
      dest: injectFault_frame)

lemma mock_inv_start: "profile_ok p \<Longrightarrow> mock_inv (newServer lg p u now, [])"
  by (simp add: mock_inv_def newServer_def newCounts_def profile_ok_def Let_def)

lemma mock_inv_reach: "mock_reach ex pf s0 a \<Longrightarrow> mock_inv (s0, []) \<Longrightarrow> mock_inv a"
  by (induction rule: mock_reach.induct) (auto intro: mock_inv_step)

lemma profile_step: "mock_step ex pf a b \<Longrightarrow> ms_profile (fst b) = ms_profile (fst a)"
proof (induction rule: mock_step.induct)
  case (Piece i ps s t s' p')
  then show ?case using ledger_piece by (fastforce simp: ledger_def)
qed (auto simp: clearFaults_def clearCache_def shut_down_def stop_def dest: injectFault_frame)

lemma profile_reach: "mock_reach ex pf s0 a \<Longrightarrow> ms_profile (fst a) = ms_profile s0"
  by (induction rule: mock_reach.induct) (auto dest: profile_step)

text \<open>
  C15: However requests, faults and the admin port's operations interleave: a mock backend serves no more
  requests at once than its profile's capacity and keeps no more waiting than its queue, its gauge of busy
  workers is the number of requests being served, and the requests that have ended are each counted under
  exactly the outcome they ended with.
\<close>

lemma mock_backend_keeps_its_limits:
  assumes "mock_reach ex pf (newServer lg p u now) (s, ps)" "profile_ok p"
  shows "(0 < pf_capacity p \<longrightarrow> tally holds_worker ps \<le> pf_capacity p)
     \<and> tally (\<lambda>q. q = Queued) ps \<le> pf_queue p
     \<and> ms_busy s = tally holds_worker ps
     \<and> (\<forall>o'. ct_outcomes (ms_counts s) o' = tally (ended_as o') ps)"
proof -
  have "mock_inv (s, ps)" using assms(1) mock_inv_start [OF assms(2)] by (rule mock_inv_reach)
  moreover have "ms_profile s = p" using profile_reach [OF assms(1)] by (simp add: newServer_def Let_def)
  ultimately show ?thesis by (auto simp: mock_inv_def)
qed

definition ex_profile :: profile where
  "ex_profile =
     \<lparr>pf_name = ''a'', pf_latency = 0, pf_p99 = 0, pf_capacity = 1, pf_queue = 1, pf_bodySize = 0,
      pf_errorRate = 0, pf_cacheSize = 0, pf_missPenalty = 0, pf_hangRate = 0, pf_resetRate = 0,
      pf_dripRate = 0, pf_dripOver = 0, pf_coldStart = 0, pf_coldFactor = 1, pf_pauseEvery = 0, pf_pause = 0\<rparr>"

definition ex_told :: told where
  "ex_told = \<lparr>td_gone = False, td_arrived = True, td_ok = True, td_draw = 0, td_normal = 0, td_session = []\<rparr>"

lemma ex_profile_ok: "profile_ok ex_profile"
  by (simp add: profile_ok_def ex_profile_def share_def rate_sum_def float64_arith pack_def)

text \<open>Two requests arrive, and the second waits for the first.\<close>

definition ex_server :: server where
  "ex_server = newServer (\<lambda>x. x) ex_profile 0 0"

definition ex_busy :: "server \<times> mock_process list" where
  "ex_busy = (ex_server\<lparr>ms_slots := 1, ms_busy := 1, ms_waiting := 1\<rparr>, [Reading, Queued])"

lemma ex_mock_run: "mock_reach ex pf ex_server ex_busy"
proof -
  have runs: "wait_turn (ms_clock ex_server) 0 False None = Inl True"
    by (simp add: ex_server_def newServer_def newClock_def ex_profile_def wait_turn_def stall_def pause_left_def
        freeze_left_def min_duration_def Let_def)
  have fields: "pf_capacity (ms_profile ex_server) = 1" "pf_queue (ms_profile ex_server) = 1" "ms_slots ex_server = 0"
    "ms_busy ex_server = 0" "ms_waiting ex_server = 0" "ms_now ex_server = 0"
    by (simp_all add: ex_server_def newServer_def ex_profile_def Let_def)
  let ?s1 = "ex_server\<lparr>ms_slots := 1, ms_busy := 1\<rparr>"
  have p1: "mock_piece ex ex_server (Arrived None) ex_told = (?s1, Reading)"
    using runs fields by (simp add: ex_told_def take_in_def server_admit_def admitted_def Let_def)
  have p2: "mock_piece ex ?s1 (Arrived None) ex_told = (fst ex_busy, Queued)"
    using runs fields by (simp add: ex_told_def ex_busy_def take_in_def server_admit_def Let_def)
  have "mock_reach ex pf ex_server (ex_server, [Arrived None, Arrived None])"
    using mock_reach.Step [OF mock_reach.Step [OF mock_reach.Start Request] Request] by simp
  then have "mock_reach ex pf ex_server (?s1, [Reading, Arrived None])"
    using Piece [of 0 "[Arrived None, Arrived None]" ex ex_server ex_told ?s1 Reading pf] p1 by (auto intro: mock_reach.Step)
  then show ?thesis
    using Piece [of 1 "[Reading, Arrived None]" ex ?s1 ex_told "fst ex_busy" Queued pf] p2
    by (auto intro: mock_reach.Step simp: ex_busy_def)
qed

lemma mock_backend_keeps_its_limits_witness:
  "tally holds_worker (snd ex_busy) \<le> 1 \<and> tally (\<lambda>q. q = Queued) (snd ex_busy) \<le> 1"
  using mock_backend_keeps_its_limits [of "\<lambda>_. 0" "\<lambda>_. None" "\<lambda>x. x" ex_profile 0 0 "fst ex_busy" "snd ex_busy"]
    ex_mock_run ex_profile_ok by (simp add: ex_server_def [symmetric], simp add: ex_profile_def)

text \<open>Shutting down lets a hanging request go.\<close>

lemma hang_ends_on_stop: "end_hang (stop s) gone = leave (stop s) modeHang (if gone then NoReply else Dropped)"
  by (simp add: end_hang_def stop_def)

text \<open>
  Clearing the faults, or shutting down, thaws the process for the requests to come, but not for those
  asleep in the freeze: each sleeps on until the timer it set.
\<close>

lemma thaw_wakes_nobody:
  assumes "p = Arrived (Some t) \<or> p = Answering m ft (Some t)" "ms_now s < t" "\<not> td_gone told"
  shows "mock_piece ex (clearFaults s) p told = (clearFaults s, p)" "mock_piece ex (shut_down s) p told = (shut_down s, p)"
  using assms by (auto simp: take_in_def end_stop_def wait_turn_def clearFaults_def shut_down_def stop_def Let_def)

lemma thaw_lets_in:
  "ck_pause (ms_clock s) = 0 \<Longrightarrow> take_in (clearFaults s) False None = server_admit (clearFaults s)"
  by (simp add: take_in_def wait_turn_def stall_def pause_left_def freeze_left_def clearFaults_def thaw_def
      min_duration_def Let_def)

end
