(* ===== verification/Demo_Wire.thy ===== *)
theory Demo_Wire
  imports Demo_Console Mock_Server
begin

text \<open>
  What the console sends to a backend's admin port and how the backend reads it: \<open>url.Values\<close>' \<open>Encode\<close>,
  \<open>http.Request\<close>'s \<open>ParseForm\<close>, and the two ends that use them, \<open>environment.injectFault\<close> and \<open>admin\<close>
  of \<open>cmd/demo/faults.go\<close> and the handler of \<open>cmd/mockbackend/admin.go\<close>. A form is a list of keys and
  values. \<open>ParseForm\<close> reads a body only if it is posted, as a form and of at most ten megabytes; the
  parameters of a media type and the query of a target, which the console sends none of, are left out. The
  lemmas: whatever bytes are typed, the backend reads the form the console made.
\<close>

subsection \<open>Escaping\<close>

definition hex_digits :: string where "hex_digits = ''0123456789ABCDEF''"

definition hex_char :: "nat \<Rightarrow> char" where "hex_char n = hex_digits ! n"

text \<open>The value of a hexadecimal digit, in either case.\<close>

definition hex_value :: "char \<Rightarrow> nat option" where
  "hex_value c =
     (let n = of_char c :: nat
      in if 48 \<le> n \<and> n \<le> 57 then Some (n - 48)
         else if 97 \<le> n \<and> n \<le> 102 then Some (n - 87)
         else if 65 \<le> n \<and> n \<le> 70 then Some (n - 55) else None)"

definition unreserved :: "char \<Rightarrow> bool" where
  "unreserved c =
     (let n = of_char c :: nat
      in 97 \<le> n \<and> n \<le> 122 \<or> 65 \<le> n \<and> n \<le> 90 \<or> 48 \<le> n \<and> n \<le> 57 \<or> n \<in> {45, 46, 95, 126})"

definition escape_char :: "char \<Rightarrow> string" where
  "escape_char c =
     (if unreserved c then [c]
      else if c = CHR '' '' then ''+''
      else (let n = of_char c :: nat in [CHR ''%'', hex_char (n div 16), hex_char (n mod 16)]))"

definition QueryEscape :: "string \<Rightarrow> string" where
  "QueryEscape s = concat (map escape_char s)"

fun QueryUnescape :: "string \<Rightarrow> string option" where
  "QueryUnescape [] = Some []"
| "QueryUnescape (c # s) =
     (if c = CHR ''%'' then
        (case s of
           a # b # r \<Rightarrow>
             (case (hex_value a, hex_value b) of
                (Some x, Some y) \<Rightarrow> map_option ((#) (char_of (16 * x + y))) (QueryUnescape r)
              | _ \<Rightarrow> None)
         | _ \<Rightarrow> None)
      else if c = CHR ''+'' then map_option ((#) CHR '' '') (QueryUnescape s)
      else map_option ((#) c) (QueryUnescape s))"

lemma byte_halves: "of_char c div 16 < (16 :: nat)" "of_char c mod 16 < (16 :: nat)"
  using nat_of_char_less_256 [of c] by (simp_all add: div_less_iff_less_mult del: nat_of_char_less_256)

lemma hex_round_trip: "n < 16 \<Longrightarrow> hex_value (hex_char n) = Some n"
proof -
  have "list_all (\<lambda>n. hex_value (hex_char n) = Some n) [0..<16]" by code_simp
  then show "n < 16 \<Longrightarrow> ?thesis" by (simp add: list_all_iff)
qed

lemma unreserved_plain: "unreserved c \<Longrightarrow> c \<noteq> CHR ''%'' \<and> c \<noteq> CHR ''+'' \<and> c \<noteq> CHR ''&'' \<and> c \<noteq> CHR '';'' \<and> c \<noteq> CHR ''=''"
  by (auto simp: unreserved_def)

lemma unescape_char: "QueryUnescape (escape_char c @ s) = map_option ((#) c) (QueryUnescape s)"
proof -
  have "16 * (of_char c div 16) + of_char c mod 16 = (of_char c :: nat)" by simp
  then show ?thesis
    using byte_halves [of c] unreserved_plain [of c] by (simp add: escape_char_def hex_round_trip Let_def)
qed

lemma unescape_escape: "QueryUnescape (QueryEscape s) = Some s"
  by (induction s) (simp_all add: QueryEscape_def unescape_char)

lemma hex_char_plain: "n < 16 \<Longrightarrow> unreserved (hex_char n)"
proof -
  have "list_all (\<lambda>n. unreserved (hex_char n)) [0..<16]" by code_simp
  then show "n < 16 \<Longrightarrow> ?thesis" by (simp add: list_all_iff)
qed

text \<open>None of the characters that separate keys and values is left.\<close>

lemma escape_separators: "x \<in> set (QueryEscape s) \<Longrightarrow> x \<noteq> CHR ''&'' \<and> x \<noteq> CHR '';'' \<and> x \<noteq> CHR ''=''"
proof -
  have "x \<noteq> CHR ''&'' \<and> x \<noteq> CHR '';'' \<and> x \<noteq> CHR ''=''" if "x \<in> set (escape_char c)" for c
  proof -
    note plain = byte_halves [of c, THEN hex_char_plain, THEN unreserved_plain]
    show ?thesis using that plain unreserved_plain [of c] by (auto simp: escape_char_def Let_def split: if_splits)
  qed
  then show "x \<in> set (QueryEscape s) \<Longrightarrow> ?thesis" by (auto simp: QueryEscape_def)
qed

subsection \<open>Forms\<close>

type_synonym form = "(string \<times> string) list"

definition encode_pair :: "string \<times> string \<Rightarrow> string" where
  "encode_pair x = QueryEscape (fst x) @ ''='' @ QueryEscape (snd x)"

definition Encode :: "form \<Rightarrow> string" where
  "Encode ps = join ''&'' (map encode_pair (sort_key fst ps))"

text \<open>\<open>url.ParseQuery\<close>: what could be read, and whether something could not.\<close>

definition parse_pair :: "string \<Rightarrow> (string \<times> string) option" where
  "parse_pair seg =
     (if CHR '';'' \<in> set seg then None
      else case cut seg CHR ''='' of
        (k, v, _) \<Rightarrow> (case (QueryUnescape k, QueryUnescape v) of (Some k', Some v') \<Rightarrow> Some (k', v') | _ \<Rightarrow> None))"

fun parse_pairs :: "string list \<Rightarrow> form \<times> bool" where
  "parse_pairs [] = ([], False)"
| "parse_pairs (seg # segs) =
     (case parse_pairs segs of
        (ps, bad) \<Rightarrow>
          if seg = [] then (ps, bad)
          else (case parse_pair seg of None \<Rightarrow> (ps, True) | Some x \<Rightarrow> (x # ps, bad)))"

definition ParseQuery :: "string \<Rightarrow> form \<times> bool" where
  "ParseQuery s = parse_pairs (split_byte CHR ''&'' s)"

text \<open>The first value of a key, empty when there is none.\<close>

definition form_value :: "form \<Rightarrow> string \<Rightarrow> string" where
  "form_value ps k = (case map_of ps k of None \<Rightarrow> [] | Some v \<Rightarrow> v)"

lemma parse_encoded: "parse_pair (encode_pair x) = Some x"
proof -
  have "CHR ''='' \<notin> set (QueryEscape (fst x))" using escape_separators by blast
  then have "cut (encode_pair x) CHR ''='' = (QueryEscape (fst x), QueryEscape (snd x), True)"
    by (simp add: encode_pair_def cut_def takeWhile_append dropWhile_append)
  moreover have "CHR '';'' \<notin> set (encode_pair x)" using escape_separators by (auto simp: encode_pair_def)
  ultimately show ?thesis by (simp add: parse_pair_def unescape_escape)
qed

lemma parse_query_encode: "ParseQuery (Encode ps) = (sort_key fst ps, False)"
proof (cases "ps = []")
  case False
  let ?segs = "map encode_pair (sort_key fst ps)"
  have "CHR ''&'' \<notin> set (encode_pair x)" for x using escape_separators by (auto simp: encode_pair_def)
  then have "split_byte CHR ''&'' (join [CHR ''&''] ?segs) = ?segs"
    using False by (intro split_byte_join) (auto simp flip: length_greater_0_conv)
  moreover have "parse_pairs (map encode_pair qs) = (qs, False)" for qs
    by (induction qs) (simp_all add: parse_encoded, simp add: encode_pair_def)
  ultimately show ?thesis by (simp add: ParseQuery_def Encode_def)
qed (simp add: ParseQuery_def Encode_def)

subsection \<open>Injecting a fault\<close>

text \<open>The form of a fault, as the values that are set.\<close>

definition fault_values :: "faultKind \<Rightarrow> string \<Rightarrow> duration \<Rightarrow> form" where
  "fault_values kind amount lasts =
     [(''mode'', fk_mode kind), (''for'', Duration_String lasts)]
     @ (if fk_strength kind = ''rate'' then [(''rate'', amount)]
        else if fk_strength kind = ''factor'' then [(''factor'', amount)] else [])"

text \<open>\<open>injectFault\<close> and \<open>admin\<close> of the console: the request, and what its answer is reported as.\<close>

record admin_request =
  ar_method :: string
  ar_target :: string
  ar_body :: string
  ar_type :: string

datatype admin_answer = NotSent | AnsweredWith int string string

datatype admin_error = SendFailed | AnsweredBadly string string string

definition admin_post :: "string \<Rightarrow> string \<Rightarrow> form option \<Rightarrow> admin_request" where
  "admin_post method target form =
     (case form of
        None \<Rightarrow> \<lparr>ar_method = method, ar_target = target, ar_body = [], ar_type = []\<rparr>
      | Some ps \<Rightarrow> \<lparr>ar_method = method, ar_target = target, ar_body = Encode ps,
                    ar_type = ''application/x-www-form-urlencoded''\<rparr>)"

definition admin_result :: "admin_request \<Rightarrow> admin_answer \<Rightarrow> admin_error option" where
  "admin_result request answer =
     (case answer of
        NotSent \<Rightarrow> Some SendFailed
      | AnsweredWith code status body \<Rightarrow>
          if code \<noteq> 200 then Some (AnsweredBadly (ar_target request) status (trim_space (take 512 body))) else None)"

text \<open>
  \<open>ParseForm\<close> on the backend's side: the form, and whether it could not be read. What is not declared a
  form is not read at all.
\<close>

definition form_type :: string where "form_type = ''application/x-www-form-urlencoded''"

definition media_type :: "string \<Rightarrow> string" where
  "media_type ct = trim_space (map lower (fst (cut ct CHR '';'')))"

definition max_form :: nat where "max_form = 10 * 2 ^ 20"

definition ParseForm :: "admin_request \<Rightarrow> form \<times> bool" where
  "ParseForm r =
     (if ar_method r \<notin> {''POST'', ''PUT'', ''PATCH''} \<or> media_type (ar_type r) \<noteq> form_type then ([], False)
      else if length (ar_body r) > max_form then ([], True)
      else ParseQuery (ar_body r))"

text \<open>The handler of the backend: a body that is no form is refused, before anything of it is looked at.\<close>

definition serve_injection ::
  "(string \<Rightarrow> float64 option) \<Rightarrow> server \<Rightarrow> admin_request \<Rightarrow> (injection_error option + unit) \<times> server" where
  "serve_injection pf s r =
     (case ParseForm r of
        (ps, True) \<Rightarrow> (Inr (), s)
      | (ps, False) \<Rightarrow> (case injectFault pf s (form_value ps) of (e, s') \<Rightarrow> (Inl e, s')))"

lemma form_value_sorted: "distinct (map fst ps) \<Longrightarrow> form_value (sort_key fst ps) = form_value ps"
proof -
  assume d: "distinct (map fst ps)"
  have "distinct (map fst (sort_key fst ps))"
    using d by (induction ps) (simp_all add: distinct_insort_key)
  then have "map_of (sort_key fst ps) = map_of ps"
    using d by (simp add: map_of_inject_set)
  then show ?thesis by (simp add: form_value_def fun_eq_iff)
qed

lemma fault_values_form: "form_value (fault_values kind amount lasts) = faultForm kind amount lasts"
  by (auto simp: fault_values_def faultForm_def form_value_def Let_def fun_eq_iff)

lemma form_type_read: "media_type form_type = form_type"
  unfolding media_type_def form_type_def by code_simp

text \<open>The form is read as it was made.\<close>

lemma posted_form_is_read:
  assumes "length (Encode ps) \<le> max_form"
  shows "ParseForm (admin_post ''POST'' target (Some ps)) = (sort_key fst ps, False)"
  using assms form_type_read [unfolded form_type_def]
  by (simp add: ParseForm_def admin_post_def parse_query_encode form_type_def)

lemma posted_fault_is_injected:
  assumes "length (Encode (fault_values kind amount lasts)) \<le> max_form"
  shows "serve_injection pf s (admin_post ''POST'' target (Some (fault_values kind amount lasts)))
     = (case injectFault pf s (faultForm kind amount lasts) of (e, s') \<Rightarrow> (Inl e, s'))"
proof -
  have "distinct (map fst (fault_values kind amount lasts))" by (simp add: fault_values_def)
  then show ?thesis
    by (simp add: serve_injection_def posted_form_is_read [OF assms] form_value_sorted fault_values_form)
qed

text \<open>What is posted without its type says nothing: the backend misses the mode.\<close>

lemma untyped_form_is_not_read:
  "media_type (ar_type r) \<noteq> form_type \<Longrightarrow> serve_injection pf s r = (case injectFault pf s (\<lambda>_. []) of (e, s') \<Rightarrow> (Inl e, s'))"
proof -
  have "form_value [] = (\<lambda>_. [])" by (simp add: form_value_def fun_eq_iff)
  then show "media_type (ar_type r) \<noteq> form_type \<Longrightarrow> ?thesis" by (simp add: serve_injection_def ParseForm_def)
qed

end
