(* ===== verification/Mock_Process.thy ===== *)
theory Mock_Process
  imports Mock_Server
begin

text \<open>
  \<open>cmd/mockbackend/main.go\<close>: the process of a mock backend, from its flags to its exit, and what its
  shutdown waits for. \<open>drains\<close> says that the requests in flight all come to an end, in whatever order they
  go on, whatever their clients do once their bodies are there, and whatever numbers are drawn, if time
  passes only while no request can go on. The lemmas: once the process is told to shut down, every request
  in flight ends so. \<open>Shutdown\<close> itself gives up waiting after five seconds; what it then returns is an
  argument of \<open>mock_run\<close>.
\<close>

subsection \<open>The process\<close>

text \<open>The servers \<open>run\<close> starts: where each listens, and whether it serves the admin port.\<close>

definition mock_servers :: "mock_options \<Rightarrow> (string \<times> bool) list" where
  "mock_servers opts = (mo_listen opts, False) # (if mo_admin opts \<noteq> [] then [(mo_admin opts, True)] else [])"

text \<open>
  \<open>failed\<close> is what a server returned before a signal came, if one did; \<open>ends\<close> is what shutting down each
  server returned.
\<close>

definition mock_run :: "'e option \<Rightarrow> 'e option list \<Rightarrow> server \<Rightarrow> 'e list \<times> server" where
  "mock_run failed ends s =
     (case failed of
        Some e \<Rightarrow> ([e], s)
      | None \<Rightarrow> (map the (filter (\<lambda>e. e \<noteq> None) ends), shut_down s))"

datatype ('f, 'e) mock_flags = HelpAsked | FlagsWrong 'f | FlagsRead 'e

definition mock_exit :: "('f, 'e list) mock_flags \<Rightarrow> int" where
  "mock_exit started =
     (case started of
        HelpAsked \<Rightarrow> 0
      | FlagsWrong e \<Rightarrow> 2
      | FlagsRead errors \<Rightarrow> if errors = [] then 0 else 1)"

subsection \<open>What a shutdown waits for\<close>

fun is_done :: "mock_process \<Rightarrow> bool" where
  "is_done (Done o' r) = True"
| "is_done p = False"

fun timer_of :: "mock_process \<Rightarrow> time option" where
  "timer_of (Arrived timer) = timer"
| "timer_of (Working m ft timer) = timer"
| "timer_of (Answering m ft timer) = timer"
| "timer_of (Pausing over sent ps timer) = timer"
| "timer_of p = None"

text \<open>Whether a request can go on: it sleeps until its timer, and in the queue until a worker is free.\<close>

definition asleep :: "time \<Rightarrow> mock_process \<Rightarrow> bool" where
  "asleep now p = (case timer_of p of None \<Rightarrow> False | Some t \<Rightarrow> now < t)"

definition can_go_on :: "server \<Rightarrow> mock_process \<Rightarrow> bool" where
  "can_go_on s p \<longleftrightarrow> \<not> is_done p \<and> \<not> asleep (ms_now s) p
     \<and> (p = Queued \<longrightarrow> ms_slots s < pf_capacity (ms_profile s))"

definition timers :: "server \<Rightarrow> mock_process list \<Rightarrow> time list" where
  "timers s ps = map (\<lambda>p. the (timer_of p)) (filter (asleep (ms_now s)) ps)"

text \<open>
  Whichever of the requests that can go on does so next, and with whatever answers from its waits, they all
  end, or \<open>horizon\<close> is over: time passes, to the next timer, when none can go on. A request whose body is
  being read goes on once its client has sent it or is gone; the clients are assumed to.
\<close>

inductive drains :: "(rat \<Rightarrow> float64) \<Rightarrow> time \<Rightarrow> server \<Rightarrow> mock_process list \<Rightarrow> bool" for ex horizon where
  drained: "list_all is_done ps \<Longrightarrow> drains ex horizon s ps"
| too_late: "horizon < ms_now s \<Longrightarrow> drains ex horizon s ps"
| went_on: "list_ex (can_go_on s) ps \<Longrightarrow>
     (\<And>i t s' p'. i < length ps \<Longrightarrow> can_go_on s (ps ! i) \<Longrightarrow> td_arrived t \<Longrightarrow>
        mock_piece ex s (ps ! i) t = (s', p') \<Longrightarrow> drains ex horizon s' (ps[i := p'])) \<Longrightarrow>
     drains ex horizon s ps"
| waited: "\<not> list_ex (can_go_on s) ps \<Longrightarrow> timers s ps \<noteq> [] \<Longrightarrow>
     drains ex horizon (s\<lparr>ms_now := Min (set (timers s ps))\<rparr>) ps \<Longrightarrow> drains ex horizon s ps"

text \<open>
  How far a request is from its end; \<open>b\<close> is how many pieces a dripped answer takes. A timer set for the end of
  the stop counts less than one that may end in another.
\<close>

definition wait_left :: "mock_clock \<Rightarrow> time \<Rightarrow> time option \<Rightarrow> nat" where
  "wait_left c now timer =
     (case timer of None \<Rightarrow> 2 | Some t \<Rightarrow> if now \<le> t \<and> stall c t \<le> 0 then 0 else 1)"

fun pieces_left :: "nat \<Rightarrow> mock_clock \<Rightarrow> time \<Rightarrow> mock_process \<Rightarrow> nat" where
  "pieces_left b c now (Arrived timer) = 2 * b + 8 + wait_left c now timer"
| "pieces_left b c now Overflowing = 1"
| "pieces_left b c now Queued = 2 * b + 7"
| "pieces_left b c now Reading = 2 * b + 6"
| "pieces_left b c now Hanging = 1"
| "pieces_left b c now (Working m ft timer) = 2 * b + 5"
| "pieces_left b c now (Answering m ft timer) = 2 * b + 2 + wait_left c now timer"
| "pieces_left b c now (Dripping over sent ps) = 2 * length ps + 1"
| "pieces_left b c now (Pausing over sent ps timer) = 2 * length ps + 2"
| "pieces_left b c now (Done o' r) = 0"

definition to_do :: "server \<Rightarrow> mock_process list \<Rightarrow> nat" where
  "to_do s ps =
     (\<Sum>p\<leftarrow>ps. pieces_left (length (drip_pieces (ms_body s))) (ms_clock s) (ms_now s) p)"

lemma piece_keeps:
  assumes "mock_piece ex s p t = (s', p')"
  shows "ms_clock s' = ms_clock s \<and> ms_now s' = ms_now s \<and> ms_stopping s' = ms_stopping s
    \<and> ms_body s' = ms_body s \<and> ms_profile s' = ms_profile s"
proof -
  have choice: "server_choose s u = (c, s1) \<Longrightarrow> \<exists>f. s1 = s\<lparr>ms_faults := f\<rparr>" for u c s1
    by (rule server_choose_frame)
  have service: "serviceTime ex s1 z key = (d, x, s2) \<Longrightarrow>
      ms_clock s2 = ms_clock s1 \<and> ms_now s2 = ms_now s1 \<and> ms_stopping s2 = ms_stopping s1
      \<and> ms_body s2 = ms_body s1 \<and> ms_profile s2 = ms_profile s1" for s1 z key d x s2
    by (auto simp: serviceTime_def Let_def split: prod.splits option.splits)
  show ?thesis
  proof (cases p)
    case Reading
    then show ?thesis
      using assms by (auto simp: begin_work_def split: prod.splits if_splits dest!: choice service)
  qed (use assms in \<open>auto simp: piece_defs Let_def split: sum.splits bool.splits if_splits list.splits\<close>)
qed

text \<open>The clock has not run so long that the time since its start does not fit a duration.\<close>

definition clock_in_range :: "mock_clock \<Rightarrow> time \<Rightarrow> bool" where
  "clock_in_range c t \<longleftrightarrow>
     0 \<le> ck_pause c \<and> 0 \<le> ck_phase c \<and> t + ck_pause c - ck_start c + ck_phase c \<le> max_duration"

definition winding_down :: "time \<Rightarrow> server \<Rightarrow> bool" where
  "winding_down horizon s \<longleftrightarrow> ms_stopping s \<and> ck_frozenUntil (ms_clock s) = None
     \<and> clock_in_range (ms_clock s) horizon \<and> ck_start (ms_clock s) \<le> ms_now s"

lemma go_mod_less: "0 < b \<Longrightarrow> go_mod a b < b"
proof -
  assume b: "0 < b"
  show ?thesis
  proof (cases "0 \<le> a")
    case True
    then show ?thesis using b by (simp add: go_mod_nonneg)
  next
    case False
    have "b * (- a div b) \<le> - a"
      using b mult_div_mod_eq [of b "- a"] pos_mod_sign [of b "- a"] by linarith
    then have "go_mod a b \<le> 0" using False b by (simp add: go_mod_def go_div_def)
    then show ?thesis using b by simp
  qed
qed

lemma pause_left_bounds: "0 \<le> pause_left c now" "0 \<le> ck_pause c \<Longrightarrow> pause_left c now \<le> ck_pause c"
  using go_mod_less [of "ck_pauseEvery c"] by (auto simp: pause_left_def into_period_def intro: less_imp_le)

lemma thawed_stall: "ck_frozenUntil c = None \<Longrightarrow> stall c now = pause_left c now"
  using pause_left_bounds(1) [of c now] by (simp add: stall_def freeze_left_def min_duration_def Let_def)

text \<open>A request that sleeps until the end of a pause is awake after it.\<close>

lemma pause_is_over:
  assumes "winding_down horizon s" "ms_now s \<le> horizon" "0 < stall (ms_clock s) (ms_now s)"
  shows "stall (ms_clock s) (ms_now s + stall (ms_clock s) (ms_now s)) \<le> 0"
proof -
  let ?c = "ms_clock s"
  have c: "ck_frozenUntil ?c = None" "0 \<le> ck_pause ?c" "0 \<le> ck_phase ?c" "ck_start ?c \<le> ms_now s"
      "horizon + ck_pause ?c - ck_start ?c + ck_phase ?c \<le> max_duration"
    using assms(1) by (simp_all add: winding_down_def clock_in_range_def)
  then have "0 < ck_pause ?c" "ck_pause ?c < ck_pauseEvery ?c"
    using assms(3) thawed_stall [OF c(1)] by (auto simp: pause_left_def split: if_splits)
  then have "clock_ok ?c" using c(3) by (simp add: clock_ok_def)
  moreover have "stall ?c (ms_now s) \<le> ck_pause ?c"
    using pause_left_bounds(2) [OF c(2)] thawed_stall [OF c(1)] by simp
  ultimately show ?thesis
    using runs_after_pause [of ?c "ms_now s"] c assms by simp
qed

text \<open>A request that can go on comes closer to its end, whatever it is told.\<close>

lemma wait_turn_closer:
  assumes "winding_down horizon s" "ms_now s \<le> horizon"
    and "\<not> (case timer of None \<Rightarrow> False | Some t \<Rightarrow> ms_now s < t)"
    and "wait_turn (ms_clock s) (ms_now s) gone timer = Inr t'"
  shows "wait_left (ms_clock s) (ms_now s) (Some t') < wait_left (ms_clock s) (ms_now s) timer"
proof -
  have stalled: "0 < stall (ms_clock s) (ms_now s)" "t' = ms_now s + stall (ms_clock s) (ms_now s)"
    using assms(3,4) by (auto simp: wait_turn_def Let_def split: option.splits if_splits)
  then have "wait_left (ms_clock s) (ms_now s) (Some t') = 0"
    using pause_is_over [OF assms(1,2)] by (simp add: wait_left_def)
  moreover have "wait_left (ms_clock s) (ms_now s) timer \<noteq> 0"
    using assms(3) stalled(1) by (auto simp: wait_left_def split: option.splits)
  ultimately show ?thesis by simp
qed

lemma closer_piece:
  assumes "winding_down horizon s" "ms_now s \<le> horizon" "can_go_on s p" "td_arrived t"
    and "mock_piece ex s p t = (s', p')"
  shows "pieces_left (length (drip_pieces (ms_body s))) (ms_clock s) (ms_now s) p'
       < pieces_left (length (drip_pieces (ms_body s))) (ms_clock s) (ms_now s) p"
proof (cases p)
  case (Arrived timer)
  then have up: "\<not> (case timer of None \<Rightarrow> False | Some t \<Rightarrow> ms_now s < t)"
    using assms(3) by (simp add: can_go_on_def asleep_def)
  show ?thesis
  proof (cases "wait_turn (ms_clock s) (ms_now s) (td_gone t) timer")
    case (Inr t')
    then show ?thesis
      using assms(5) Arrived wait_turn_closer [OF assms(1,2) up Inr] by (auto simp: take_in_def)
  qed (use assms(5) Arrived in \<open>auto simp: piece_defs Let_def split: bool.splits if_splits\<close>)
next
  case Reading
  then show ?thesis using assms(4,5) by (auto simp: begin_work_def split: prod.splits if_splits)
next
  case Hanging
  then show ?thesis using assms(1,5) by (auto simp: piece_defs winding_down_def Let_def split: if_splits)
next
  case (Working m ft timer)
  then show ?thesis
    using assms(3,5) by (auto simp: piece_defs sleep_turn_def can_go_on_def asleep_def wait_left_def Let_def
        split: option.splits bool.splits if_splits)
next
  case (Answering m ft timer)
  then have up: "\<not> (case timer of None \<Rightarrow> False | Some t \<Rightarrow> ms_now s < t)"
    using assms(3) by (simp add: can_go_on_def asleep_def)
  show ?thesis
  proof (cases "wait_turn (ms_clock s) (ms_now s) (td_gone t) timer")
    case (Inr t')
    then show ?thesis
      using assms(5) Answering wait_turn_closer [OF assms(1,2) up Inr] by (auto simp: end_stop_def)
  qed (use assms(5) Answering in \<open>auto simp: piece_defs Let_def split: bool.splits if_splits\<close>)
next
  case (Pausing over sent ps timer)
  then show ?thesis
    using assms(3,5) by (auto simp: piece_defs sleep_turn_def can_go_on_def asleep_def Let_def
        split: option.splits bool.splits if_splits)
next
  case Queued
  then show ?thesis using assms(3,5) by (auto simp: piece_defs can_go_on_def Let_def split: if_splits)
qed (use assms(3,5) in \<open>auto simp: piece_defs can_go_on_def Let_def split: if_splits list.splits\<close>)

lemma queue_needs_capacity:
  "mock_piece ex s p t = (s', Queued) \<Longrightarrow> p = Queued \<or> 0 < pf_capacity (ms_profile s)"
  by (induction ex s p t rule: mock_piece.induct)
    (auto simp: piece_defs begin_work_def Let_def split: prod.splits sum.splits bool.splits if_splits list.splits)

lemma sum_list_update_less:
  fixes f :: "'a \<Rightarrow> nat"
  shows "i < length xs \<Longrightarrow> f x < f (xs ! i) \<Longrightarrow> (\<Sum>y\<leftarrow>xs[i := x]. f y) < (\<Sum>y\<leftarrow>xs. f y)"
  by (induction xs arbitrary: i) (auto split: nat.split simp: less_Suc_eq_0_disj)

lemma tally_zero: "(\<And>p. p \<in> set ps \<Longrightarrow> \<not> P p) \<Longrightarrow> tally P ps = 0"
  by (induction ps) auto

text \<open>Some request can go on or sleeps: one that is queued finds a worker when none is held.\<close>

lemma some_request_goes_on:
  assumes "mock_inv (s, ps)" "Queued \<in> set ps \<longrightarrow> 0 < pf_capacity (ms_profile s)" "\<not> list_all is_done ps"
    and "\<not> list_ex (can_go_on s) ps"
  shows "timers s ps \<noteq> []"
proof
  assume "timers s ps = []"
  then have awake: "\<not> asleep (ms_now s) p" if "p \<in> set ps" for p
    using that by (auto simp: timers_def filter_empty_conv)
  have queued: "p = Queued" if "p \<in> set ps" "\<not> is_done p" for p
    using assms(4) awake [OF that(1)] that by (auto simp: list_ex_iff can_go_on_def)
  have "\<not> holds_worker p" if "p \<in> set ps" for p
    using queued [OF that] by (cases p) auto
  then have "tally holds_worker ps = 0" by (rule tally_zero)
  moreover obtain p where p: "p \<in> set ps" "\<not> is_done p" using assms(3) by (auto simp: list_all_iff)
  ultimately have "ms_slots s < pf_capacity (ms_profile s)"
    using assms(1,2) queued [OF p] by (auto simp: mock_inv_def)
  then have "can_go_on s p" using awake [OF p(1)] p(2) by (simp add: can_go_on_def)
  then show False using assms(4) p(1) by (auto simp: list_ex_iff)
qed

text \<open>When time passes to the next timer, no request is further from its end, and one more is awake.\<close>

lemma wait_left_passes: "now \<le> now' \<Longrightarrow> (\<And>t. timer = Some t \<Longrightarrow> now < t \<Longrightarrow> now' \<le> t) \<Longrightarrow>
    (\<And>t. timer = Some t \<Longrightarrow> now < t) \<Longrightarrow> wait_left c now' timer = wait_left c now timer"
  by (auto simp: wait_left_def split: option.splits)

lemma to_do_waits:
  assumes "\<not> list_ex (can_go_on s) ps" "timers s ps \<noteq> []" "now = Min (set (timers s ps))"
  shows "to_do (s\<lparr>ms_now := now\<rparr>) ps = to_do s ps" "ms_now s < now"
    "length (filter (asleep now) ps) < length (filter (asleep (ms_now s)) ps)"
proof -
  have least: "now \<le> t" if "p \<in> set ps" "timer_of p = Some t" "ms_now s < t" for p t
    unfolding assms(3) using that by (intro Min_le) (force simp: timers_def asleep_def)+
  have "now \<in> set (timers s ps)" unfolding assms(3) using assms(2) by (intro Min_in) auto
  then obtain q where q: "q \<in> set ps" "timer_of q = Some now" "ms_now s < now"
    by (auto simp: timers_def asleep_def split: option.splits)
  then show "ms_now s < now" by simp
  have future: "ms_now s < t" if "p \<in> set ps" "timer_of p = Some t" for p t
    using assms(1) that by (cases p) (auto simp: list_ex_iff can_go_on_def asleep_def)
  have same: "pieces_left b c now p = pieces_left b c (ms_now s) p" if "p \<in> set ps" for b c p
    using wait_left_passes [of "ms_now s" now "timer_of p" c] q(3) least [OF that] future [OF that]
    by (cases p) auto
  show "to_do (s\<lparr>ms_now := now\<rparr>) ps = to_do s ps"
    unfolding to_do_def using same by (simp cong: map_cong)
  have sub: "asleep now p \<Longrightarrow> asleep (ms_now s) p" for p
    using q(3) by (auto simp: asleep_def split: option.splits)
  have "asleep (ms_now s) q" "\<not> asleep now q" using q by (simp_all add: asleep_def)
  then have "length (filter (asleep now) (filter (asleep (ms_now s)) ps)) < length (filter (asleep (ms_now s)) ps)"
    using q(1) by (intro length_filter_less [of q]) auto
  moreover have "filter (asleep now) (filter (asleep (ms_now s)) ps) = filter (asleep now) ps"
    using sub by (auto intro!: filter_cong)
  ultimately show "length (filter (asleep now) ps) < length (filter (asleep (ms_now s)) ps)" by simp
qed

lemma winding_down_drains:
  assumes "mock_inv (s, ps)" "Queued \<in> set ps \<longrightarrow> 0 < pf_capacity (ms_profile s)" "winding_down horizon s"
  shows "drains ex horizon s ps"
  using assms
proof (induction "(to_do s ps, length (filter (asleep (ms_now s)) ps))" arbitrary: s ps
    rule: wf_induct_rule [OF wf_lex_prod [OF wf_less_than wf_less_than]])
  case 1
  note IH = 1(1) and prems = 1(2-4)
  consider "list_all is_done ps" | "horizon < ms_now s" | "list_ex (can_go_on s) ps" "ms_now s \<le> horizon"
    | "\<not> list_all is_done ps" "\<not> list_ex (can_go_on s) ps" by linarith
  then show ?case
  proof cases
    case 1
    then show ?thesis by (rule drained)
  next
    case 2
    then show ?thesis by (rule too_late)
  next
    case 3
    show ?thesis
    proof (rule went_on [OF 3(1)])
      fix i t s' p'
      assume i: "i < length ps" "can_go_on s (ps ! i)" and t: "td_arrived t"
        and piece: "mock_piece ex s (ps ! i) t = (s', p')"
      note kept = piece_keeps [OF piece]
      have less: "to_do s' (ps[i := p']) < to_do s ps"
        using closer_piece [OF prems(3) 3(2) i(2) t piece] kept i(1) by (simp add: to_do_def sum_list_update_less)
      have "Queued \<in> set (ps[i := p']) \<longrightarrow> 0 < pf_capacity (ms_profile s')"
        using set_update_subset_insert [of ps i p'] queue_needs_capacity [of ex s "ps ! i" t s'] piece prems(2) i(1) kept
        by (metis insert_iff nth_mem subsetD)
      moreover have "winding_down horizon s'" using prems(3) kept by (simp add: winding_down_def)
      ultimately show "drains ex horizon s' (ps[i := p'])"
        using less mock_inv_piece [OF prems(1) i(1) piece] by (intro IH) auto
    qed
  next
    case 4
    let ?now = "Min (set (timers s ps))"
    have some: "timers s ps \<noteq> []" using prems(1,2) 4 by (rule some_request_goes_on)
    note tick = to_do_waits [OF 4(2) some refl]
    show ?thesis
    proof (rule waited [OF 4(2) some], rule IH)
      show "((to_do (s\<lparr>ms_now := ?now\<rparr>) ps, length (filter (asleep (ms_now (s\<lparr>ms_now := ?now\<rparr>))) ps)),
          (to_do s ps, length (filter (asleep (ms_now s)) ps))) \<in> less_than <*lex*> less_than"
        using tick by simp
      show "mock_inv (s\<lparr>ms_now := ?now\<rparr>, ps)" using prems(1) by (auto simp: mock_inv_def)
      show "Queued \<in> set ps \<longrightarrow> 0 < pf_capacity (ms_profile (s\<lparr>ms_now := ?now\<rparr>))" using prems(2) by simp
      show "winding_down horizon (s\<lparr>ms_now := ?now\<rparr>)" using prems(3) tick(2) by (simp add: winding_down_def)
    qed
  qed
qed

lemma queued_capacity_reach:
  "mock_reach ex pf s0 a \<Longrightarrow> Queued \<in> set (snd a) \<longrightarrow> 0 < pf_capacity (ms_profile (fst a))"
proof (induction rule: mock_reach.induct)
  case (Step a b)
  from Step.hyps(2) show ?case
  proof (cases rule: mock_step.cases)
    case (Piece i ps s t s' p')
    have "Queued \<in> set ps \<or> 0 < pf_capacity (ms_profile s)" if "p' = Queued"
      using queue_needs_capacity [of ex s "ps ! i" t s'] Piece that by (metis nth_mem)
    then show ?thesis
      using Piece Step.IH set_update_subset_insert [of ps i p'] piece_keeps [OF Piece(4)] by auto
  qed (use Step.IH in \<open>auto simp: clearFaults_def clearCache_def shut_down_def stop_def dest: injectFault_frame\<close>)
qed simp

text \<open>
  C16: When a mock backend shuts down, every request in flight comes to an end, in whatever order they go
  on, whatever the clients do and whatever numbers are drawn: those that hang are let go, those that are
  served finish, those that are queued get a worker, and those asleep, in their service time, between two
  pieces of an answer, in a pause or in a freeze, go on when they wake. It is assumed that a client whose
  request is still being read sends the rest of it or leaves, that time passes only while no request can
  go on, and that the pauses' clock has not run out by \<open>horizon\<close> (292 years after the start).
\<close>

lemma shutdown_drains:
  assumes "mock_reach ex pf (newServer lg p u now) (s, ps)" "profile_ok p"
    and "ck_start (ms_clock s) \<le> ms_now s" "clock_in_range (ms_clock s) horizon"
  shows "drains ex horizon (shut_down s) ps"
proof (rule winding_down_drains)
  show "mock_inv (shut_down s, ps)"
    using mock_inv_reach [OF assms(1) mock_inv_start [OF assms(2)]]
    by (auto simp: mock_inv_def shut_down_def stop_def Let_def)
  show "Queued \<in> set ps \<longrightarrow> 0 < pf_capacity (ms_profile (shut_down s))"
    using queued_capacity_reach [OF assms(1)] by (simp add: shut_down_def stop_def Let_def)
  show "winding_down horizon (shut_down s)"
    using assms(3,4) by (simp add: winding_down_def clock_in_range_def shut_down_def stop_def thaw_def Let_def)
qed

lemma shutdown_drains_witness: "drains (\<lambda>_. 0) 1000000 (shut_down (fst ex_busy)) [Reading, Queued]"
proof -
  have run: "mock_reach (\<lambda>_. 0) (\<lambda>_. None) (newServer (\<lambda>x. x) ex_profile 0 0) (fst ex_busy, snd ex_busy)"
    using ex_mock_run by (simp add: ex_server_def [symmetric])
  have fields: "ck_start (ms_clock (fst ex_busy)) \<le> ms_now (fst ex_busy)" "snd ex_busy = [Reading, Queued]"
    "clock_in_range (ms_clock (fst ex_busy)) 1000000"
    by (simp_all add: ex_busy_def ex_server_def newServer_def newClock_def ex_profile_def clock_in_range_def max_duration_def Let_def)
  show ?thesis
    using shutdown_drains [OF run ex_profile_ok fields(1,3)] fields(2) by simp
qed

text \<open>
  What the assumptions stand for: a request that sleeps stays as it is before its timer while its client
  waits, and one whose body does not end holds its worker, and the shutdown, for as long.
\<close>

lemma sleeper_is_not_drained:
  "ms_now s < t \<Longrightarrow> \<not> td_gone told \<Longrightarrow> mock_piece ex (shut_down s) (Arrived (Some t)) told = (shut_down s, Arrived (Some t))"
  by (rule thaw_wakes_nobody(2)) simp_all

lemma unsent_body_holds_the_worker:
  "\<not> td_arrived told \<Longrightarrow> mock_piece ex (shut_down s) Reading told = (shut_down s, Reading)"
  by (simp add: begin_work_def)

end
