(* ===== verification/Mock_Metrics.thy ===== *)
theory Mock_Metrics
  imports Mock_Process Load_Counters
begin

text \<open>
  The exposition of \<open>cmd/mockbackend/metrics.go\<close>, byte by byte: what the admin port answers to
  \<open>/metrics\<close>, in the Prometheus text format. \<open>strconv.FormatFloat\<close> is an argument. \<open>reads pf e xs\<close>
  says that the text built so far is whole lines, and that a reader finds the samples \<open>xs\<close> in it. The
  lemmas: each operation of the builder keeps \<open>reads\<close>, so the text a scrape gets says exactly what the
  backend counted, to a reader like the load generator's.
\<close>

subsection \<open>The builder\<close>

record exposition =
  xp_text :: string
  xp_name :: string

definition no_exposition :: exposition where
  "no_exposition = \<lparr>xp_text = [], xp_name = []\<rparr>"

definition family :: "exposition \<Rightarrow> string \<Rightarrow> string \<Rightarrow> string \<Rightarrow> exposition" where
  "family e name kind about =
     e\<lparr>xp_name := name,
       xp_text := xp_text e @ ''# HELP '' @ name @ '' '' @ about @ newline @ ''# TYPE '' @ name @ '' '' @ kind @ newline\<rparr>"

text \<open>\<open>%q\<close> of a value without characters to escape, as every label value here is.\<close>

definition quoted :: "string \<Rightarrow> string" where "quoted v = quote # v @ [quote]"

definition series :: "string \<Rightarrow> string \<Rightarrow> string \<Rightarrow> string" where
  "series name label v = (if label = [] then name else name @ ''{'' @ label @ ''='' @ quoted v @ ''}'')"

definition sample :: "(float64 \<Rightarrow> string) \<Rightarrow> exposition \<Rightarrow> string \<Rightarrow> string \<Rightarrow> float64 \<Rightarrow> exposition" where
  "sample FormatFloat e label v x =
     e\<lparr>xp_text := xp_text e @ series (xp_name e) label v @ '' '' @ FormatFloat x @ newline\<rparr>"

definition boolean :: "bool \<Rightarrow> float64" where
  "boolean b = (if b then 1 else 0)"

text \<open>A loop that adds a sample for each value of a label.\<close>

definition sample_each ::
  "(float64 \<Rightarrow> string) \<Rightarrow> string \<Rightarrow> (string \<Rightarrow> float64) \<Rightarrow> string list \<Rightarrow> exposition \<Rightarrow> exposition" where
  "sample_each ff label x vs e = foldl (\<lambda>out v. sample ff out label v (x v)) e vs"

definition metrics_text :: "(float64 \<Rightarrow> string) \<Rightarrow> server \<Rightarrow> string" where
  "metrics_text ff s =
     (let out = family no_exposition ''mock_requests_total'' ''counter'' ''Requests, by what the backend did with them.'';
          out = sample_each ff ''outcome'' (\<lambda>o'. float_of (ct_outcomes (ms_counts s) o')) outcomes out;
          out = family out ''mock_cache_requests_total'' ''counter''
                  ''Requests naming a session, by whether the backend remembered it.'';
          out = sample_each ff ''result'' (\<lambda>r. float_of (ct_cache (ms_counts s) r)) [''hit'', ''miss''] out;
          out = family out ''mock_faults_injected_total'' ''counter'' ''Faults injected through the admin port, by mode.'';
          out = sample_each ff ''mode'' (\<lambda>m. float_of (ct_injected (ms_counts s) m)) modes out;
          inForce = map af_mode (active (ms_faults s) (ms_now s));
          out = family out ''mock_fault_in_force'' ''gauge''
                  ''1 while a fault injected through the admin port is in force, by mode.'';
          out = sample_each ff ''mode'' (\<lambda>m. boolean (m \<in> set inForce)) modes out;
          out = family out ''mock_cache_keys'' ''gauge'' ''Sessions the backend remembers.'';
          out = sample ff out [] [] (float_of (int (cache_keys s)));
          out = family out ''mock_busy_workers'' ''gauge'' ''Requests being served.'';
          out = sample ff out [] [] (float_of (ms_busy s));
          out = family out ''mock_capacity'' ''gauge'' ''Requests the backend serves at once; 0 for no limit.'';
          out = sample ff out [] [] (float_of (pf_capacity (ms_profile s)));
          out = family out ''mock_waiting'' ''gauge'' ''Requests queued for a worker.'';
          out = sample ff out [] [] (float_of (ms_waiting s));
          out = family out ''mock_cold_factor'' ''gauge''
                  ''How many times slower than normal a cold start makes the backend; 1 once warm.'';
          out = sample ff out [] [] (clock_factor (ms_clock s) (ms_now s))
      in xp_text out)"

subsection \<open>A reader\<close>

text \<open>A line is a comment or a sample, its name and its number separated by the last blank.\<close>

definition reading :: "(string \<Rightarrow> float64 option) \<Rightarrow> string \<Rightarrow> (string \<times> float64) option" where
  "reading pf line = (if prefix ''#'' line then None else splitSample pf line)"

definition readings :: "(string \<Rightarrow> float64 option) \<Rightarrow> string \<Rightarrow> (string \<times> float64) list" where
  "readings pf t = List.map_filter (reading pf) (split_byte CHR 0x0A t)"

definition label_of_family :: "string \<Rightarrow> string" where
  "label_of_family name =
     (if name = ''mock_requests_total'' then ''outcome''
      else if name = ''mock_cache_requests_total'' then ''result''
      else if name \<in> {''mock_faults_injected_total'', ''mock_fault_in_force''} then ''mode'' else [])"

definition numbers_read_back :: "(float64 \<Rightarrow> string) \<Rightarrow> (string \<Rightarrow> float64 option) \<Rightarrow> float64 \<Rightarrow> bool" where
  "numbers_read_back ff pf x \<longleftrightarrow> pf (ff x) = Some x \<and> CHR '' '' \<notin> set (ff x) \<and> CHR 0x0A \<notin> set (ff x)"

definition clean :: "string \<Rightarrow> bool" where "clean s \<longleftrightarrow> CHR 0x0A \<notin> set s"

definition reads :: "(string \<Rightarrow> float64 option) \<Rightarrow> exposition \<Rightarrow> (string \<times> float64) list \<Rightarrow> bool" where
  "reads pf e xs \<longleftrightarrow>
     (\<exists>ls. xp_text e = concat (map (\<lambda>l. l @ newline) ls) \<and> list_all clean ls \<and> List.map_filter (reading pf) ls = xs)"

lemma map_filter_snoc: "List.map_filter f (xs @ [x]) = List.map_filter f xs @ (case f x of None \<Rightarrow> [] | Some y \<Rightarrow> [y])"
  by (cases "f x") (simp_all add: List.map_filter_def)

lemma reads_line:
  assumes "reads pf e xs" "clean l" "xp_text e' = xp_text e @ l @ newline"
  shows "reads pf e' (xs @ (case reading pf l of None \<Rightarrow> [] | Some x \<Rightarrow> [x]))"
proof -
  obtain ls where "xp_text e = concat (map (\<lambda>l. l @ newline) ls)" "list_all clean ls" "List.map_filter (reading pf) ls = xs"
    using assms(1) by (auto simp: reads_def)
  then show ?thesis
    using assms(2,3) unfolding reads_def by (intro exI [of _ "ls @ [l]"]) (simp add: map_filter_snoc)
qed

lemma reads_nothing: "reads pf no_exposition []"
  unfolding reads_def by (intro exI [of _ "[]"]) (simp add: no_exposition_def List.map_filter_def)

lemma reads_family:
  assumes "reads pf e xs" "clean name" "clean kind" "clean about"
  shows "reads pf (family e name kind about) xs"
proof -
  let ?about = "''# HELP '' @ name @ '' '' @ about" and ?type = "''# TYPE '' @ name @ '' '' @ kind"
  have "reads pf (e\<lparr>xp_text := xp_text e @ ?about @ newline\<rparr>) xs"
    using reads_line [OF assms(1), of ?about "e\<lparr>xp_text := xp_text e @ ?about @ newline\<rparr>"] assms(2,4)
    by (simp add: reading_def clean_def)
  then show ?thesis
    using reads_line [of pf "e\<lparr>xp_text := xp_text e @ ?about @ newline\<rparr>" xs ?type "family e name kind about"] assms(2,3)
    by (simp add: reading_def clean_def family_def)
qed

lemma splitSample_reads:
  "numbers_read_back ff pf x \<Longrightarrow> splitSample pf (name @ '' '' @ ff x) = Some (name, x)"
  using last_index_byte_append [of "CHR '' ''" "ff x" name] by (simp add: splitSample_def numbers_read_back_def)

lemma reads_sample:
  assumes "reads pf e xs" "numbers_read_back ff pf x" "clean (series (xp_name e) label v)"
    and "\<not> prefix ''#'' (series (xp_name e) label v)" "xp_name e \<noteq> []"
  shows "reads pf (sample ff e label v x) (xs @ [(series (xp_name e) label v, x)])"
proof -
  let ?n = "series (xp_name e) label v"
  have "?n \<noteq> []" using assms(5) by (simp add: series_def)
  then have "\<not> prefix ''#'' (?n @ '' '' @ ff x)" using assms(4) by (cases ?n) auto
  then have "reading pf (?n @ '' '' @ ff x) = Some (?n, x)"
    using splitSample_reads [OF assms(2), of ?n] by (simp add: reading_def)
  then show ?thesis
    using reads_line [OF assms(1), of "?n @ '' '' @ ff x" "sample ff e label v x"] assms(2,3)
    by (simp add: sample_def clean_def numbers_read_back_def)
qed

lemma xp_name_simps [simp]:
  "xp_name (family e name kind about) = name" "xp_name (sample ff e label v x) = xp_name e"
  "xp_name (sample_each ff label g vs e) = xp_name e"
proof -
  show "xp_name (sample_each ff label g vs e) = xp_name e"
    by (induction vs arbitrary: e) (simp_all add: sample_each_def sample_def)
qed (simp_all add: family_def sample_def)

text \<open>A family's name and its label values are words.\<close>

definition word_like :: "string \<Rightarrow> bool" where
  "word_like s \<longleftrightarrow> clean s \<and> \<not> prefix ''#'' s"

lemma word_series:
  "word_like name \<Longrightarrow> clean label \<Longrightarrow> clean v \<Longrightarrow> name \<noteq> [] \<Longrightarrow> word_like (series name label v)"
  by (cases name) (auto simp: word_like_def clean_def series_def quoted_def quote_def)

lemma reads_sample_each:
  assumes "reads pf e xs" "word_like (xp_name e)" "xp_name e \<noteq> []" "clean label" "list_all clean vs"
    and "list_all (\<lambda>v. numbers_read_back ff pf (g v)) vs"
  shows "reads pf (sample_each ff label g vs e) (xs @ map (\<lambda>v. (series (xp_name e) label v, g v)) vs)"
  using assms
proof (induction vs arbitrary: e xs)
  case (Cons v vs)
  have "word_like (series (xp_name e) label v)" using Cons.prems by (intro word_series) simp_all
  then have "reads pf (sample ff e label v (g v)) (xs @ [(series (xp_name e) label v, g v)])"
    using Cons.prems by (intro reads_sample) (simp_all add: word_like_def)
  from Cons.IH [OF this] show ?case using Cons.prems by (simp add: sample_each_def)
qed (simp add: sample_each_def)

lemma split_lines:
  "list_all clean ls \<Longrightarrow> split_byte CHR 0x0A (concat (map (\<lambda>l. l @ newline) ls)) = ls @ [[]]"
  by (induction ls) (simp_all add: clean_def newline_def split_byte_append)

lemma readings_of: "reads pf e xs \<Longrightarrow> readings pf (xp_text e) = xs"
  by (auto simp: reads_def readings_def split_lines map_filter_snoc reading_def splitSample_def last_index_byte_def)

subsection \<open>What a scrape reads\<close>

lemma reads_counters:
  assumes "reads pf e xs" "word_like name" "name \<noteq> []" "clean kind" "clean about" "clean label" "list_all clean vs"
    and "list_all (\<lambda>v. numbers_read_back ff pf (g v)) vs"
  shows "reads pf (sample_each ff label g vs (family e name kind about)) (xs @ map (\<lambda>v. (series name label v, g v)) vs)"
  using reads_sample_each [of pf "family e name kind about" xs label vs ff g] assms
  by (simp add: reads_family word_like_def)

lemma reads_gauge:
  assumes "reads pf e xs" "word_like name" "name \<noteq> []" "clean kind" "clean about" "numbers_read_back ff pf x"
  shows "reads pf (sample ff (family e name kind about) [] [] x) (xs @ [(series name [] [], x)])"
  using reads_sample [of pf "family e name kind about" xs ff x "[]" "[]"] assms
  by (simp add: reads_family word_like_def series_def)

lemma clean_simps [simp]: "clean []" "clean (c # s) \<longleftrightarrow> c \<noteq> CHR 0x0A \<and> clean s"
  by (auto simp: clean_def)

lemma label_values_clean: "list_all clean outcomes" "list_all clean modes"
  by (simp_all add: outcomes_def outcome_defs modes_def mode_defs)

text \<open>
  C17: A scrape of a mock backend gives back every one of its counters and gauges: splitting each line of
  the text at its last blank, comments left out, as the load generator does, reads exactly the values the
  backend holds, each under its family's name and label, in their order. What is asked of the numbers is
  that each reads back as it was written, without a blank.
\<close>

lemma metrics_read_back:
  assumes "\<forall>(n, v, x) \<in> set (mock_metrics s). numbers_read_back ff pf x"
  shows "readings pf (metrics_text ff s) = map (\<lambda>(n, v, x). (series n (label_of_family n) v, x)) (mock_metrics s)"
proof -
  let ?c = "ms_counts s" and ?in = "\<lambda>m. boolean (m \<in> set (map af_mode (active (ms_faults s) (ms_now s))))"
  have all: "list_all (\<lambda>(n, v, x). numbers_read_back ff pf x) (mock_metrics s)"
    using assms by (simp add: list_all_iff)
  have good: "list_all (\<lambda>v. numbers_read_back ff pf (float_of (ct_outcomes ?c v))) outcomes"
    "list_all (\<lambda>v. numbers_read_back ff pf (float_of (ct_cache ?c v))) [''hit'', ''miss'']"
    "list_all (\<lambda>v. numbers_read_back ff pf (float_of (ct_injected ?c v))) modes"
    "list_all (\<lambda>v. numbers_read_back ff pf (?in v)) modes"
    "numbers_read_back ff pf (float_of (int (cache_keys s)))" "numbers_read_back ff pf (float_of (ms_busy s))"
    "numbers_read_back ff pf (float_of (pf_capacity (ms_profile s)))" "numbers_read_back ff pf (float_of (ms_waiting s))"
    "numbers_read_back ff pf (clock_factor (ms_clock s) (ms_now s))"
    using all by (simp_all add: mock_metrics_def list.pred_map comp_def Let_def boolean_def [symmetric])
  have "\<exists>out. metrics_text ff s = xp_text out \<and> reads pf out
     ((((((((([] @ map (\<lambda>v. (series ''mock_requests_total'' ''outcome'' v, float_of (ct_outcomes ?c v))) outcomes)
       @ map (\<lambda>v. (series ''mock_cache_requests_total'' ''result'' v, float_of (ct_cache ?c v))) [''hit'', ''miss''])
       @ map (\<lambda>v. (series ''mock_faults_injected_total'' ''mode'' v, float_of (ct_injected ?c v))) modes)
       @ map (\<lambda>v. (series ''mock_fault_in_force'' ''mode'' v, ?in v)) modes)
       @ [(series ''mock_cache_keys'' [] [], float_of (int (cache_keys s)))])
       @ [(series ''mock_busy_workers'' [] [], float_of (ms_busy s))])
       @ [(series ''mock_capacity'' [] [], float_of (pf_capacity (ms_profile s)))])
       @ [(series ''mock_waiting'' [] [], float_of (ms_waiting s))])
       @ [(series ''mock_cold_factor'' [] [], clock_factor (ms_clock s) (ms_now s))])"
    unfolding metrics_text_def Let_def
    by (intro exI conjI, rule refl, intro reads_counters reads_gauge reads_nothing good label_values_clean)
      (simp_all add: word_like_def)
  then obtain out where out: "metrics_text ff s = xp_text out" "reads pf out
      (map (\<lambda>(n, v, x). (series n (label_of_family n) v, x)) (mock_metrics s))"
    by (auto simp: mock_metrics_def label_of_family_def boolean_def Let_def comp_def)
  show ?thesis unfolding out(1) by (rule readings_of [OF out(2)])
qed

definition ex_format :: "float64 \<Rightarrow> string" where
  "ex_format x = (if x = 0 then ''0'' else ''1'')"

definition ex_parse :: "string \<Rightarrow> float64 option" where
  "ex_parse t = (if t = ''0'' then Some 0 else if t = ''1'' then Some 1 else None)"

lemma metrics_read_back_witness:
  "(''mock_requests_total{outcome='' @ quoted ''hang'' @ ''}'', 0) \<in> set (readings ex_parse (metrics_text ex_format ex_server))
     \<and> (''mock_capacity'', 1) \<in> set (readings ex_parse (metrics_text ex_format ex_server))"
proof -
  have one: "float_of 1 = 1" "float_of 0 = 0" using f64_of_int [of 1] by (simp_all add: float_of_def float_of_int_def float64_arith)
  have "numbers_read_back ex_format ex_parse 0" "numbers_read_back ex_format ex_parse 1"
    by (simp_all add: numbers_read_back_def ex_format_def ex_parse_def float64_arith)
  moreover have "x = 0 \<or> x = 1" if "(n, v, x) \<in> set (mock_metrics ex_server)" for n v x
    using that one
    by (auto simp: mock_metrics_def ex_server_def newServer_def newCounts_def newClock_def ex_profile_def cache_keys_def
        clock_factor_def Let_def split: if_splits)
  ultimately have "\<forall>(n, v, x) \<in> set (mock_metrics ex_server). numbers_read_back ex_format ex_parse x" by blast
  note all = metrics_read_back [OF this]
  have "(''mock_requests_total'', ''hang'', 0) \<in> set (mock_metrics ex_server)" "(''mock_capacity'', [], 1) \<in> set (mock_metrics ex_server)"
    using one by (auto simp: mock_metrics_def outcomes_def mode_defs ex_server_def newServer_def newCounts_def ex_profile_def Let_def)
  then show ?thesis unfolding all by (force simp: label_of_family_def series_def image_iff)
qed

end
