(* ===== verification/Mock_Admin.thy ===== *)
theory Mock_Admin
  imports Demo_Wire Mock_Metrics
begin

text \<open>
  The mock backend's admin port (\<open>adminHandler\<close> of \<open>cmd/mockbackend/admin.go\<close>): which handler a request
  reaches, by the patterns of \<open>http.ServeMux\<close> (one with a method is for that method alone, \<open>GET\<close> for
  \<open>HEAD\<close> as well), and what each of its operations answers. A path is as the multiplexer has cleaned it.
  The lemmas: every operation keeps the server's accounts, a refused request changes nothing, and what the
  demo console sends is what the backend carries out.
\<close>

datatype admin_route = ListFaults | InjectFault | ClearFaults | ClearCache | MetricsText

datatype 'r routed = Routed 'r | WrongMethod | NoRoute

definition reads_only :: "string \<Rightarrow> bool" where
  "reads_only verb \<longleftrightarrow> verb = ''GET'' \<or> verb = ''HEAD''"

definition mock_admin_route :: "string \<Rightarrow> string \<Rightarrow> admin_route routed" where
  "mock_admin_route verb path =
     (if path = ''/faults'' then
        (if reads_only verb then Routed ListFaults
         else if verb = ''POST'' then Routed InjectFault
         else if verb = ''DELETE'' then Routed ClearFaults
         else WrongMethod)
      else if path = ''/cache/clear'' then (if verb = ''POST'' then Routed ClearCache else WrongMethod)
      else if path = ''/metrics'' then (if reads_only verb then Routed MetricsText else WrongMethod)
      else NoRoute)"

datatype admin_reply = StateReply mock_state | TextReply string | BadRequest "injection_error option" | MethodNotAllowed | NotFound

definition writeState :: "server \<Rightarrow> admin_reply \<times> server" where
  "writeState s = (StateReply (server_state s), s)"

definition admin_serve ::
  "(string \<Rightarrow> float64 option) \<Rightarrow> (float64 \<Rightarrow> string) \<Rightarrow> string \<Rightarrow> admin_request \<Rightarrow> server \<Rightarrow> admin_reply \<times> server" where
  "admin_serve pf ff path r s =
     (case mock_admin_route (ar_method r) path of
        Routed ListFaults \<Rightarrow> writeState s
      | Routed InjectFault \<Rightarrow>
          (case serve_injection pf s r of
             (Inr _, s') \<Rightarrow> (BadRequest None, s')
           | (Inl (Some e), s') \<Rightarrow> (BadRequest (Some e), s')
           | (Inl None, s') \<Rightarrow> writeState s')
      | Routed ClearFaults \<Rightarrow> writeState (clearFaults s)
      | Routed ClearCache \<Rightarrow> writeState (clearCache s)
      | Routed MetricsText \<Rightarrow> (TextReply (metrics_text ff s), s)
      | WrongMethod \<Rightarrow> (MethodNotAllowed, s)
      | NoRoute \<Rightarrow> (NotFound, s))"

text \<open>Only what is posted or deleted changes anything.\<close>

lemma admin_reads_change_nothing: "reads_only (ar_method r) \<Longrightarrow> snd (admin_serve pf ff path r s) = s"
  by (auto simp: admin_serve_def mock_admin_route_def reads_only_def writeState_def)

lemma refused_injection_changes_nothing:
  "injectFault pf s form = (Some e, s') \<Longrightarrow> s' = s"
  by (auto simp: injectFault_def Let_def split: sum.splits prod.splits if_splits)

text \<open>A refused request changes nothing.\<close>

lemma refused_admin_changes_nothing:
  "admin_serve pf ff path r s = (BadRequest e, s') \<Longrightarrow> s' = s"
  by (auto simp: admin_serve_def serve_injection_def writeState_def dest: refused_injection_changes_nothing
      split: routed.splits admin_route.splits prod.splits sum.splits option.splits bool.splits)

text \<open>The admin port is among the steps the server's accounts are proved for: what it does is one of them, or nothing.\<close>

lemma admin_serve_is_a_step:
  assumes "admin_serve pf ff path r s = (reply, s')"
  shows "s' = s \<or> mock_step ex pf (s, ps) (s', ps)"
proof (cases "mock_admin_route (ar_method r) path")
  case (Routed op)
  show ?thesis
  proof (cases op)
    case InjectFault
    obtain form bad where form: "ParseForm r = (form, bad)" by fastforce
    obtain e s1 where inj: "injectFault pf s (form_value form) = (e, s1)" by fastforce
    have "s' = s \<or> s' = s1"
      using assms Routed InjectFault form inj
      by (cases bad; cases e) (auto simp: admin_serve_def serve_injection_def writeState_def)
    then show ?thesis using Inject [OF inj] by blast
  next
    case ClearFaults
    then show ?thesis using assms Routed by (auto simp: admin_serve_def writeState_def intro: mock_step.ClearFaults)
  next
    case ClearCache
    then show ?thesis using assms Routed by (auto simp: admin_serve_def writeState_def intro: mock_step.ClearCache)
  qed (use assms Routed in \<open>auto simp: admin_serve_def writeState_def\<close>)
qed (use assms in \<open>auto simp: admin_serve_def\<close>)

lemma admin_keeps_accounts:
  "mock_inv (s, ps) \<Longrightarrow> mock_inv (snd (admin_serve pf ff path r s), ps)"
  using admin_serve_is_a_step [of pf ff path r s _ _ "\<lambda>_. 0" ps] mock_inv_step
  by (metis prod.collapse)

subsection \<open>An exchange with the console\<close>

fun reply_code :: "admin_reply \<Rightarrow> int" where
  "reply_code (StateReply st) = 200"
| "reply_code (TextReply t) = 200"
| "reply_code (BadRequest e) = 400"
| "reply_code MethodNotAllowed = 405"
| "reply_code NotFound = 404"

text \<open>
  A request to the port that listens at \<open>base\<close>, and the answer as its client sees it; \<open>words\<close> gives the
  status line and the body.
\<close>

definition admin_exchange ::
  "(string \<Rightarrow> float64 option) \<Rightarrow> (float64 \<Rightarrow> string) \<Rightarrow> string \<Rightarrow> admin_request \<Rightarrow> server \<Rightarrow> admin_reply \<times> server" where
  "admin_exchange pf ff base r s =
     (case cut_prefix (ar_target r) base of
        None \<Rightarrow> (NotFound, s)
      | Some path \<Rightarrow> admin_serve pf ff path r s)"

definition reply_answer :: "(admin_reply \<Rightarrow> string \<times> string) \<Rightarrow> admin_reply \<Rightarrow> admin_answer" where
  "reply_answer words reply = AnsweredWith (reply_code reply) (fst (words reply)) (snd (words reply))"

lemma result_of_reply: "admin_result r (reply_answer words reply) = None \<longleftrightarrow> reply_code reply = 200"
  by (simp add: admin_result_def reply_answer_def)

lemma accepted_result [simp]: "admin_result r (reply_answer words (StateReply st)) = None"
  by (simp add: result_of_reply)

lemma fault_is_posted:
  assumes "length (Encode (fault_values kind amount lasts)) \<le> max_form"
  shows "admin_exchange pf ff base (admin_post ''POST'' (base @ ''/faults'') (Some (fault_values kind amount lasts))) s
    = (case injectFault pf s (faultForm kind amount lasts) of
         (None, s') \<Rightarrow> (StateReply (server_state s'), s')
       | (Some e, s') \<Rightarrow> (BadRequest (Some e), s'))"
proof -
  have "cut_prefix (base @ ''/faults'') base = Some ''/faults''" by (simp add: cut_prefix_def)
  then show ?thesis
    using posted_fault_is_injected [OF assms, of pf s]
    by (simp add: admin_exchange_def admin_serve_def mock_admin_route_def reads_only_def admin_post_def
        writeState_def split: prod.split option.split)
qed

lemma clearing_is_sent:
  "admin_exchange pf ff base (admin_post ''DELETE'' (base @ ''/faults'') None) s
    = (StateReply (server_state (clearFaults s)), clearFaults s)"
  by (simp add: admin_exchange_def admin_serve_def mock_admin_route_def reads_only_def admin_post_def
      writeState_def cut_prefix_def)

text \<open>
  C18: A fault travels from the console to the backend: the request the console makes (its method, its
  target, the type it declares and the form, whatever bytes were typed for the strength, separators,
  percent signs and bytes that are no text included) reaches, at the backend's admin port, the operation
  that starts faults, which reads from it exactly the fault that was asked for; and the console takes the
  answer for a success exactly when the backend has started the fault. The form may not be larger than the
  ten megabytes \<open>ParseForm\<close> reads.
\<close>

lemma fault_survives_the_wire:
  assumes "length (Encode (fault_values kind amount lasts)) \<le> max_form"
    and "request = admin_post ''POST'' (base @ ''/faults'') (Some (fault_values kind amount lasts))"
    and "admin_exchange pf ff base request s = (reply, s')"
  shows "s' = snd (injectFault pf s (faultForm kind amount lasts))
    \<and> (admin_result request (reply_answer words reply) = None
         \<longleftrightarrow> fst (injectFault pf s (faultForm kind amount lasts)) = None)"
  using assms(3) fault_is_posted [OF assms(1), of pf ff base s] unfolding assms(2) result_of_reply
  by (auto split: prod.splits option.splits)

definition ex_fault_request :: admin_request where
  "ex_fault_request =
     admin_post ''POST'' (''http://127.0.0.1:5781'' @ ''/faults'') (Some (fault_values (faultKinds ! 5) [] 0))"

definition ex_fault_exchange :: "admin_reply \<times> server" where
  "ex_fault_exchange = admin_exchange (\<lambda>_. None) (\<lambda>_. []) ''http://127.0.0.1:5781'' ex_fault_request ex_server"

lemma fault_survives_the_wire_witness:
  "snd ex_fault_exchange = snd (injectFault (\<lambda>_. None) ex_server (faultForm (faultKinds ! 5) [] 0))"
proof -
  have "Duration_String 0 = ''0s''" by (simp add: Duration_String_def body_of_def second_def)
  then have "fault_values (faultKinds ! 5) [] 0 = [(''mode'', ''freeze''), (''for'', ''0s'')]"
    by (simp add: fault_values_def faultKinds_def)
  moreover have "Encode [(''mode'', ''freeze''), (''for'', ''0s'')] = ''for=0s&mode=freeze''" by code_simp
  ultimately have "length (Encode (fault_values (faultKinds ! 5) [] 0)) \<le> max_form" by (simp add: max_form_def)
  from fault_survives_the_wire [OF this ex_fault_request_def] show ?thesis
    unfolding ex_fault_exchange_def by (metis prod.collapse)
qed

end
