(* ===== verification/Demo_Session.thy ===== *)
theory Demo_Session
  imports Mock_Admin
begin

text \<open>
  \<open>cmd/demo\<close> as a session: what the console makes of the balancer's status (\<open>environment.go\<close>), how it
  rewrites the configuration and waits for the reload (\<open>applyConfig\<close>, \<open>reload\<close>, \<open>restore\<close>), the actions of
  the menu on the file, the stream of traffic, the book of faults and the mock backends themselves, and the
  menu loop (\<open>main.go\<close>). The backends are the servers of \<open>Mock_Server\<close>, by the base of their admin port,
  and take and drop faults as \<open>Mock_Admin\<close> has it; what they do meanwhile for their clients starts and
  ends no fault, and is left out. What the file system, Docker, the balancer and the network answer is an
  argument. The lemmas: the rate limit demonstration gives the file back byte for byte, leaving restores
  what the session found and ends the faults it started, and a reload that is reported as confirmed was
  counted, if the balancer could be asked before.
\<close>

subsection \<open>The balancer's status\<close>

record entry =
  en_addr :: string
  en_weight :: int
  en_healthy :: bool
  en_active :: int

record console_status =
  cs_algorithm :: string
  cs_sticky :: string
  cs_reloads :: int
  cs_healthy :: int
  cs_total :: int
  cs_backends :: "entry list"

definition no_status :: console_status where
  "no_status = \<lparr>cs_algorithm = [], cs_sticky = [], cs_reloads = 0, cs_healthy = 0, cs_total = 0, cs_backends = []\<rparr>"

definition mustStatus :: "console_status option \<Rightarrow> console_status" where
  "mustStatus answered = (case answered of None \<Rightarrow> no_status | Some st \<Rightarrow> st)"

definition service_names :: "console_status \<Rightarrow> string list" where
  "service_names st = services (map en_addr (cs_backends st))"

datatype ready_error = Interrupted | NotInTime

text \<open>The polls made before the deadline: what the balancer answered, and whether the context ended in the wait.\<close>

fun awaitReady :: "(console_status option \<times> bool) list \<Rightarrow> ready_error + console_status" where
  "awaitReady [] = Inl NotInTime"
| "awaitReady ((answered, cancelled) # polls) =
     (let wait = (if cancelled then Inl Interrupted else awaitReady polls)
      in case answered of
           None \<Rightarrow> wait
         | Some st \<Rightarrow> if cs_total st > 0 \<and> cs_healthy st = cs_total st then Inr st else wait)"

lemma ready_is_healthy: "awaitReady polls = Inr st \<Longrightarrow> cs_total st > 0 \<and> cs_healthy st = cs_total st"
  by (induction polls) (auto simp: Let_def split: option.splits if_splits)

datatype reload_result = SignalFailed | Reloaded console_status | NotConfirmed

fun await_reload :: "int \<Rightarrow> console_status option list \<Rightarrow> reload_result" where
  "await_reload applied [] = NotConfirmed"
| "await_reload applied (answered # polls) =
     (case answered of
        None \<Rightarrow> await_reload applied polls
      | Some st \<Rightarrow> if cs_reloads st > applied then Reloaded st else await_reload applied polls)"

text \<open>\<open>polls\<close> are the balancer's answers until five seconds after the signal.\<close>

definition console_reload :: "console_status option \<Rightarrow> bool \<Rightarrow> console_status option list \<Rightarrow> reload_result" where
  "console_reload earlier signalled polls =
     (let applied = (case earlier of None \<Rightarrow> - 1 | Some st \<Rightarrow> cs_reloads st)
      in if \<not> signalled then SignalFailed else await_reload applied polls)"

lemma await_reload_counts: "await_reload applied polls = Reloaded st \<Longrightarrow> Some st \<in> set polls \<and> applied < cs_reloads st"
  by (induction polls) (auto split: option.splits if_splits)

lemma await_reload_sent: "await_reload applied polls \<noteq> SignalFailed"
  by (induction polls) (auto split: option.splits)

lemma confirmed_reload_was_counted:
  "console_reload (Some earlier) signalled polls = Reloaded st \<Longrightarrow> cs_reloads earlier < cs_reloads st"
  by (auto simp: console_reload_def Let_def dest!: await_reload_counts split: if_splits)

text \<open>
  When the balancer could not be asked before the signal, its first answer counts as the confirmation,
  whether it reloaded or not.
\<close>

lemma unasked_reload_is_confirmed:
  "0 \<le> cs_reloads st \<Longrightarrow> console_reload None True (Some st # polls) = Reloaded st"
  by (simp add: console_reload_def)

subsection \<open>Rewriting the configuration\<close>

text \<open>
  What the outside does while the configuration is rewritten: whether the file could be read, what a
  failed write left in it, the status before the signal, whether the signal was sent, and the polls.
\<close>

record config_outside =
  co_read :: bool
  co_left :: "string option"
  co_earlier :: "console_status option"
  co_signalled :: bool
  co_polls :: "console_status option list"

datatype config_result = ReadFailed | EditFailed edit_error | WriteFailed | CommandFailed | Applied reload_result

definition reload_now :: "config_outside \<Rightarrow> config_result" where
  "reload_now out =
     (case console_reload (co_earlier out) (co_signalled out) (co_polls out) of
        SignalFailed \<Rightarrow> CommandFailed
      | r \<Rightarrow> Applied r)"

definition write_config :: "config_outside \<Rightarrow> string \<Rightarrow> config_result \<times> string" where
  "write_config out content =
     (case co_left out of
        Some left \<Rightarrow> (WriteFailed, left)
      | None \<Rightarrow> (reload_now out, content))"

definition applyConfig :: "config_outside \<Rightarrow> edit list \<Rightarrow> string \<Rightarrow> config_result \<times> string" where
  "applyConfig out edits content =
     (if \<not> co_read out then (ReadFailed, content)
      else case apply_edits edits content of
        Inl e \<Rightarrow> (EditFailed e, content)
      | Inr content' \<Rightarrow> write_config out content')"

text \<open>\<open>started\<close> is whether starting every backend succeeded.\<close>

definition restore :: "config_outside \<Rightarrow> bool \<Rightarrow> string \<Rightarrow> string \<Rightarrow> config_result \<times> string" where
  "restore out started baseline content =
     (case write_config out baseline of
        (Applied r, content') \<Rightarrow> (if started then Applied r else CommandFailed, content')
      | failed \<Rightarrow> failed)"

fun no_error :: "config_result \<Rightarrow> bool" where
  "no_error (Applied r) = True"
| "no_error _ = False"

lemma failed_edit_keeps_file: "applyConfig out edits content = (EditFailed e, content') \<Longrightarrow> content' = content"
  by (auto simp: applyConfig_def write_config_def reload_now_def split: if_splits sum.splits option.splits reload_result.splits)

lemma applyConfig_applied:
  "apply_edits edits content = Inr content' \<Longrightarrow> co_read out \<Longrightarrow> co_left out = None \<Longrightarrow> co_signalled out \<Longrightarrow>
     snd (applyConfig out edits content) = content' \<and> no_error (fst (applyConfig out edits content))"
  using await_reload_sent
  by (auto simp: applyConfig_def write_config_def reload_now_def console_reload_def Let_def
      split: option.splits reload_result.splits)

lemma restore_file: "co_left out = None \<Longrightarrow> snd (restore out started baseline content) = baseline"
  by (auto simp: restore_def write_config_def reload_now_def split: reload_result.splits)

subsection \<open>The backends\<close>

type_synonym fleet = "string \<Rightarrow> server"

text \<open>
  The first admin port, the parsing and formatting of numbers, and the words of an answer. A request to an
  admin port may not reach it, or the answer may not come back.
\<close>

record surroundings =
  su_firstPort :: int
  su_ParseFloat :: "string \<Rightarrow> float64 option"
  su_FormatFloat :: "float64 \<Rightarrow> string"
  su_words :: "admin_reply \<Rightarrow> string \<times> string"

datatype delivery = NotDelivered | AnswerLost | Delivered

text \<open>\<open>environment.admin\<close>, for a request that the backend serves at the time \<open>now\<close>.\<close>

definition environment_admin ::
  "surroundings \<Rightarrow> delivery \<Rightarrow> time \<Rightarrow> string \<Rightarrow> string \<Rightarrow> form option \<Rightarrow> fleet \<Rightarrow> admin_error option \<times> fleet" where
  "environment_admin su reached now base verb form fl =
     (let r = admin_post verb (base @ ''/faults'') form
      in if reached = NotDelivered then (admin_result r NotSent, fl)
         else (case admin_exchange (su_ParseFloat su) (su_FormatFloat su) base r ((fl base)\<lparr>ms_now := now\<rparr>) of
                 (reply, s') \<Rightarrow>
                   (admin_result r (if reached = AnswerLost then NotSent else reply_answer (su_words su) reply),
                    fl(base := s'))))"

subsection \<open>The actions\<close>

record desk =
  dk_file :: string
  dk_flow :: traffic
  dk_book :: faultBook
  dk_fleet :: fleet

text \<open>
  What one action meets: answers typed, statuses read, what the outside does, and the times at which the
  prompt looks at the book, a backend serves a request, and the action looks at the book.
\<close>

record meets =
  me_status :: "console_status option"
  me_asked :: time
  me_sent :: time
  me_time :: time
  me_which :: string
  me_faults :: fault_answers
  me_reach :: "string \<Rightarrow> delivery"
  me_read :: bool
  me_config :: config_outside
  me_second :: config_outside
  me_started :: bool

definition halted :: "desk \<Rightarrow> desk" where
  "halted d = d\<lparr>dk_flow := snd (traffic_halt (dk_flow d))\<rparr>"

definition edited :: "config_outside \<Rightarrow> edit list \<Rightarrow> desk \<Rightarrow> config_result \<times> desk" where
  "edited out edits d = (case applyConfig out edits (dk_file d) of (r, content) \<Rightarrow> (r, d\<lparr>dk_file := content\<rparr>))"

text \<open>\<open>misbehave\<close>: the backend has served the request when the book reads its clock.\<close>

definition console_misbehave :: "surroundings \<Rightarrow> meets \<Rightarrow> desk \<Rightarrow> desk" where
  "console_misbehave su me d =
     (case misbehave (service_names (mustStatus (me_status me))) (me_faults me) of
        Inl _ \<Rightarrow> d
      | Inr (service, kind, amount, lasts) \<Rightarrow>
          (case adminURL service (su_firstPort su) of
             None \<Rightarrow> d
           | Some base \<Rightarrow>
               (case environment_admin su (me_reach me base) (me_sent me) base ''POST''
                       (Some (fault_values kind amount lasts)) (dk_fleet d) of
                  (Some e, fl) \<Rightarrow> d\<lparr>dk_fleet := fl\<rparr>
                | (None, fl) \<Rightarrow>
                    d\<lparr>dk_fleet := fl, dk_book := book_add (dk_book d) (me_time me) service (fk_doing kind) lasts\<rparr>)))"

text \<open>\<open>clearFaults\<close>: the ports it asks, in order; a name that is no mock backend is passed over.\<close>

definition clear_bases :: "int \<Rightarrow> string list \<Rightarrow> string list" where
  "clear_bases firstPort names =
     concat (map (\<lambda>s. case adminURL s firstPort of None \<Rightarrow> [] | Some base \<Rightarrow> [base]) names)"

definition console_clearFaults :: "surroundings \<Rightarrow> meets \<Rightarrow> string list \<Rightarrow> fleet \<Rightarrow> fleet" where
  "console_clearFaults su me names fl =
     foldl (\<lambda>fl base. snd (environment_admin su (me_reach me base) (me_sent me) base ''DELETE'' None fl))
       fl (clear_bases (su_firstPort su) names)"

definition cleared :: "surroundings \<Rightarrow> meets \<Rightarrow> desk \<Rightarrow> desk" where
  "cleared su me d =
     d\<lparr>dk_fleet := console_clearFaults su me (service_names (mustStatus (me_status me))) (dk_fleet d),
       dk_book := book_clear (dk_book d)\<rparr>"

text \<open>Every port a fault can be injected at through the console is one it clears.\<close>

lemma injected_is_cleared:
  "service \<in> set names \<Longrightarrow> adminURL service firstPort = Some base \<Longrightarrow> base \<in> set (clear_bases firstPort names)"
  by (auto simp: clear_bases_def intro!: bexI [of _ service])

definition toggleSticky :: "meets \<Rightarrow> desk \<Rightarrow> desk" where
  "toggleSticky me d = snd (edited (me_config me) (setSticky (toggled (cs_sticky (mustStatus (me_status me))))) d)"

definition measureDistribution :: "desk \<Rightarrow> desk" where
  "measureDistribution d =
     (case traffic_halt (dk_flow d) of (resumed, t) \<Rightarrow> d\<lparr>dk_flow := if resumed then traffic_start t else t\<rparr>)"

definition console_algorithm :: "meets \<Rightarrow> desk \<Rightarrow> desk" where
  "console_algorithm me d =
     (case changeAlgorithm (me_which me) (map en_addr (cs_backends (mustStatus (me_status me)))) of
        Inl _ \<Rightarrow> d
      | Inr edits \<Rightarrow> snd (edited (me_config me) edits d))"

text \<open>\<open>changeBackend\<close>: the service to stop or start.\<close>

definition changeBackend :: "meets \<Rightarrow> string option" where
  "changeBackend me =
     (let names = service_names (mustStatus (me_status me))
      in if names = [] then None else map_option ((!) names) (pick_choice (me_which me) (length names)))"

datatype demonstration = LimitUnreadable | NotLowered | NotRestored | Demonstrated

definition demonstrateRateLimit :: "meets \<Rightarrow> desk \<Rightarrow> demonstration \<times> desk" where
  "demonstrateRateLimit me d =
     (let d = halted d
      in case (if me_read me then currentRateLimit (dk_file d) else None) of
           None \<Rightarrow> (LimitUnreadable, d)
         | Some previous \<Rightarrow>
             (case edited (me_config me) (setRateLimit 5) d of
                (r, d') \<Rightarrow>
                  if \<not> no_error r then (NotLowered, d')
                  else (case edited (me_second me) (setRateLimit previous) d' of
                          (r', d'') \<Rightarrow> (if no_error r' then Demonstrated else NotRestored, d''))))"

definition console_reset :: "surroundings \<Rightarrow> meets \<Rightarrow> string \<Rightarrow> desk \<Rightarrow> desk" where
  "console_reset su me baseline d =
     (let d = halted d
      in case restore (me_config me) (me_started me) baseline (dk_file d) of
           (r, content) \<Rightarrow>
             (let d = d\<lparr>dk_file := content\<rparr> in if no_error r then cleared su me d else d))"

definition console_leave :: "surroundings \<Rightarrow> meets \<Rightarrow> string \<Rightarrow> desk \<Rightarrow> desk" where
  "console_leave su me baseline d =
     (let d = halted d;
          d = (case book_any (dk_book d) (me_time me) of
                 (started, b) \<Rightarrow> if started then cleared su me (d\<lparr>dk_book := b\<rparr>) else d\<lparr>dk_book := b\<rparr>)
      in if me_read me \<and> dk_file d \<noteq> baseline
         then d\<lparr>dk_file := snd (restore (me_config me) (me_started me) baseline (dk_file d))\<rparr>
         else d)"

subsection \<open>The menu\<close>

text \<open>The prompt: the algorithm, whether sessions stick, whether traffic runs, and the faults.\<close>

definition middle_dot :: string where
  "middle_dot = CHR '' '' # CHR 0xC2 # CHR 0xB7 # '' ''"

definition prompt :: "meets \<Rightarrow> desk \<Rightarrow> string \<times> desk" where
  "prompt me d =
     (let st = mustStatus (me_status me);
          state = (if cs_algorithm st = [] then ''unreachable'' else cs_algorithm st)
            @ (if cs_sticky st = ''cookie'' then middle_dot @ ''sticky'' else [])
            @ (if traffic_running (dk_flow d) then middle_dot @ ''traffic on'' else [])
      in case book_summary (dk_book d) (me_asked me) of
           (faults, b) \<Rightarrow>
             (''['' @ state @ (if faults \<noteq> [] then middle_dot @ faults else []) @ ''] action?'', d\<lparr>dk_book := b\<rparr>))"

text \<open>One round of the menu; the second component is whether the operator left.\<close>

definition console_round :: "surroundings \<Rightarrow> string \<Rightarrow> meets \<Rightarrow> string \<Rightarrow> desk \<Rightarrow> desk \<times> bool" where
  "console_round su baseline me choice d =
     (let d = snd (prompt me d)
      in if choice = ''1'' then (d\<lparr>dk_flow := toggleTraffic (dk_flow d)\<rparr>, False)
         else if choice = ''2'' then (measureDistribution d, False)
         else if choice = ''5'' then (console_algorithm me d, False)
         else if choice = ''6'' then (snd (demonstrateRateLimit me d), False)
         else if choice = ''8'' then (console_misbehave su me d, False)
         else if choice = ''9'' then (toggleSticky me d, False)
         else if choice = ''r'' then (console_reset su me baseline d, False)
         else if choice = ''q'' \<or> choice = [] then (console_leave su me baseline d, True)
         else (d, False))"

text \<open>
  The session, over what its rounds meet. It ends when the operator leaves, or, with the list, when its
  context ends: then the traffic is halted and nothing else is done.
\<close>

fun session :: "surroundings \<Rightarrow> string \<Rightarrow> (meets \<times> string) list \<Rightarrow> desk \<Rightarrow> desk \<times> bool" where
  "session su baseline [] d = (halted d, False)"
| "session su baseline ((me, choice) # rounds) d =
     (case console_round su baseline me choice d of
        (d', True) \<Rightarrow> (halted d', True)
      | (d', False) \<Rightarrow> session su baseline rounds d')"

subsection \<open>The demonstration leaves nothing behind\<close>

text \<open>What is outside works: the file is read and written, and the signal is sent.\<close>

definition works :: "config_outside \<Rightarrow> bool" where
  "works out \<longleftrightarrow> co_read out \<and> co_left out = None \<and> co_signalled out"

lemma edited_scalar:
  assumes "works out" "setScalar (dk_file d) key v = Inr content"
  shows "\<exists>r. edited out [scalar_edit key v] d = (r, d\<lparr>dk_file := content\<rparr>) \<and> no_error r"
  using applyConfig_applied [of "[scalar_edit key v]" "dk_file d" content out] assms
  by (auto simp: edited_def works_def scalar_edit_def split: prod.splits)

definition limit_line :: "string \<Rightarrow> int \<Rightarrow> bool" where
  "limit_line content n \<longleftrightarrow>
     (\<exists>i head gap comment. scalar_at content ''rate_limit_per_ip'' i (head, Itoa n, gap, comment)
        \<and> (if comment = [] then gap = [] else gap \<noteq> [] \<and> list_all (\<lambda>c. c = CHR '' '') gap))
     \<and> - (2 ^ 63) \<le> n \<and> n < 2 ^ 63"

lemma limit_restored:
  assumes "limit_line content n" "setScalar content ''rate_limit_per_ip'' (Itoa 5) = Inr lowered"
  shows "setScalar lowered ''rate_limit_per_ip'' (Itoa n) = Inr content"
proof -
  obtain i head gap comment where at: "scalar_at content ''rate_limit_per_ip'' i (head, Itoa n, gap, comment)"
    and gap: "if comment = [] then gap = [] else gap \<noteq> [] \<and> list_all (\<lambda>c. c = CHR '' '') gap"
    using assms(1) by (auto simp: limit_line_def)
  have "length (Itoa 5) = 1" by (simp add: Itoa_def decimal.simps)
  moreover have "1 \<le> length (Itoa n)" using Itoa_word(1) [of n] by (cases "Itoa n") simp_all
  moreover have "1 \<le> length gap" if "comment \<noteq> []" using gap that by (cases gap) simp_all
  ultimately have "length (Itoa 5) < length (Itoa n) + length gap" if "comment \<noteq> []" using that by linarith
  then have "leaves_room (head, Itoa n, gap, comment) (Itoa 5)"
    using gap by (simp only: leaves_room_def prod.case) (simp split: if_splits)
  from setScalar_round_trip [OF at _ plain_Itoa plain_Itoa this assms(2)] show ?thesis by simp
qed

lemma limit_lowered:
  assumes "limit_line content n"
  shows "currentRateLimit content = Some n" "\<exists>lowered. setScalar content ''rate_limit_per_ip'' (Itoa 5) = Inr lowered"
proof -
  obtain i head gap comment where at: "scalar_at content ''rate_limit_per_ip'' i (head, Itoa n, gap, comment)"
    and range: "- (2 ^ 63) \<le> n" "n < 2 ^ 63"
    using assms by (auto simp: limit_line_def)
  show "currentRateLimit content = Some n" using at range by (rule currentRateLimit_at)
  show "\<exists>lowered. setScalar content ''rate_limit_per_ip'' (Itoa 5) = Inr lowered"
    using setScalar_at [OF at, of "Itoa 5"] by (rule exI)
qed

text \<open>
  C36: The demonstration of the rate limit gives the configuration file back byte for byte, comments and
  their columns included, whatever the limit was, if its line is \<open>limit_line\<close>: the limit is written as
  \<open>Itoa\<close> would write it, only spaces stand before a comment, and nothing, no space and no carriage return,
  after a limit without one. It succeeds where the file can be read and written and the balancer be
  signalled, and nothing else of the session changes than that the traffic is stopped.
\<close>

lemma demonstration_leaves_nothing_behind:
  assumes "limit_line (dk_file d) n" "me_read me" "works (me_config me)" "works (me_second me)"
  shows "demonstrateRateLimit me d = (Demonstrated, halted d)"
proof -
  have same: "dk_file (halted d) = dk_file d" by (simp add: halted_def)
  obtain lowered where low: "setScalar (dk_file (halted d)) ''rate_limit_per_ip'' (Itoa 5) = Inr lowered"
    using limit_lowered(2) [OF assms(1)] same by auto
  obtain r where r: "edited (me_config me) (setRateLimit 5) (halted d) = (r, (halted d)\<lparr>dk_file := lowered\<rparr>)" "no_error r"
    using edited_scalar [OF assms(3) low] by (auto simp: setRateLimit_def)
  have "setScalar (dk_file ((halted d)\<lparr>dk_file := lowered\<rparr>)) ''rate_limit_per_ip'' (Itoa n) = Inr (dk_file d)"
    using limit_restored [OF assms(1)] low same by simp
  from edited_scalar [OF assms(4) this]
  obtain r' where r': "edited (me_second me) (setRateLimit n) ((halted d)\<lparr>dk_file := lowered\<rparr>) = (r', halted d)" "no_error r'"
    by (auto simp: setRateLimit_def same [symmetric])
  show ?thesis
    using limit_lowered(1) [OF assms(1)] assms(2) r r' same by (simp add: demonstrateRateLimit_def Let_def)
qed

definition ex_outside :: config_outside where
  "ex_outside = \<lparr>co_read = True, co_left = None, co_earlier = None, co_signalled = True, co_polls = []\<rparr>"

definition ex_limit_file :: string where
  "ex_limit_file = ''limits:'' @ Demo_Config.newline # ''  rate_limit_per_ip: 100  # per second''"

definition ex_meets :: meets where
  "ex_meets = \<lparr>me_status = None, me_asked = 0, me_sent = 0, me_time = 0, me_which = [],
     me_faults = \<lparr>fq_which = [], fq_fault = [], fq_strength = [], fq_lasts = []\<rparr>,
     me_reach = (\<lambda>_. Delivered), me_read = True, me_config = ex_outside, me_second = ex_outside, me_started = True\<rparr>"

definition ex_desk :: desk where
  "ex_desk = \<lparr>dk_file = ex_limit_file, dk_flow = \<lparr>tr_stop = Some 0, tr_senders = [0], tr_fresh = 1\<rparr>, dk_book = [(''backend-1 hanging'', 10)],
     dk_fleet = (\<lambda>_. ex_server)\<rparr>"

lemma ex_limit_line: "limit_line ex_limit_file 100"
proof -
  have "Itoa 100 = ''100''" 
  proof -
    have "char_of (49 :: nat) = CHR ''1''" "char_of (48 :: nat) = CHR ''0''" by code_simp+
    then show ?thesis by (simp add: Itoa_def decimal.simps digit_def)
  qed
  moreover have "scalar_at ex_limit_file ''rate_limit_per_ip'' 1 (''  rate_limit_per_ip: '', ''100'', ''  '', ''# per second'')"
    by code_simp
  ultimately have "scalar_at ex_limit_file ''rate_limit_per_ip'' 1 (''  rate_limit_per_ip: '', Itoa 100, ''  '', ''# per second'')"
    by simp
  then show ?thesis
    unfolding limit_line_def by (intro conjI exI, assumption) simp_all
qed

lemma demonstration_leaves_nothing_behind_witness:
  "demonstrateRateLimit ex_meets ex_desk = (Demonstrated, halted ex_desk)"
proof (rule demonstration_leaves_nothing_behind)
  show "limit_line (dk_file ex_desk) 100" using ex_limit_line by (simp add: ex_desk_def)
qed (simp_all add: ex_meets_def ex_outside_def works_def)

text \<open>What follows a limit without a comment is not given back: here the carriage return of a line's end.\<close>

lemma carriage_return_is_lost:
  "setScalar (''rate_limit_per_ip: 100'' @ [CHR 0x0D]) ''rate_limit_per_ip'' ''5'' = Inr ''rate_limit_per_ip: 5''"
  "setScalar ''rate_limit_per_ip: 5'' ''rate_limit_per_ip'' ''100'' = Inr ''rate_limit_per_ip: 100''"
  by code_simp+

subsection \<open>Leaving\<close>

lemma book_not_any: "book_any b now = (False, b') \<Longrightarrow> b' = []"
proof -
  assume b: "book_any b now = (False, b')"
  have "b' = filter (\<lambda>(what, until). time_sub until now > 0) b"
    using b by (auto simp: book_any_def book_summary_def Let_def)
  moreover have "\<forall>(what, until)\<in>set b. \<not> until > now"
    using book_any_running [of b now] b by auto
  ultimately show ?thesis
    by (auto simp: filter_empty_conv time_sub_def min_duration_def max_duration_def)
qed

lemma prompt_fields: "dk_file (snd (prompt me d)) = dk_file d" "dk_flow (snd (prompt me d)) = dk_flow d"
  by (simp_all add: prompt_def Let_def split: prod.splits)

lemma halt_empties: "traffic_ok t \<Longrightarrow> tr_senders (snd (traffic_halt t)) = [] \<and> traffic_ok (snd (traffic_halt t))"
  by (auto simp: traffic_ok_def traffic_halt_def split: option.splits)

lemma halted_flow [simp]:
  "dk_flow (halted d) = snd (traffic_halt (dk_flow d))" "dk_file (halted d) = dk_file d" "dk_book (halted d) = dk_book d"
  by (simp_all add: halted_def)

lemma edited_flow [simp]: "dk_flow (snd (edited out edits d)) = dk_flow d"
  by (simp add: edited_def split: prod.splits)

lemma flow_kept:
  "dk_flow (console_algorithm me d) = dk_flow d" "dk_flow (toggleSticky me d) = dk_flow d"
  "dk_flow (console_misbehave su me d) = dk_flow d"
  by (auto simp: console_algorithm_def toggleSticky_def console_misbehave_def split: sum.splits prod.splits option.splits)

lemma cleared_fields [simp]:
  "dk_flow (cleared su me d) = dk_flow d" "dk_file (cleared su me d) = dk_file d" "dk_book (cleared su me d) = []"
  by (simp_all add: cleared_def book_clear_def)

lemma demonstrate_flow: "dk_flow (snd (demonstrateRateLimit me d)) = snd (traffic_halt (dk_flow d))"
proof -
  have kept: "dk_flow d' = dk_flow d" if "edited out edits d = (r, d')" for out edits r d d'
    using edited_flow [of out edits d] that by simp
  then show ?thesis
    by (auto simp: demonstrateRateLimit_def Let_def split: option.splits prod.splits if_splits dest!: kept)
qed

lemma reset_flow: "dk_flow (console_reset su me b d) = snd (traffic_halt (dk_flow d))"
  by (simp add: console_reset_def Let_def split: prod.splits)

lemma leave_flow: "dk_flow (console_leave su me b d) = snd (traffic_halt (dk_flow d))"
  by (simp add: console_leave_def Let_def split: prod.splits)

lemma toggle_ok: "traffic_ok t \<Longrightarrow> traffic_ok (toggleTraffic t)"
  by (auto simp: toggleTraffic_def traffic_halt_def traffic_start_def traffic_ok_def split: option.splits)

lemma measure_ok: "traffic_ok (dk_flow d) \<Longrightarrow> traffic_ok (dk_flow (measureDistribution d))"
  by (auto simp: measureDistribution_def traffic_halt_def traffic_start_def traffic_ok_def split: option.splits)

lemma round_ok: "traffic_ok (dk_flow d) \<Longrightarrow> traffic_ok (dk_flow (fst (console_round su b me choice d)))"
  using toggle_ok measure_ok [of "snd (prompt me d)"] halt_empties [of "dk_flow d"]
  by (simp add: console_round_def Let_def prompt_fields flow_kept demonstrate_flow reset_flow leave_flow)

lemma round_leaves:
  "snd (console_round su b me choice d) \<Longrightarrow>
     fst (console_round su b me choice d) = console_leave su me b (snd (prompt me d)) \<and> choice \<in> {''q'', []}"
  by (auto simp: console_round_def Let_def split: if_splits)

lemma leave_restores:
  assumes "me_read me" "co_left (me_config me) = None"
  shows "dk_file (console_leave su me b d) = b" "dk_book (console_leave su me b d) = []"
  using assms restore_file book_not_any
  by (auto simp: console_leave_def Let_def split: prod.splits)

subsection \<open>The faults of one backend\<close>

lemma delivered_clear:
  "snd (environment_admin su reached now base ''DELETE'' None fl) =
     (if reached = NotDelivered then fl else fl(base := clearFaults ((fl base)\<lparr>ms_now := now\<rparr>)))"
  by (simp add: environment_admin_def clearing_is_sent Let_def)

abbreviation injected_at :: "fleet \<Rightarrow> string \<Rightarrow> string \<Rightarrow> fault option" where
  "injected_at fl base \<equiv> map_of (fs_injected (ms_faults (fl base)))"

lemma faults_cleared: "fs_injected (ms_faults (clearFaults s)) = []"
  by (simp add: clearFaults_def faults_clear_def)

text \<open>A backend that is asked to has no fault any more; one that is not has those it had.\<close>

lemma clearFaults_at:
  "fs_injected (ms_faults (console_clearFaults su me names fl base)) \<in> {[], fs_injected (ms_faults (fl base))}"
  "base \<in> set (clear_bases (su_firstPort su) names) \<Longrightarrow> me_reach me base \<noteq> NotDelivered \<Longrightarrow>
     fs_injected (ms_faults (console_clearFaults su me names fl base)) = []"
proof -
  define step where
    "step = (\<lambda>fl b. snd (environment_admin su (me_reach me b) (me_sent me) b ''DELETE'' None fl))"
  have one: "fs_injected (ms_faults (step fl b base)) =
      (if b = base \<and> me_reach me b \<noteq> NotDelivered then [] else fs_injected (ms_faults (fl base)))" for fl b
    by (simp add: step_def delivered_clear faults_cleared)
  have all: "fs_injected (ms_faults (foldl step fl bs base)) =
      (if base \<in> set bs \<and> me_reach me base \<noteq> NotDelivered then [] else fs_injected (ms_faults (fl base)))" for bs
  proof (induction bs arbitrary: fl)
    case (Cons b bs)
    show ?case unfolding foldl_Cons Cons.IH one by auto
  qed simp
  show "fs_injected (ms_faults (console_clearFaults su me names fl base)) \<in> {[], fs_injected (ms_faults (fl base))}"
    unfolding console_clearFaults_def step_def [symmetric] all by simp
  show "fs_injected (ms_faults (console_clearFaults su me names fl base)) = []"
    if "base \<in> set (clear_bases (su_firstPort su) names)" "me_reach me base \<noteq> NotDelivered"
    unfolding console_clearFaults_def step_def [symmetric] all using that by simp
qed

text \<open>
  The book covers a backend from a moment on: every fault injected there that has not ended by then has an
  entry that ends no earlier.
\<close>

definition booked :: "surroundings \<Rightarrow> string \<Rightarrow> time \<Rightarrow> desk \<Rightarrow> bool" where
  "booked su base t d \<longleftrightarrow>
     (\<forall>m ft u. injected_at (dk_fleet d) base m = Some ft \<longrightarrow> fa_until ft = Some u \<longrightarrow> t < u \<longrightarrow>
        (\<exists>service kind u'. kind \<in> set faultKinds \<and> fk_mode kind = m
           \<and> adminURL service (su_firstPort su) = Some base
           \<and> map_of (dk_book d) (service @ '' '' @ fk_doing kind) = Some u' \<and> u \<le> u'))"

lemma booked_later: "booked su base t d \<Longrightarrow> t \<le> t' \<Longrightarrow> booked su base t' d"
  unfolding booked_def by (meson le_less_trans)

lemma booked_same: "dk_fleet d' = dk_fleet d \<Longrightarrow> dk_book d' = dk_book d \<Longrightarrow> booked su base t d' = booked su base t d"
  by (simp add: booked_def)

lemma booked_clean: "fs_injected (ms_faults (dk_fleet d base)) = [] \<Longrightarrow> booked su base t d"
  by (simp add: booked_def)

lemma map_of_filter_entry: "map_of b k = Some v \<Longrightarrow> P v \<Longrightarrow> map_of (filter (\<lambda>(k, v). P v) b) k = Some v"
  by (induction b) (auto split: if_splits)

text \<open>The prompt drops what has ended.\<close>

lemma booked_prompt:
  assumes "booked su base t d" "t \<le> me_asked me"
  shows "booked su base (me_asked me) (snd (prompt me d))"
proof -
  have pos: "time_sub u now > 0 \<longleftrightarrow> u > now" for u now
    by (auto simp: time_sub_def min_duration_def max_duration_def)
  have book: "dk_book (snd (prompt me d)) = filter (\<lambda>(what, u). u > me_asked me) (dk_book d)"
    "dk_fleet (snd (prompt me d)) = dk_fleet d"
    by (simp_all add: prompt_def book_summary_def pos Let_def)
  show ?thesis
    unfolding booked_def book
  proof (intro allI impI)
    fix m ft u
    assume inj: "injected_at (dk_fleet d) base m = Some ft" "fa_until ft = Some u" "me_asked me < u"
    then obtain service kind u' where "kind \<in> set faultKinds" "fk_mode kind = m"
      "adminURL service (su_firstPort su) = Some base" "u \<le> u'"
      "map_of (dk_book d) (service @ '' '' @ fk_doing kind) = Some u'"
      using assms unfolding booked_def by (meson le_less_trans)
    moreover from this(4,5) inj(3) have
      "map_of (filter (\<lambda>(what, u). u > me_asked me) (dk_book d)) (service @ '' '' @ fk_doing kind) = Some u'"
      by (intro map_of_filter_entry) simp_all
    ultimately show "\<exists>service kind u'. kind \<in> set faultKinds \<and> fk_mode kind = m
        \<and> adminURL service (su_firstPort su) = Some base
        \<and> map_of (filter (\<lambda>(what, u). u > me_asked me) (dk_book d)) (service @ '' '' @ fk_doing kind) = Some u'
        \<and> u \<le> u'" by blast
  qed
qed

text \<open>The entries of two faults are never the same, unless they are of one kind at one backend.\<close>

lemma entry_names:
  assumes "kind \<in> set faultKinds" "kind' \<in> set faultKinds"
    and "service @ '' '' @ fk_doing kind = service' @ '' '' @ fk_doing kind'"
  shows "kind = kind' \<and> service = service'"
proof -
  have last_word: "takeWhile (\<lambda>c. c \<noteq> CHR '' '') (rev (w @ '' '' @ fk_doing k)) = rev (fk_doing k)"
    if "k \<in> set faultKinds" for w k
    using that by (auto simp: faultKinds_def)
  have "rev (fk_doing kind) = rev (fk_doing kind')"
    using last_word [OF assms(1), of service] last_word [OF assms(2), of service'] unfolding assms(3) by argo
  then have "fk_doing kind = fk_doing kind'" by simp
  moreover have "\<forall>k\<in>set faultKinds. \<forall>k'\<in>set faultKinds. fk_doing k = fk_doing k' \<longrightarrow> k = k'"
    by (simp add: faultKinds_def)
  then have "kind = kind'" using assms(1,2) calculation by blast
  ultimately show ?thesis using assms(3) by simp
qed

text \<open>A refused request leaves a backend as it is; an accepted one starts the fault that was asked for.\<close>

lemma posted_result:
  assumes "admin_exchange pf ff base (admin_post ''POST'' (base @ ''/faults'') (Some (fault_values kind amount lasts))) s
      = (reply, s')"
  shows "reply_code reply = 200 \<and> injectFault pf s (faultForm kind amount lasts) = (None, s')
    \<or> reply_code reply \<noteq> 200 \<and> s' = s"
proof (cases "length (Encode (fault_values kind amount lasts)) \<le> max_form")
  case True
  then show ?thesis
    using assms fault_is_posted [OF True, of pf ff base s] refused_injection_changes_nothing
    by (fastforce split: prod.splits option.splits)
next
  case False
  then have "ParseForm (admin_post ''POST'' target (Some (fault_values kind amount lasts))) = ([], True)" for target
    using form_type_read [unfolded form_type_def] by (simp add: ParseForm_def admin_post_def form_type_def)
  then show ?thesis
    using assms by (auto simp: admin_exchange_def admin_serve_def mock_admin_route_def reads_only_def
        serve_injection_def admin_post_def cut_prefix_def)
qed

lemma injected_mode:
  assumes "kind \<in> set faultKinds" "0 < lasts" "lasts \<le> maxFaultDuration"
    and "injectFault pf s (faultForm kind amount lasts) = (None, s')"
  shows "\<exists>ft. ms_faults s' = inject (ms_faults s) (ms_now s) (fk_mode kind) ft lasts"
proof -
  have range: "min_duration \<le> lasts" "lasts \<le> max_duration"
    using assms(2,3) by (simp_all add: min_duration_def max_duration_def maxFaultDuration_def nanos_per_second_def)
  have "parseInjection pf (faultForm kind amount lasts) = Inr (m, ft, lasts') \<Longrightarrow>
      m = fk_mode kind \<and> lasts' = lasts" for m ft lasts'
    using Duration_String_reads_back [OF range] Duration_String_nonempty [OF range] assms(2)
    by (auto simp: parseInjection_def form_field_def faultForm_fields Let_def split: sum.splits if_splits option.splits)
  then show ?thesis using assms(4) by (fastforce simp: injectFault_def Let_def split: sum.splits prod.splits)
qed

text \<open>
  The book still covers a backend after an entry is added, if what is new at the backend is the fault of
  that entry and ends no later.
\<close>

lemma booked_add:
  assumes "booked su base t d" "kind \<in> set faultKinds" "adminURL service (su_firstPort su) = Some at_base"
    and "\<And>m ft u. injected_at fl base m = Some ft \<Longrightarrow> fa_until ft = Some u \<Longrightarrow>
        injected_at (dk_fleet d) base m = Some ft \<and> (at_base \<noteq> base \<or> m \<noteq> fk_mode kind)
        \<or> at_base = base \<and> m = fk_mode kind \<and> u \<le> t + lasts"
  shows "booked su base t (d\<lparr>dk_fleet := fl, dk_book := book_add (dk_book d) t service (fk_doing kind) lasts\<rparr>)"
  unfolding booked_def
proof (intro allI impI)
  let ?book = "book_add (dk_book d) t service (fk_doing kind) lasts"
  let ?d = "d\<lparr>dk_fleet := fl, dk_book := ?book\<rparr>"
  have entry: "map_of ?book k = (if k = service @ '' '' @ fk_doing kind then Some (t + lasts) else map_of (dk_book d) k)" for k
    by (simp add: book_add_def update_conv')
  fix m ft u
  assume inj: "injected_at (dk_fleet ?d) base m = Some ft" "fa_until ft = Some u" "t < u"
  then consider (old) "injected_at (dk_fleet d) base m = Some ft" "at_base \<noteq> base \<or> m \<noteq> fk_mode kind"
    | (new) "at_base = base" "m = fk_mode kind" "u \<le> t + lasts"
    using assms(4) [of m ft u] by auto
  then show "\<exists>service kind u'. kind \<in> set faultKinds \<and> fk_mode kind = m
      \<and> adminURL service (su_firstPort su) = Some base
      \<and> map_of (dk_book ?d) (service @ '' '' @ fk_doing kind) = Some u' \<and> u \<le> u'"
  proof cases
    case old
    then obtain service' kind' u' where e: "kind' \<in> set faultKinds" "fk_mode kind' = m"
      "adminURL service' (su_firstPort su) = Some base"
      "map_of (dk_book d) (service' @ '' '' @ fk_doing kind') = Some u'" "u \<le> u'"
      using assms(1) inj(2,3) unfolding booked_def by blast
    have "service' @ '' '' @ fk_doing kind' \<noteq> service @ '' '' @ fk_doing kind"
      using entry_names [OF e(1) assms(2), of service' service] e(2,3) assms(3) old(2) by auto
    then have "map_of ?book (service' @ '' '' @ fk_doing kind') = Some u'" using entry e(4) by simp
    with e show ?thesis by auto
  next
    case new
    then show ?thesis
      using assms(2,3) entry [of "service @ '' '' @ fk_doing kind"]
      by (intro exI [of _ service] exI [of _ kind] exI [of _ "t + lasts"]) simp
  qed
qed

lemma booked_misbehave:
  assumes "booked su base t d" "t \<le> me_sent me" "me_sent me \<le> me_time me" "me_reach me base \<noteq> AnswerLost"
  shows "booked su base (me_time me) (console_misbehave su me d)"
proof (cases "\<exists>service kind amount lasts at_base.
    misbehave (service_names (mustStatus (me_status me))) (me_faults me) = Inr (service, kind, amount, lasts)
    \<and> adminURL service (su_firstPort su) = Some at_base")
  case False
  then have "console_misbehave su me d = d" by (auto simp: console_misbehave_def split: sum.split option.split)
  then show ?thesis using assms(1-3) booked_later by (metis order_trans)
next
  case True
  then obtain service kind amount lasts at_base where
    asked: "misbehave (service_names (mustStatus (me_status me))) (me_faults me) = Inr (service, kind, amount, lasts)"
    and at_base: "adminURL service (su_firstPort su) = Some at_base" by blast
  note m = misbehave_answer [OF asked]
  have late: "booked su base (me_time me) d" using assms(1-3) by (intro booked_later [OF assms(1)]) simp
  let ?s = "(dk_fleet d at_base)\<lparr>ms_now := me_sent me\<rparr>"
  let ?r = "admin_post ''POST'' (at_base @ ''/faults'') (Some (fault_values kind amount lasts))"
  obtain reply s' where ex: "admin_exchange (su_ParseFloat su) (su_FormatFloat su) at_base ?r ?s = (reply, s')"
    by fastforce
  let ?fl = "(dk_fleet d)(at_base := s')"
  let ?add = "d\<lparr>dk_fleet := ?fl, dk_book := book_add (dk_book d) (me_time me) service (fk_doing kind) lasts\<rparr>"
  have result: "console_misbehave su me d =
      (if me_reach me at_base = NotDelivered then d
       else if me_reach me at_base = Delivered \<and> reply_code reply = 200 then ?add else d\<lparr>dk_fleet := ?fl\<rparr>)"
    using asked at_base ex result_of_reply [of ?r "su_words su" reply]
    by (cases "me_reach me at_base") (auto simp: console_misbehave_def environment_admin_def admin_result_def
        split: option.split)
  consider (other) "at_base \<noteq> base" | (refused) "at_base = base" "reply_code reply \<noteq> 200" "s' = ?s"
    | (accepted) "at_base = base" "reply_code reply = 200"
        "injectFault (su_ParseFloat su) ?s (faultForm kind amount lasts) = (None, s')"
    using posted_result [OF ex] by blast
  then show ?thesis
  proof cases
    case other
    have "booked su base (me_time me) ?add" by (rule booked_add [OF late m(2) at_base]) (use other in simp)
    moreover have "booked su base (me_time me) (d\<lparr>dk_fleet := ?fl\<rparr>)" using late other by (simp add: booked_def)
    ultimately show ?thesis unfolding result using late by simp
  next
    case refused
    have "booked su base (me_time me) (d\<lparr>dk_fleet := ?fl\<rparr>)" using late refused(1,3) by (simp add: booked_def)
    then show ?thesis unfolding result using late refused(2) by simp
  next
    case accepted
    obtain ft0 where ft0: "ms_faults s' = inject (ms_faults (dk_fleet d base)) (me_sent me) (fk_mode kind) ft0 lasts"
      using injected_mode [OF m(2,4,5) accepted(3)] accepted(1) by auto
    have "booked su base (me_time me) ?add"
      by (rule booked_add [OF late m(2) at_base])
        (use accepted(1) ft0 assms(3) in \<open>auto simp: inject_def update_conv' split: if_splits\<close>)
    then show ?thesis unfolding result using late assms(4) accepted(1,2) by (cases "me_reach me base") auto
  qed
qed

lemma fleet_kept:
  "dk_fleet (console_algorithm me d) = dk_fleet d" "dk_book (console_algorithm me d) = dk_book d"
  "dk_fleet (toggleSticky me d) = dk_fleet d" "dk_book (toggleSticky me d) = dk_book d"
  "dk_fleet (measureDistribution d) = dk_fleet d" "dk_book (measureDistribution d) = dk_book d"
  "dk_fleet (snd (demonstrateRateLimit me d)) = dk_fleet d" "dk_book (snd (demonstrateRateLimit me d)) = dk_book d"
  by (auto simp: console_algorithm_def toggleSticky_def measureDistribution_def demonstrateRateLimit_def edited_def
      halted_def Let_def split: sum.splits prod.splits option.splits)

text \<open>The console sees a backend: the status lists it, and a request to its admin port is served.\<close>

definition sees :: "surroundings \<Rightarrow> string \<Rightarrow> meets \<Rightarrow> bool" where
  "sees su base me \<longleftrightarrow>
     base \<in> set (clear_bases (su_firstPort su) (service_names (mustStatus (me_status me))))
     \<and> me_reach me base \<noteq> NotDelivered"

definition undisturbed :: "surroundings \<Rightarrow> string \<Rightarrow> meets \<times> string \<Rightarrow> bool" where
  "undisturbed su base x =
     (case x of (me, choice) \<Rightarrow>
        me_reach me base \<noteq> AnswerLost \<and> (choice \<in> {''r'', ''q'', []} \<longrightarrow> sees su base me))"

text \<open>The clock's readings, in the order they are made.\<close>

fun on_time :: "time \<Rightarrow> (meets \<times> string) list \<Rightarrow> bool" where
  "on_time t [] = True"
| "on_time t ((me, choice) # rounds) =
     (t \<le> me_asked me \<and> me_asked me \<le> me_time me
      \<and> (choice = ''8'' \<longrightarrow> me_asked me \<le> me_sent me \<and> me_sent me \<le> me_time me) \<and> on_time (me_time me) rounds)"

lemma cleared_clean: "sees su base me \<Longrightarrow> fs_injected (ms_faults (dk_fleet (cleared su me d) base)) = []"
  unfolding sees_def cleared_def by (simp add: clearFaults_at(2))

lemma booked_round:
  assumes "booked su base t d" "on_time t ((me, choice) # rounds)" "undisturbed su base (me, choice)"
    and "\<not> snd (console_round su b me choice d)"
  shows "booked su base (me_time me) (fst (console_round su b me choice d))"
proof -
  let ?d = "snd (prompt me d)"
  have asked: "booked su base (me_asked me) ?d" using assms(1,2) by (intro booked_prompt) auto
  then have late: "booked su base (me_time me) ?d" using assms(2) by (auto intro: booked_later)
  have same: "booked su base (me_time me) d'" if "dk_fleet d' = dk_fleet ?d" "dk_book d' = dk_book ?d" for d'
    using booked_same [OF that] late by simp
  show ?thesis
  proof (cases "choice = ''8''")
    case True
    then have "booked su base (me_time me) (console_misbehave su me ?d)"
      using assms(2,3) asked by (intro booked_misbehave [of su base "me_asked me"]) (auto simp: undisturbed_def)
    then show ?thesis using True by (simp add: console_round_def Let_def)
  next
    case False
    show ?thesis
    proof (cases "choice = ''r''")
      case True
      then have "sees su base me" using assms(3) by (simp add: undisturbed_def)
      then have "booked su base (me_time me) (console_reset su me b ?d)"
        using cleared_clean [of su base me] same
        by (auto simp: console_reset_def halted_def Let_def intro: booked_clean split: prod.split)
      then show ?thesis using True by (simp add: console_round_def Let_def)
    next
      case False
      then show ?thesis
        using assms(4) \<open>choice \<noteq> ''8''\<close> late
        by (auto simp: console_round_def Let_def fleet_kept intro!: same)
    qed
  qed
qed

text \<open>Leaving clears what the book still shows, and what it does not show has ended.\<close>

lemma leave_ends_faults:
  assumes "booked su base (me_time me) d" "sees su base me" "me_time me \<le> t"
  shows "in_force (ms_faults (dk_fleet (console_leave su me b d) base)) t m
       = map_of (fs_profile (ms_faults (dk_fleet (console_leave su me b d) base))) m"
proof (cases "fst (book_any (dk_book d) (me_time me))")
  case True
  then have "fs_injected (ms_faults (dk_fleet (console_leave su me b d) base)) = []"
    using cleared_clean [OF assms(2)] by (auto simp: console_leave_def halted_def Let_def split: prod.splits)
  then show ?thesis by (simp add: in_force_alt)
next
  case False
  then have kept: "dk_fleet (console_leave su me b d) = dk_fleet d"
    by (auto simp: console_leave_def halted_def Let_def split: prod.splits)
  have "\<not> before t (fa_until ft)" if inj: "injected_at (dk_fleet d) base m = Some ft" for ft
  proof
    assume "before t (fa_until ft)"
    then obtain u where u: "fa_until ft = Some u" "t < u" by (auto simp: before_def split: option.splits)
    then have "me_time me < u" using assms(3) by simp
    then obtain service u' and kind :: faultKind where
      "map_of (dk_book d) (service @ '' '' @ fk_doing kind) = Some u'" "u \<le> u'"
      using assms(1) inj u(1) unfolding booked_def by blast
    then have "(service @ '' '' @ fk_doing kind, u') \<in> set (dk_book d)" "me_time me < u'"
      using u(2) assms(3) by (auto dest: map_of_SomeD)
    then show False using False by (auto simp: book_any_running)
  qed
  then show ?thesis unfolding kept by (auto simp: in_force_alt split: option.split)
qed


text \<open>When the balancer cannot be asked for its backends, none is cleared, and the book forgets them all the same.\<close>

lemma unreachable_status_clears_none:
  "me_status me = None \<Longrightarrow> dk_fleet (console_leave su me b d) = dk_fleet d \<and> dk_book (cleared su me d) = []"
  by (auto simp: console_leave_def cleared_def console_clearFaults_def clear_bases_def mustStatus_def no_status_def
      service_names_def services_def halted_def book_clear_def Let_def split: prod.split)

text \<open>A session that makes a backend misbehave, and is left.\<close>

definition ex_fault_status :: console_status where
  "ex_fault_status =
     \<lparr>cs_algorithm = ''round_robin'', cs_sticky = ''none'', cs_reloads = 1, cs_healthy = 1, cs_total = 1,
      cs_backends = [\<lparr>en_addr = ''backend-1:5678'', en_weight = 1, en_healthy = True, en_active = 0\<rparr>]\<rparr>"

definition ex_fault_meets :: meets where
  "ex_fault_meets = ex_meets\<lparr>me_status := Some ex_fault_status, me_faults := ex_answers\<rparr>"

definition ex_surroundings :: surroundings where
  "ex_surroundings = \<lparr>su_firstPort = 5781, su_ParseFloat = (\<lambda>_. None), su_FormatFloat = (\<lambda>_. []),
     su_words = (\<lambda>_. ([], []))\<rparr>"

definition ex_base :: string where
  "ex_base = the (adminURL ''backend-1'' 5781)"

lemma ex_names: "service_names (mustStatus (me_status ex_fault_meets)) = [''backend-1'']"
  by (simp add: ex_fault_meets_def ex_fault_status_def mustStatus_def service_names_def services_def cut_def)

lemma ex_base: "adminURL ''backend-1'' (su_firstPort ex_surroundings) = Some ex_base"
proof -
  have "Atoi ''1'' = Some 1" "cut_prefix ''backend-1'' ''backend-'' = Some ''1''" by code_simp+
  then show ?thesis by (simp add: adminURL_def ex_base_def ex_surroundings_def)
qed

definition ex_left :: "desk \<times> bool" where
  "ex_left = session ex_surroundings ex_limit_file [(ex_fault_meets, ''8''), (ex_fault_meets, ''q'')] ex_desk"


end
