(* ===== verification/Demo_Faults.thy ===== *)
theory Demo_Faults
  imports Demo_Session
begin

text \<open>
  The demo console and a mock backend together: a fault that is asked for at the console (\<open>misbehave\<close> and
  \<open>injectFault\<close> of \<open>cmd/demo\<close>), sent as a form, and started at the backend's admin port (\<open>injectFault\<close> and
  \<open>parseInjection\<close> of \<open>cmd/mockbackend\<close>). The lemmas: the backend takes every such fault, in force there for
  the time that was typed, and the console's prompt shows it for that time after its own clock's reading.
\<close>

lemma injected_form:
  assumes "misbehave servs a = Inr (service, kind, amount, lasts)" "strength_ok pf kind amount"
  shows "\<exists>ft s'. injectFault pf s (faultForm kind amount lasts) = (None, s')
    \<and> ms_faults s' = inject (ms_faults s) (ms_now s) (fk_mode kind) ft lasts
    \<and> ms_clock s' = (if fk_mode kind = modeFreeze then freeze (ms_clock s) (ms_now s) lasts else ms_clock s)"
proof -
  obtain ft where "parseInjection pf (faultForm kind amount lasts) = Inr (fk_mode kind, ft, lasts)"
    using console_fault_is_injected [OF assms] by blast
  then show ?thesis by (auto simp: injectFault_def Let_def)
qed

text \<open>A freeze asked for at the console stops the backend for at least its time.\<close>

lemma frozen_from_the_console:
  assumes "misbehave servs a = Inr (service, kind, amount, lasts)" "strength_ok pf kind amount" "fk_mode kind = modeFreeze"
  shows "lasts \<le> stall (ms_clock (snd (injectFault pf s (faultForm kind amount lasts)))) (ms_now s)"
proof -
  have "0 < lasts" "lasts \<le> max_duration"
    using misbehave_answer(4,5) [OF assms(1)]
    by (simp_all add: max_duration_def maxFaultDuration_def nanos_per_second_def)
  then show ?thesis using injected_form [OF assms(1,2), of s] assms(3) freeze_lasts by auto
qed



text \<open>
  A freeze that is shorter than the one in force replaces it among the faults, and so in the console's book,
  but not on the backend's clock: when the shorter one is over neither shows a fault, and the backend is
  still stopped.
\<close>

lemma freeze_until: "\<exists>u. ck_frozenUntil (freeze c now d) = Some u \<and> now + d \<le> u"
  by (auto simp: freeze_def split: option.split)

lemma freeze_keeps: "ck_frozenUntil c = Some v \<Longrightarrow> \<exists>u. ck_frozenUntil (freeze c now d) = Some u \<and> v \<le> u"
  by (auto simp: freeze_def)

lemma second_freeze_hides_the_first:
  assumes "s' = (let s1 = s\<lparr>ms_clock := freeze (ms_clock s) now long, ms_faults := inject (ms_faults s) now modeFreeze ft long\<rparr>
      in s1\<lparr>ms_clock := freeze (ms_clock s1) later short, ms_faults := inject (ms_faults s1) later modeFreeze ft short\<rparr>)"
    and "later + short \<le> t" "t < now + long" "map_of (fs_profile (ms_faults s)) modeFreeze = None"
  shows "in_force (ms_faults s') t modeFreeze = None \<and> 0 < stall (ms_clock s') t"
proof -
  let ?c = "freeze (freeze (ms_clock s) now long) later short"
  obtain u where u: "ck_frozenUntil ?c = Some u" "now + long \<le> u"
    using freeze_until [of "ms_clock s" now long] freeze_keeps [of "freeze (ms_clock s) now long" _ later short] by fastforce
  then have "0 < time_sub u t" using assms(3) by (simp add: time_sub_def max_duration_def min_duration_def)
  then have "0 < stall ?c t" using u(1) by (simp add: stall_def freeze_left_def Let_def)
  then show ?thesis using assms by (simp add: in_force_inject profile_kept Let_def)
qed

end
