(* ===== verification/Demo_Measure.thy ===== *)
theory Demo_Measure
  imports Demo_Session "HOL-Library.Product_Lexorder" "HOL-Library.Multiset"
begin

text \<open>
  What the demo console measures and shows (\<open>cmd/demo/actions.go\<close>, \<open>faults.go\<close>): the distribution of a burst
  over the backends, the requests the balancer says its backends have answered, the cookies of the
  traffic's sessions, and the admin ports it clears faults at. \<open>strconv.ParseFloat\<close> is an argument. The
  lemmas: every backend that answered is shown once, in its order, with a bar as long as its share.
\<close>

subsection \<open>The distribution\<close>

text \<open>Names by what is before their trailing number, then by the number.\<close>

lemma naturalLess_key: "naturalLess a b \<longleftrightarrow> splitTrailingNumber a < splitTrailingNumber b"
  by (auto simp: naturalLess_def less_prod_def' split: prod.splits)

definition highest :: "(string \<times> int) list \<Rightarrow> int" where
  "highest bodies = foldl (\<lambda>high b. if snd b > high then snd b else high) 0 bodies"

definition bar_width :: "int \<Rightarrow> int \<Rightarrow> int" where
  "bar_width high n = (if high > 0 then go_div (n * 32) high else 0)"

record bar =
  ba_label :: string
  ba_width :: int
  ba_count :: int

text \<open>The bodies are a Go map, listed in the order its iteration gave.\<close>

definition bars :: "(string \<times> int) list \<Rightarrow> bar list" where
  "bars bodies =
     map (\<lambda>(name, n). \<lparr>ba_label = (if name = [] then ''(unnamed)'' else name),
             ba_width = bar_width (highest bodies) n, ba_count = n\<rparr>)
       (sort_key (splitTrailingNumber \<circ> fst) bodies)"

definition statuses_seen :: "(int \<times> int) list \<Rightarrow> string" where
  "statuses_seen statuses =
     join '', '' (map (\<lambda>(code, n). Itoa n @ CHR '' '' # CHR 0xC3 # CHR 0x97 # CHR '' '' # Itoa code) (sort_key fst statuses))"

lemma highest_snoc: "highest (bodies @ [b]) = (if snd b > highest bodies then snd b else highest bodies)"
  by (simp add: highest_def)

lemma highest_bounds: "0 \<le> highest bodies \<and> (b \<in> set bodies \<longrightarrow> snd b \<le> highest bodies)"
  by (induction bodies rule: rev_induct) (auto simp: highest_snoc, simp add: highest_def)

lemma highest_attained: "highest bodies > 0 \<Longrightarrow> \<exists>b\<in>set bodies. snd b = highest bodies"
  by (induction bodies rule: rev_induct) (auto simp: highest_snoc split: if_splits, simp add: highest_def)

lemma bars_counts: "mset (map ba_count (bars bodies)) = mset (map snd bodies)"
  by (simp add: bars_def o_def case_prod_beta mset_map)

lemma bar_width_bounds:
  assumes "b \<in> set bodies" "0 \<le> snd b"
  shows "0 \<le> bar_width (highest bodies) (snd b) \<and> bar_width (highest bodies) (snd b) \<le> 32"
proof (cases "highest bodies > 0")
  case True
  have "snd b \<le> highest bodies" using highest_bounds assms(1) by blast
  then have "snd b * 32 div highest bodies \<le> highest bodies * 32 div highest bodies"
    using True by (intro zdiv_mono1) simp_all
  then show ?thesis
    using True assms(2) by (simp add: bar_width_def go_div_nonneg pos_imp_zdiv_nonneg_iff)
qed (simp add: bar_width_def)

lemma highest_bar: "highest bodies > 0 \<Longrightarrow> bar_width (highest bodies) (highest bodies) = 32"
  by (simp add: bar_width_def go_div_nonneg)

lemma bars_in_order: "sorted_wrt (\<lambda>x y. \<not> naturalLess y x) (map fst (sort_key (splitTrailingNumber \<circ> fst) bodies))"
proof -
  have "sorted (map (splitTrailingNumber \<circ> fst) (sort_key (splitTrailingNumber \<circ> fst) bodies))" by (rule sorted_sort_key)
  then show ?thesis
    by (simp add: sorted_map sorted_wrt_map naturalLess_key not_less)
qed

subsection \<open>The balancer's own count\<close>

definition metricsURL :: "string \<Rightarrow> string" where
  "metricsURL statusURL = (case cut_suffix statusURL ''/status'' of None \<Rightarrow> statusURL | Some u \<Rightarrow> u) @ ''/metrics''"

text \<open>\<open>strings.Fields\<close>, with the field that is being read.\<close>

function fields_from :: "string \<Rightarrow> string \<Rightarrow> string list" where
  "fields_from field s =
     (case leading_space s of
        Some p \<Rightarrow> (if field = [] then [] else [field]) @ fields_from [] (drop (length p) s)
      | None \<Rightarrow> (case s of [] \<Rightarrow> (if field = [] then [] else [field]) | c # s' \<Rightarrow> fields_from (field @ [c]) s'))"
  by pat_completeness auto
termination
  by (relation "measure (length \<circ> snd)") (use leading_space_shorter in auto)

declare fields_from.simps [simp del]

definition count_sample :: "(string \<Rightarrow> float64 option) \<Rightarrow> int \<Rightarrow> string \<Rightarrow> int" where
  "count_sample ParseFloat acc line =
     (if \<not> prefix ''lb_requests_total{'' line then acc
      else case ParseFloat (last (fields_from [] line)) of
        None \<Rightarrow> acc
      | Some x \<Rightarrow> wrap64 (acc + int64_of_float x))"

definition backendRequests :: "(string \<Rightarrow> float64 option) \<Rightarrow> string \<Rightarrow> int" where
  "backendRequests ParseFloat body = foldl (count_sample ParseFloat) 0 (split_byte Demo_Config.newline body)"

text \<open>A line the code counts has a last field to read: its prefix is no blank.\<close>

lemma fields_from_nonempty: "field \<noteq> [] \<Longrightarrow> fields_from field s \<noteq> []"
proof (induction field s rule: fields_from.induct)
  case (1 field s)
  then show ?case by (subst fields_from.simps) (auto split: option.splits list.splits)
qed

lemma counted_line_has_fields: "prefix ''lb_requests_total{'' line \<Longrightarrow> fields_from [] line \<noteq> []"
proof -
  assume "prefix ''lb_requests_total{'' line"
  then obtain s where s: "line = CHR ''l'' # s" by (auto simp: prefix_def)
  have "leading_space line = None" unfolding s by (simp add: leading_space_def go_spaces_def)
  then show ?thesis using fields_from_nonempty [of "[CHR ''l'']" s] by (subst fields_from.simps) (simp add: s)
qed

subsection \<open>Sessions and admin ports\<close>

text \<open>\<open>once\<close>: the cookies a session sends, and those it keeps, which are the last that were set.\<close>

type_synonym traffic_cookies = "string \<Rightarrow> (string \<times> string) list"

definition keep_cookies :: "traffic_cookies \<Rightarrow> string \<Rightarrow> (string \<times> string) list \<Rightarrow> traffic_cookies" where
  "keep_cookies cookies who set' = (if set' = [] then cookies else cookies(who := set'))"

lemma keep_cookies_other: "s \<noteq> who \<Longrightarrow> keep_cookies cookies who set' s = cookies s"
  by (simp add: keep_cookies_def)

text \<open>
  A fault a backend reports, as the status list shows it; \<open>FormatG\<close> is the format \<open>%g\<close>. The multiplication
  sign is two bytes.
\<close>

record reportedFault =
  rf_mode :: string
  rf_rate :: float64
  rf_factor :: float64
  rf_remaining :: string

definition reported_String :: "(float64 \<Rightarrow> string) \<Rightarrow> reportedFault \<Rightarrow> string" where
  "reported_String FormatG f =
     (if flt 0 (rf_factor f)
      then rf_mode f @ CHR '' '' # CHR 0xC3 # CHR 0x97 # FormatG (rf_factor f) @ '', '' @ rf_remaining f @ '' left''
      else if flt 0 (rf_rate f)
      then rf_mode f @ '' on '' @ FormatG (Fin 100 * rf_rate f) @ ''% of requests, '' @ rf_remaining f @ '' left''
      else rf_mode f @ '', '' @ rf_remaining f @ '' left'')"

text \<open>\<open>showStatus\<close>: what is said of the faults of every backend that answered.\<close>

definition faults_shown :: "(float64 \<Rightarrow> string) \<Rightarrow> (string \<times> reportedFault list option) list \<Rightarrow> (string \<times> string) list" where
  "faults_shown FormatG answers =
     concat (map (\<lambda>(service, fs). case fs of None \<Rightarrow> [] | Some fs \<Rightarrow> map (\<lambda>f. (service, reported_String FormatG f)) fs) answers)"

lemma no_faults_shown: "faults_shown FormatG answers = [] \<longleftrightarrow> (\<forall>(service, fs)\<in>set answers. fs = None \<or> fs = Some [])"
  by (auto simp: faults_shown_def split: option.splits)

end
