(* ===== verification/Demo_Terminal.thy ===== *)
theory Demo_Terminal
  imports Demo_Measure Go_Text
begin

text \<open>
  \<open>cmd/demo/console.go\<close> and \<open>run.go\<close>, and the actions of the console as they appear on the terminal: the
  text written, the lines read and the commands run, in their order. What a command or the balancer comes
  back with is an argument. The lemmas: colour only adds escape sequences to what is said; a terminal
  whose input has ended answers with \<open>q\<close>, which leaves the menu; whatever is typed, the only commands run
  are those written in the code, on the services of the balancer's own backends.
\<close>

subsection \<open>Commands\<close>

record command =
  cm_name :: string
  cm_args :: "string list"

definition command_String :: "command \<Rightarrow> string" where
  "command_String c = join '' '' ([cm_name c] @ cm_args c)"

record environment =
  ev_composeFile :: string
  ev_configPath :: string
  ev_trafficURL :: string
  ev_statusURL :: string
  ev_service :: string
  ev_adminPort :: int

definition compose :: "environment \<Rightarrow> string list \<Rightarrow> command" where
  "compose e args = \<lparr>cm_name = ''docker'', cm_args = [''compose'', ''-f'', ev_composeFile e] @ args\<rparr>"

subsection \<open>The terminal\<close>

definition escape :: char where "escape = CHR 0x1B"

definition sgr :: "string \<Rightarrow> string" where "sgr n = escape # CHR ''['' # n @ ''m''"

definition sgrReset :: string where "sgrReset = sgr ''0''"
definition sgrBold :: string where "sgrBold = sgr ''1''"
definition sgrDim :: string where "sgrDim = sgr ''2''"
definition sgrRed :: string where "sgrRed = sgr ''31''"
definition sgrGreen :: string where "sgrGreen = sgr ''32''"
definition sgrAmber :: string where "sgrAmber = sgr ''33''"
definition sgrCyan :: string where "sgrCyan = sgr ''36''"

lemmas sgr_codes = sgrReset_def sgrBold_def sgrDim_def sgrRed_def sgrGreen_def sgrAmber_def sgrCyan_def

text \<open>\<open>tm_in\<close> are the lines not read yet, \<open>tm_ran\<close> the commands run so far.\<close>

record terminal =
  tm_out :: string
  tm_in :: "string list"
  tm_coloured :: bool
  tm_ran :: "command list"

definition paint :: "terminal \<Rightarrow> string \<Rightarrow> string list \<Rightarrow> string" where
  "paint t s codes = (if \<not> tm_coloured t \<or> codes = [] then s else join [] codes @ s @ sgrReset)"

definition nl :: string where "nl = [CHR 0x0A]"

definition printf :: "string \<Rightarrow> terminal \<Rightarrow> terminal" where
  "printf s t = t\<lparr>tm_out := tm_out t @ s\<rparr>"

definition blank :: "terminal \<Rightarrow> terminal" where "blank t = printf nl t"

definition heading :: "string \<Rightarrow> terminal \<Rightarrow> terminal" where
  "heading s t = printf (nl @ paint t s [sgrBold] @ nl) t"

definition step :: "string \<Rightarrow> terminal \<Rightarrow> terminal" where
  "step s t = printf (''  '' @ s @ nl) t"

definition mark :: "string \<Rightarrow> string \<Rightarrow> string \<Rightarrow> terminal \<Rightarrow> terminal" where
  "mark symbol colour s t = printf (''  '' @ paint t symbol [colour] @ '' '' @ s @ nl) t"

definition tick :: string where "tick = [CHR 0xE2, CHR 0x9C, CHR 0x93]"
definition ballot :: string where "ballot = [CHR 0xE2, CHR 0x9C, CHR 0x97]"

definition con_ok :: "string \<Rightarrow> terminal \<Rightarrow> terminal" where "con_ok = mark tick sgrGreen"
definition con_warn :: "string \<Rightarrow> terminal \<Rightarrow> terminal" where "con_warn = mark ''!'' sgrAmber"
definition con_fail :: "string \<Rightarrow> terminal \<Rightarrow> terminal" where "con_fail = mark ballot sgrRed"

definition note_down :: "string \<Rightarrow> terminal \<Rightarrow> terminal" where
  "note_down s t = printf (''  '' @ paint t s [sgrDim] @ nl) t"

definition echo :: "string \<Rightarrow> terminal \<Rightarrow> terminal" where
  "echo s t = printf (nl @ ''  '' @ paint t ''$'' [sgrCyan] @ '' '' @ paint t s [sgrCyan] @ nl) t"

definition ask :: "string \<Rightarrow> terminal \<Rightarrow> string \<times> terminal" where
  "ask q t =
     (let t = printf (nl @ paint t q [sgrBold] @ '' '') t
      in case tm_in t of
           [] \<Rightarrow> (''q'', t)
         | l # ls \<Rightarrow> (trim_space l, t\<lparr>tm_in := ls\<rparr>))"

definition lower_char :: "char \<Rightarrow> char" where
  "lower_char c = (let n = of_char c :: nat in if 65 \<le> n \<and> n \<le> 90 then char_of (n + 32) else c)"

definition confirm :: "string \<Rightarrow> terminal \<Rightarrow> bool \<times> terminal" where
  "confirm q t =
     (case ask (q @ '' [y/N]'') t of
        (answer, t) \<Rightarrow> (let answer = map lower_char answer in (answer = ''y'' \<or> answer = ''yes'', t)))"

text \<open>Running a command, after showing it; whether it succeeded is what the outside says.\<close>

definition ran :: "command \<Rightarrow> terminal \<Rightarrow> terminal" where
  "ran c t = t\<lparr>tm_ran := tm_ran t @ [c]\<rparr>"

definition shown_and_run :: "command \<Rightarrow> terminal \<Rightarrow> terminal" where
  "shown_and_run c t = ran c (echo (command_String c) t)"

subsection \<open>Bringing the stack up\<close>

definition docker_version :: command where
  "docker_version = \<lparr>cm_name = ''docker'', cm_args = [''version'', ''--format'', ''{{.Server.Version}}'']\<rparr>"

definition dash :: string where "dash = '' '' @ [CHR 0xE2, CHR 0x80, CHR 0x94] @ '' ''"

definition preflight :: "bool \<Rightarrow> terminal \<Rightarrow> bool \<times> terminal" where
  "preflight reachable t =
     (let t = ran docker_version (heading ''Checking the environment'' t)
      in if \<not> reachable
         then (False, con_fail (''Docker is not reachable'' @ dash @ ''start Docker Desktop and run this again'') t)
         else (True, con_ok ''Docker is running'' t))"

text \<open>\<open>why\<close> is the error's text.\<close>

definition bringUp ::
  "environment \<Rightarrow> bool \<Rightarrow> (console_status option \<times> bool) list \<Rightarrow> (ready_error \<Rightarrow> string) \<Rightarrow> terminal
     \<Rightarrow> console_status option \<times> terminal" where
  "bringUp e started polls why t =
     (let t = shown_and_run (compose e [''up'', ''-d'', ''--build'']) (heading ''Starting the stack'' t)
      in if \<not> started then (None, t)
         else
           (let t = step (''waiting for the balancer to answer on '' @ ev_statusURL e) (blank t)
            in case awaitReady polls of
                 Inl x \<Rightarrow> (None, con_fail (''the balancer did not become ready: '' @ why x) t)
               | Inr st \<Rightarrow>
                   (Some st, con_ok (Itoa (cs_healthy st) @ '' of '' @ Itoa (cs_total st) @ '' backends healthy'') t)))"

subsection \<open>Backends\<close>

definition setBackendRunning :: "environment \<Rightarrow> string \<Rightarrow> bool \<Rightarrow> terminal \<Rightarrow> terminal" where
  "setBackendRunning e service running t =
     (let action = (if running then ''start'' else ''stop'') in shown_and_run (compose e [action, service]) t)"

definition state_of :: "terminal \<Rightarrow> entry \<Rightarrow> string" where
  "state_of t b = (if \<not> en_healthy b then paint t ''unhealthy'' [sgrRed] else paint t ''healthy'' [sgrGreen])"

text \<open>\<open>%2d\<close>, \<open>%-20s\<close>.\<close>

definition backend_choice :: "terminal \<Rightarrow> nat \<times> entry \<Rightarrow> string" where
  "backend_choice t x = pad_left 2 (decimal (fst x + 1)) @ ''  '' @ pad_right 20 (en_addr (snd x)) @ '' '' @ state_of t (snd x)"

text \<open>\<open>%q\<close> of an answer is an argument; \<open>failed\<close> is the error of the command, if it had one.\<close>

definition show_changeBackend ::
  "environment \<Rightarrow> (string \<Rightarrow> string) \<Rightarrow> console_status option \<Rightarrow> string option \<Rightarrow> bool \<Rightarrow> terminal \<Rightarrow> terminal" where
  "show_changeBackend e Quote answered failed start t =
     (let st = mustStatus answered; servs = service_names st
      in if servs = [] then con_fail ''no backends are configured'' t
         else
           (let t = fold (\<lambda>x t. step (backend_choice t x) t) (enumerate 0 (cs_backends st)) (blank t)
            in case ask ''which one?'' t of
                 (answer, t) \<Rightarrow>
                   (case pick_choice answer (length servs) of
                      None \<Rightarrow> con_warn (''no backend '' @ Quote answer @ '' in the list'') t
                    | Some i \<Rightarrow>
                        (let t = setBackendRunning e (servs ! i) start t
                         in case failed of
                              Some err \<Rightarrow> con_fail err t
                            | None \<Rightarrow>
                                if start
                                then con_ok (servs ! i @ '' started'' @ dash @ ''it rejoins the pool after two successful checks'') t
                                else con_ok (servs ! i @ '' stopped'' @ dash @ ''it leaves the pool after three failed checks'') t))))"

subsection \<open>The configuration\<close>

definition show_reload :: "environment \<Rightarrow> console_status option \<Rightarrow> bool \<Rightarrow> console_status option list \<Rightarrow> terminal \<Rightarrow> terminal" where
  "show_reload e earlier signalled polls t =
     (let t = shown_and_run (compose e [''kill'', ''-s'', ''HUP'', ev_service e]) t;
          said = note_down (''compose reports '' @ [CHR 0x22] @ ''Killed'' @ [CHR 0x22] @ '' for any signal it sends'' @ dash
                   @ ''the balancer is still running'')
      in case console_reload earlier signalled polls of
           SignalFailed \<Rightarrow> t
         | Reloaded st \<Rightarrow>
             con_ok (''configuration reloaded ('' @ cs_algorithm st @ '', '' @ Itoa (cs_total st) @ '' backends, ''
               @ Itoa (cs_reloads st) @ '' reloads applied)'') (said t)
         | NotConfirmed \<Rightarrow> con_warn ''the reload was not confirmed within five seconds'' (said t))"

definition show_config :: "environment \<Rightarrow> string \<Rightarrow> config_outside \<Rightarrow> config_result \<Rightarrow> terminal \<Rightarrow> terminal" where
  "show_config e verb out r t =
     (case r of
        ReadFailed \<Rightarrow> t
      | EditFailed _ \<Rightarrow> t
      | WriteFailed \<Rightarrow> t
      | _ \<Rightarrow> show_reload e (co_earlier out) (co_signalled out) (co_polls out) (note_down (ev_configPath e @ verb) t))"

definition show_applyConfig :: "environment \<Rightarrow> config_outside \<Rightarrow> edit list \<Rightarrow> string \<Rightarrow> terminal \<Rightarrow> terminal" where
  "show_applyConfig e out edits content t = show_config e '' edited'' out (fst (applyConfig out edits content)) t"

text \<open>\<open>restore\<close>: the file is written, the balancer reloads, and one command starts every backend.\<close>

definition show_restore :: "environment \<Rightarrow> config_outside \<Rightarrow> console_status option \<Rightarrow> terminal \<Rightarrow> terminal" where
  "show_restore e out answered t =
     (let t' = show_config e '' restored'' out (fst (write_config out [])) t
      in if co_left out \<noteq> None \<or> \<not> co_signalled out then t'
         else shown_and_run (compose e ([''start''] @ service_names (mustStatus answered))) t')"

text \<open>The loop that is shown when the faults of every backend are removed, and the requests it stands for.\<close>

definition port_loop :: "environment \<Rightarrow> string list \<Rightarrow> string \<Rightarrow> string" where
  "port_loop e servs what =
     ''for port in $(seq '' @ Itoa (ev_adminPort e) @ '' '' @ Itoa (wrap64 (ev_adminPort e + int (length servs) - 1))
     @ ''); do curl -s '' @ what @ ''; done''"

definition show_clearFaults :: "environment \<Rightarrow> string list \<Rightarrow> terminal \<Rightarrow> terminal" where
  "show_clearFaults e servs t =
     (if servs = [] then t else echo (port_loop e servs ''-X DELETE 127.0.0.1:$port/faults >/dev/null'') t)"

definition show_injectFault :: "string \<Rightarrow> form \<Rightarrow> terminal \<Rightarrow> terminal" where
  "show_injectFault base ps t =
     echo (''curl -s -X POST '' @ base @ ''/faults -d '' @ [CHR 0x27] @ Encode ps @ [CHR 0x27]) t"

subsection \<open>The status and the welcome\<close>

definition pool_line :: "terminal \<Rightarrow> console_status \<Rightarrow> string \<Rightarrow> string" where
  "pool_line t st healthy =
     paint t (cs_algorithm st) [sgrBold] @ middle_dot @ Itoa (cs_healthy st) @ ''/'' @ Itoa (cs_total st) @ healthy
     @ middle_dot @ Itoa (cs_reloads st) @ '' reloads applied''"

text \<open>\<open>%-20s weight %d  %-10s %d active\<close>: the state is padded with its colours.\<close>

definition status_line :: "terminal \<Rightarrow> entry \<Rightarrow> string" where
  "status_line t b =
     pad_right 20 (en_addr b) @ '' weight '' @ Itoa (en_weight b) @ ''  '' @ pad_right 10 (state_of t b) @ '' ''
     @ Itoa (en_active b) @ '' active''"

definition fault_line :: "string \<times> string \<Rightarrow> string" where
  "fault_line x = pad_right 12 (fst x) @ '' '' @ snd x"

text \<open>\<open>answered\<close> is the status or the error's text; \<open>reported\<close> is what each backend says of its faults.\<close>

definition showStatus ::
  "environment \<Rightarrow> (float64 \<Rightarrow> string) \<Rightarrow> string + console_status \<Rightarrow> (string \<Rightarrow> reportedFault list option) \<Rightarrow> terminal \<Rightarrow> terminal" where
  "showStatus e FormatG answered reported t =
     (let t = echo (''curl -s '' @ ev_statusURL e) t
      in case answered of
           Inl err \<Rightarrow> con_fail err t
         | Inr st \<Rightarrow>
             (let t = step (pool_line t st '' healthy'') (blank t);
                  t = fold (\<lambda>b t. step (status_line t b) t) (cs_backends st) t;
                  servs = service_names st
              in if servs = [] then t
                 else
                   (let t = echo (port_loop e servs ''127.0.0.1:$port/faults'') t;
                        found = faults_shown FormatG (map (\<lambda>s. (s, reported s)) servs)
                    in if found = [] then note_down ''no faults injected'' t
                       else fold (\<lambda>x t. step (fault_line x) t) found t)))"

definition show_welcome :: "environment \<Rightarrow> console_status \<Rightarrow> terminal \<Rightarrow> terminal" where
  "show_welcome e st t =
     (let t = heading ''Ege-Balancer demo console'' t;
          t = fold step
                [''traffic      '' @ ev_trafficURL e,
                 ''status       '' @ ev_statusURL e,
                 ''grafana      http://localhost:3000/d/ege-balancer            overview'',
                 ''             http://localhost:3000/d/ege-balancer-backends   backends'',
                 ''             http://localhost:3000/d/ege-balancer-resilience resilience'',
                 ''             http://localhost:3000/d/ege-balancer-faults     faults'',
                 ''prometheus   http://localhost:9090''] t;
          t = step (''now: '' @ pool_line t st '' backends healthy'') (blank t);
          t = heading ''Actions'' t;
          t = fold step
                [''1  start or stop sustained traffic'',
                 ''2  measure the distribution over 30 requests'',
                 ''3  stop a backend            4  start a backend'',
                 ''5  change the algorithm      6  demonstrate the rate limit'',
                 ''7  show the status           8  make a backend misbehave'',
                 ''9  sticky sessions on or off'',
                 ''r  reset everything          q  quit'',
                 ''?  show this again''] t
      in note_down ''every action prints the command it runs, so it can be repeated by hand'' t)"

subsection \<open>Leaving, and the program\<close>

text \<open>\<open>changed\<close> says that the file could be read and differs from what the console found.\<close>

definition show_leave ::
  "environment \<Rightarrow> bool \<Rightarrow> console_status option \<Rightarrow> bool \<Rightarrow> config_outside \<Rightarrow> console_status option \<Rightarrow> string \<Rightarrow> terminal \<Rightarrow> terminal"
  where
  "show_leave e faulty for_faults changed out for_restore err t =
     (let t = (if faulty then show_clearFaults e (service_names (mustStatus for_faults)) t else t);
          t = (if changed
               then (let t = show_restore e out for_restore (step (''restoring '' @ ev_configPath e) (blank t))
                     in if err \<noteq> [] then con_fail err t else t)
               else t)
      in case confirm ''stop the stack?'' t of
           (True, t) \<Rightarrow> shown_and_run (compose e [''down'']) t
         | (False, t) \<Rightarrow>
             note_down (''the stack is still running; stop it with: docker compose -f '' @ ev_composeFile e @ '' down'') t)"

text \<open>What \<open>run\<close> does before the menu: the status and the file it starts the session with.\<close>

datatype start_error = NoDocker | NotReady | NoConfiguration

definition demo_start ::
  "environment \<Rightarrow> bool \<Rightarrow> bool \<Rightarrow> (console_status option \<times> bool) list \<Rightarrow> (ready_error \<Rightarrow> string) \<Rightarrow> string option \<Rightarrow> terminal
     \<Rightarrow> (start_error + string) \<times> terminal" where
  "demo_start e reachable started polls why content t =
     (case preflight reachable t of
        (False, t) \<Rightarrow> (Inl NoDocker, t)
      | (True, t) \<Rightarrow>
          (case bringUp e started polls why t of
             (None, t) \<Rightarrow> (Inl NotReady, t)
           | (Some st, t) \<Rightarrow>
               (case content of
                  None \<Rightarrow> (Inl NoConfiguration, t)
                | Some baseline \<Rightarrow> (Inr baseline, show_welcome e st t))))"

subsection \<open>What is typed reaches no command\<close>

datatype act =
    ActPreflight bool
  | ActBringUp bool "(console_status option \<times> bool) list"
  | ActChangeBackend "console_status option" "string option" bool
  | ActApply config_outside "edit list" string
  | ActRestore config_outside "console_status option"
  | ActInject string form
  | ActStatus "string + console_status" "string \<Rightarrow> reportedFault list option"
  | ActLeave bool "console_status option" bool config_outside "console_status option" string

fun perform ::
  "environment \<Rightarrow> (string \<Rightarrow> string) \<Rightarrow> (ready_error \<Rightarrow> string) \<Rightarrow> (float64 \<Rightarrow> string) \<Rightarrow> act \<Rightarrow> terminal \<Rightarrow> terminal" where
  "perform e Q why G (ActPreflight reachable) t = snd (preflight reachable t)"
| "perform e Q why G (ActBringUp started polls) t = snd (bringUp e started polls why t)"
| "perform e Q why G (ActChangeBackend answered failed start) t = show_changeBackend e Q answered failed start t"
| "perform e Q why G (ActApply out edits content) t = show_applyConfig e out edits content t"
| "perform e Q why G (ActRestore out answered) t = show_restore e out answered t"
| "perform e Q why G (ActInject base ps) t = show_injectFault base ps t"
| "perform e Q why G (ActStatus answered reported) t = showStatus e G answered reported t"
| "perform e Q why G (ActLeave faulty st changed out st' err) t = show_leave e faulty st changed out st' err t"

definition hang_up :: "environment \<Rightarrow> command" where
  "hang_up e = compose e [''kill'', ''-s'', ''HUP'', ev_service e]"

definition start_every :: "environment \<Rightarrow> console_status option \<Rightarrow> command" where
  "start_every e answered = compose e ([''start''] @ service_names (mustStatus answered))"

fun allowed :: "environment \<Rightarrow> act \<Rightarrow> command list" where
  "allowed e (ActPreflight _) = [docker_version]"
| "allowed e (ActBringUp _ _) = [compose e [''up'', ''-d'', ''--build'']]"
| "allowed e (ActChangeBackend answered _ start) =
     map (\<lambda>s. compose e [if start then ''start'' else ''stop'', s]) (service_names (mustStatus answered))"
| "allowed e (ActApply _ _ _) = [hang_up e]"
| "allowed e (ActRestore _ answered) = [hang_up e, start_every e answered]"
| "allowed e (ActInject _ _) = []"
| "allowed e (ActStatus _ _) = []"
| "allowed e (ActLeave _ _ _ _ st _) = [hang_up e, start_every e st, compose e [''down'']]"

lemmas says_defs = heading_def step_def mark_def con_ok_def con_warn_def con_fail_def note_down_def echo_def blank_def printf_def

lemma says_ran [simp]:
  "tm_ran (heading s t) = tm_ran t" "tm_ran (step s t) = tm_ran t" "tm_ran (con_ok s t) = tm_ran t"
  "tm_ran (con_warn s t) = tm_ran t" "tm_ran (con_fail s t) = tm_ran t" "tm_ran (note_down s t) = tm_ran t"
  "tm_ran (echo s t) = tm_ran t" "tm_ran (blank t) = tm_ran t" "tm_ran (show_clearFaults e ss t) = tm_ran t"
  by (simp_all add: says_defs show_clearFaults_def)

lemma ask_ran [simp]: "tm_ran (snd (ask q t)) = tm_ran t"
  by (simp add: ask_def printf_def Let_def split: list.split)

lemma confirm_ran [simp]: "tm_ran (snd (confirm q t)) = tm_ran t"
  by (simp add: confirm_def Let_def split_beta)

lemma steps_ran [simp]: "tm_ran (fold (\<lambda>x t. step (f t x) t) xs t) = tm_ran t"
  by (induction xs arbitrary: t) simp_all

lemma shown_and_run_ran [simp]: "tm_ran (shown_and_run c t) = tm_ran t @ [c]"
  by (simp add: shown_and_run_def ran_def)

lemma reload_ran: "tm_ran (show_reload e x y z t) = tm_ran t @ [hang_up e]"
  by (simp add: show_reload_def hang_up_def Let_def split: reload_result.split)

lemma config_ran: "set (tm_ran (show_config e verb out r t)) \<subseteq> set (tm_ran t) \<union> {hang_up e}"
  by (auto simp: show_config_def reload_ran split: config_result.splits)

lemma restore_ran: "set (tm_ran (show_restore e out st t)) \<subseteq> set (tm_ran t) \<union> {hang_up e, start_every e st}"
  using config_ran [of e "'' restored''" out "fst (write_config out [])" t]
  by (auto simp: show_restore_def start_every_def Let_def)

lemma change_ran:
  "set (tm_ran (show_changeBackend e Q answered failed start t)) \<subseteq>
     set (tm_ran t) \<union> set (map (\<lambda>s. compose e [if start then ''start'' else ''stop'', s]) (service_names (mustStatus answered)))"
proof -
  let ?servs = "service_names (mustStatus answered)"
  define t1 where "t1 = fold (\<lambda>x t. step (backend_choice t x) t) (enumerate 0 (cs_backends (mustStatus answered))) (blank t)"
  have t1: "tm_ran t1 = tm_ran t" by (simp add: t1_def)
  obtain a t2 where ask: "ask ''which one?'' t1 = (a, t2)" by fastforce
  then have t2: "tm_ran t2 = tm_ran t" using ask_ran [of "''which one?''" t1] t1 by simp
  show ?thesis
  proof (cases "?servs = [] \<or> pick_choice a (length ?servs) = None")
    case True
    then show ?thesis using ask t2 by (auto simp: show_changeBackend_def t1_def [symmetric] Let_def)
  next
    case False
    then obtain i where i: "pick_choice a (length ?servs) = Some i" "?servs \<noteq> []" by auto
    then have "?servs ! i \<in> set ?servs" using pick_in_range by (intro nth_mem)
    moreover have "tm_ran (show_changeBackend e Q answered failed start t)
        = tm_ran t @ [compose e [if start then ''start'' else ''stop'', ?servs ! i]]"
      using i ask t2 by (simp add: show_changeBackend_def t1_def [symmetric] setBackendRunning_def Let_def split: option.split)
    ultimately show ?thesis by auto
  qed
qed

lemma status_ran [simp]: "tm_ran (showStatus e G answered reported t) = tm_ran t"
  by (simp add: showStatus_def Let_def split: sum.split)

lemma leave_ran:
  "set (tm_ran (show_leave e faulty st changed out st' err t)) \<subseteq>
     set (tm_ran t) \<union> {hang_up e, start_every e st', compose e [''down'']}"
proof -
  define t1 where "t1 = (if faulty then show_clearFaults e (service_names (mustStatus st)) t else t)"
  define t2 where "t2 = (if changed
     then (let t = show_restore e out st' (step (''restoring '' @ ev_configPath e) (blank t1))
           in if err \<noteq> [] then con_fail err t else t) else t1)"
  obtain b t3 where c: "confirm ''stop the stack?'' t2 = (b, t3)" by fastforce
  have "tm_ran t1 = tm_ran t" by (simp add: t1_def)
  then have "set (tm_ran t2) \<subseteq> set (tm_ran t) \<union> {hang_up e, start_every e st'}"
    using restore_ran [of e out st' "step (''restoring '' @ ev_configPath e) (blank t1)"] by (auto simp: t2_def Let_def)
  moreover have "tm_ran t3 = tm_ran t2"
    using confirm_ran [of "''stop the stack?''" t2] unfolding c by simp
  moreover have "show_leave e faulty st changed out st' err t =
      (if b then shown_and_run (compose e [''down'']) t3
       else note_down (''the stack is still running; stop it with: docker compose -f '' @ ev_composeFile e @ '' down'') t3)"
    using c by (simp add: show_leave_def t1_def [symmetric] t2_def [symmetric] Let_def)
  ultimately show ?thesis by auto
qed

lemma perform_ran: "set (tm_ran (perform e Q why G a t)) \<subseteq> set (tm_ran t) \<union> set (allowed e a)"
proof (cases a)
  case (ActPreflight r)
  then show ?thesis by (simp add: preflight_def ran_def Let_def)
next
  case (ActBringUp started polls)
  then show ?thesis by (auto simp: bringUp_def Let_def split: sum.split)
next
  case (ActChangeBackend answered failed start)
  then show ?thesis using change_ran [of e Q answered failed start t] by simp
next
  case (ActApply out edits content)
  then show ?thesis using config_ran by (simp add: show_applyConfig_def)
next
  case (ActRestore out answered)
  then show ?thesis using restore_ran [of e out answered t] by auto
next
  case (ActInject base ps)
  then show ?thesis by (simp add: show_injectFault_def)
next
  case (ActLeave faulty st changed out st' err)
  then show ?thesis using leave_ran [of e faulty st changed out st' err t] by auto
qed simp

text \<open>
  C19: Nothing typed at the console becomes part of a command: whatever lines are entered, and whatever the
  actions, every command the console runs is one of those written in its code, and the only names in them
  are the services of the backends the balancer itself reported.
\<close>

lemma typed_text_reaches_no_command:
  "set (tm_ran (fold (perform e Q why G) acts t)) \<subseteq> set (tm_ran t) \<union> set (concat (map (allowed e) acts))"
proof (induction acts arbitrary: t)
  case (Cons a acts)
  show ?case using Cons.IH [of "perform e Q why G a t"] perform_ran [of e Q why G a t] by auto
qed simp

text \<open>A command that is shown with a form can be repeated as it is shown: the form closes no quote.\<close>

lemma encoded_form_is_quoted: "CHR 0x27 \<notin> set (Encode ps)"
proof -
  have "\<not> unreserved CHR 0x27" by (simp add: unreserved_def)
  moreover have "unreserved x \<or> x = CHR ''+'' \<or> x = CHR ''%''" if "x \<in> set (escape_char c)" for x c
    using that byte_halves [of c, THEN hex_char_plain] by (auto simp: escape_char_def Let_def split: if_splits)
  ultimately have "CHR 0x27 \<notin> set (escape_char c)" for c by fastforce
  then have "CHR 0x27 \<notin> set (QueryEscape s)" for s by (auto simp: QueryEscape_def)
  then have "CHR 0x27 \<notin> set (encode_pair x)" for x by (simp add: encode_pair_def)
  moreover have "set (join ''&'' ss) \<subseteq> {CHR ''&''} \<union> (\<Union>s\<in>set ss. set s)" for ss
    by (induction ss rule: induct_list012) auto
  ultimately show ?thesis by (fastforce simp: Encode_def)
qed

subsection \<open>Colour\<close>

text \<open>What is seen of a text: the escape sequences are left out, each up to its \<open>m\<close>.\<close>

fun seen_of :: "bool \<Rightarrow> string \<Rightarrow> string" where
  "seen_of hidden [] = []"
| "seen_of True (c # s) = seen_of (c \<noteq> CHR ''m'') s"
| "seen_of False (c # s) = (if c = escape then seen_of True s else c # seen_of False s)"

definition printable :: "string \<Rightarrow> bool" where "printable s \<longleftrightarrow> escape \<notin> set s"

lemma seen_printable: "printable s \<Longrightarrow> seen_of False (s @ r) = s @ seen_of False r"
  by (induction s) (auto simp: printable_def)

lemma seen_sgr: "list_all (\<lambda>c. c \<noteq> CHR ''m'') n \<Longrightarrow> seen_of False (sgr n @ r) = seen_of False r"
proof -
  have "list_all (\<lambda>c. c \<noteq> CHR ''m'') n \<Longrightarrow> seen_of True (n @ CHR ''m'' # r) = seen_of False r"
    by (induction n) simp_all
  then show "list_all (\<lambda>c. c \<noteq> CHR ''m'') n \<Longrightarrow> ?thesis" by (simp add: sgr_def)
qed

definition colours :: "string list" where
  "colours = [sgrBold, sgrDim, sgrRed, sgrGreen, sgrAmber, sgrCyan]"

lemma seen_paint:
  assumes "printable s" "c \<in> set colours"
  shows "seen_of False (paint t s [c] @ r) = s @ seen_of False r"
proof -
  let ?ns = "[''1'', ''2'', ''31'', ''32'', ''33'', ''36'']"
  have eq: "colours = map sgr ?ns" by (simp add: colours_def sgr_codes)
  have "c \<in> sgr ` set ?ns" using assms(2) unfolding eq set_map .
  then obtain n where "c = sgr n" "n \<in> set ?ns" by (rule imageE)
  then have n: "c = sgr n" "list_all (\<lambda>c. c \<noteq> CHR ''m'') n" by auto
  have "seen_of False (sgrReset @ r) = seen_of False r" unfolding sgrReset_def by (intro seen_sgr) simp
  then show ?thesis
    using seen_sgr [OF n(2), of "s @ sgrReset @ r"] assms(1)
    by (simp add: paint_def n(1) seen_printable)
qed

text \<open>
  What a line said in colour shows is the line said without, for every way of saying one.
\<close>

definition displays :: "(terminal \<Rightarrow> terminal) \<Rightarrow> string \<Rightarrow> bool" where
  "displays say what \<longleftrightarrow> (\<forall>t. \<exists>s. tm_out (say t) = tm_out t @ s \<and> (\<forall>r. seen_of False (s @ r) = what @ seen_of False r))"

lemma displays_printf: "(\<And>t r. seen_of False (f t @ r) = what @ seen_of False r) \<Longrightarrow> displays (\<lambda>t. printf (f t) t) what"
  by (auto simp: displays_def printf_def)

lemma nl_seen [simp]: "seen_of False (nl @ r) = nl @ seen_of False r"
  by (simp add: nl_def escape_def)

lemma colour_shows_the_same:
  assumes "printable s"
  shows "displays (heading s) (nl @ s @ nl)" "displays (step s) (''  '' @ s @ nl)"
    "displays (con_ok s) (''  '' @ tick @ '' '' @ s @ nl)" "displays (con_warn s) (''  ! '' @ s @ nl)"
    "displays (con_fail s) (''  '' @ ballot @ '' '' @ s @ nl)" "displays (note_down s) (''  '' @ s @ nl)"
    "displays (echo s) (nl @ ''  $ '' @ s @ nl)"
proof -
  have p: "printable tick" "printable ballot" "printable ''!''" "printable ''$''"
    by (simp_all add: printable_def tick_def ballot_def escape_def)
  have c: "sgrBold \<in> set colours" "sgrDim \<in> set colours" "sgrRed \<in> set colours" "sgrGreen \<in> set colours"
    "sgrAmber \<in> set colours" "sgrCyan \<in> set colours" by (simp_all add: colours_def)
  have e: "escape \<noteq> CHR '' ''" by (simp add: escape_def)
  note simps = seen_paint seen_printable assms p c e e [symmetric]
  show "displays (heading s) (nl @ s @ nl)" unfolding heading_def by (rule displays_printf) (simp add: simps)
  show "displays (step s) (''  '' @ s @ nl)" unfolding step_def by (rule displays_printf) (simp add: simps)
  show "displays (con_ok s) (''  '' @ tick @ '' '' @ s @ nl)" unfolding con_ok_def mark_def by (rule displays_printf) (simp add: simps)
  show "displays (con_warn s) (''  ! '' @ s @ nl)" unfolding con_warn_def mark_def by (rule displays_printf) (simp add: simps)
  show "displays (con_fail s) (''  '' @ ballot @ '' '' @ s @ nl)" unfolding con_fail_def mark_def by (rule displays_printf) (simp add: simps)
  show "displays (note_down s) (''  '' @ s @ nl)" unfolding note_down_def by (rule displays_printf) (simp add: simps)
  show "displays (echo s) (nl @ ''  $ '' @ s @ nl)" unfolding echo_def by (rule displays_printf) (simp add: simps)
qed

text \<open>
  Not so the status: its column is padded with the colours counted in, so a healthy and an unhealthy
  backend take a different width on a terminal with colour.
\<close>

lemma coloured_states_are_not_aligned:
  assumes "tm_coloured t"
  shows "seen_of False (pad_right 10 (state_of t (b\<lparr>en_healthy := True\<rparr>))) = ''healthy''"
    "seen_of False (pad_right 10 (state_of t (b\<lparr>en_healthy := False\<rparr>))) = ''unhealthy''"
proof -
  have wide: "pad_right 10 s = s" if "ascii s" "10 \<le> length s" for s
    using that by (simp add: pad_right_def rune_count_of_ascii)
  have "pad_right 10 (state_of t (b\<lparr>en_healthy := True\<rparr>)) = paint t ''healthy'' [sgrGreen]"
    "pad_right 10 (state_of t (b\<lparr>en_healthy := False\<rparr>)) = paint t ''unhealthy'' [sgrRed]"
    using assms by (simp_all add: state_of_def, intro wide, simp_all add: paint_def sgr_codes sgr_def escape_def ascii_Cons byte_in_def wide)
  moreover have "printable ''healthy''" "printable ''unhealthy''" "sgrGreen \<in> set colours" "sgrRed \<in> set colours"
    by (simp_all add: printable_def escape_def colours_def)
  ultimately show "seen_of False (pad_right 10 (state_of t (b\<lparr>en_healthy := True\<rparr>))) = ''healthy''"
    "seen_of False (pad_right 10 (state_of t (b\<lparr>en_healthy := False\<rparr>))) = ''unhealthy''"
    using seen_paint [of "''healthy''" sgrGreen t "[]"] seen_paint [of "''unhealthy''" sgrRed t "[]"] by simp_all
qed

subsection \<open>The end of the input\<close>

text \<open>A terminal that has ended leaves the menu and does not stop the stack.\<close>

lemma ended_input_leaves:
  "tm_in t = [] \<Longrightarrow> fst (ask q t) = ''q''" "tm_in t = [] \<Longrightarrow> \<not> fst (confirm q t)"
  "snd (console_round p baseline me ''q'' d)"
proof -
  show "tm_in t = [] \<Longrightarrow> \<not> fst (confirm q t)"
    by (simp add: confirm_def ask_def printf_def lower_char_def Let_def)
  show "snd (console_round p baseline me ''q'' d)" by (simp add: console_round_def Let_def)
qed (simp add: ask_def printf_def Let_def)

end
