(* ===== verification/Routes.thy ===== *)
theory Routes
  imports Mock_Admin Observability
begin

text \<open>
  Which handler a path reaches, beside the admin port's (\<open>Mock_Admin\<close>): the mock backend's traffic port
  (\<open>handler\<close> of \<open>cmd/mockbackend/server.go\<close>) and the balancer's metrics port (\<open>Endpoints\<close> of
  \<open>internal/observability/pool.go\<close>), with the patterns of \<open>http.ServeMux\<close>. The lemmas: profiling is off
  the metrics port unless it is asked for, and asking for it hides nothing else.
\<close>

subsection \<open>The mock backend's traffic port\<close>

datatype traffic_route = HealthRoute | ServeRoute

definition mock_route :: "string \<Rightarrow> traffic_route" where
  "mock_route path = (if path = ''/healthz'' then HealthRoute else ServeRoute)"

subsection \<open>The balancer's metrics port\<close>

datatype endpoint = MetricsPage | StatusPage | LivePage | ReadyPage | PprofIndex | PprofPage string

definition pprof_pages :: "string list" where
  "pprof_pages = [''cmdline'', ''profile'', ''symbol'', ''trace'']"

definition pprof_route :: "string \<Rightarrow> endpoint option" where
  "pprof_route path =
     (case cut_prefix path ''/debug/pprof/'' of
        None \<Rightarrow> None
      | Some page \<Rightarrow> Some (if page \<in> set pprof_pages then PprofPage page else PprofIndex))"

definition Endpoints :: "bool \<Rightarrow> string \<Rightarrow> endpoint option" where
  "Endpoints withPprof path =
     (if path = ''/metrics'' then Some MetricsPage
      else if path = ''/status'' then Some StatusPage
      else if path = ''/healthz'' then Some LivePage
      else if path = ''/readyz'' then Some ReadyPage
      else if withPprof then pprof_route path else None)"

lemma no_profiling_unless_asked: "Endpoints False path \<noteq> Some PprofIndex \<and> Endpoints False path \<noteq> Some (PprofPage page)"
  by (simp add: Endpoints_def)

lemma profiling_hides_nothing: "Endpoints False path = Some e \<Longrightarrow> Endpoints True path = Some e"
  by (auto simp: Endpoints_def split: if_splits)

end
