(* ===== verification/Spec2Isabelle.thy ===== *)
theory Spec2Isabelle
  imports System Balancer_Command Copy_Buffers Health_Probing Forwarding Load_Report Load_Requests Demo_Faults Demo_Terminal Routes
begin

text \<open>
  A verification development of ege-balancer, an HTTP load balancer written in Go with the tools around it:
  a mock backend, a load generator and a demo console. Names of the code are kept; what clashes with a name
  of HOL, or is a method of several types, carries the type's name (\<open>cache_size\<close>, \<open>RoundRobin_Select\<close>).

  The program and its parts. A request comes in through the limiting listener of \<open>internal/server\<close>, is
  given an identifier, passes the rate limiter and the framing check, and reaches the core of
  \<open>internal/proxy\<close>, which takes one snapshot of its settings and forwards the request: it asks the health
  checker and the circuit breaker which backends are fit, the sticky pins and the strategy of
  \<open>internal/balancer\<close> which of them to take, and after a failed attempt the retry rules and the retry
  budget whether to take another. Outcomes go back to the checker, the breaker and the metrics of
  \<open>internal/observability\<close>. \<open>internal/app\<close> puts the parts together from the configuration of
  \<open>internal/config\<close> and replaces them on a reload while requests are in flight; \<open>cmd/lb\<close> runs it.

  Shared: \<open>Go_Prelude\<close> (time, the parts of \<open>strings\<close> and \<open>net\<close> the code calls, list lemmas, the collections
  \<open>frame_simps\<close> and \<open>wf_intros\<close>), \<open>Float64\<close> (binary64 as rounded rationals; locale \<open>rounding\<close>), \<open>Http\<close> (headers,
  requests, errors), \<open>Go_Format\<close> (numbers and durations as text; \<open>internal/config/duration.go\<close>), \<open>Go_Text\<close> (runes, padding
  and fixed-point numbers, as \<open>fmt\<close> lays them out).

  The balancer.
  \<^item> \<open>Configuration\<close>: \<open>config.go\<close>, \<open>validate.go\<close>, \<open>reload.go\<close>, \<open>warnings.go\<close>. Validation reports exactly the
    violated constraints; what \<open>Load\<close> returns is well-formed.
  \<^item> \<open>Backends\<close>, \<open>Round_Robin\<close>, \<open>Weighted_Round_Robin\<close>, \<open>Least_Connections\<close>, \<open>Consistent_Hash\<close>, \<open>Strategies\<close>: a
    file of \<open>internal/balancer\<close> each. Backends are cells of a heap, so that a reload's sharing shows. The
    interface is the locale \<open>lb_strategy\<close>, interpreted by every strategy. Shares are exact, keys move only
    as they must, and a bounded load leaves room.
  \<^item> \<open>Health\<close>, \<open>Health_Probing\<close>: \<open>internal/health\<close>, the table of states (locale \<open>checker\<close>) and the goroutines that
    probe. Health is a hysteresis over the history of outcomes; every backend has one prober.
  \<^item> \<open>Breaker\<close>, \<open>Retry_Budget\<close>, \<open>Rate_Limit\<close>, \<open>Request_Checks\<close>, \<open>Sticky_Sessions\<close>, \<open>Metrics\<close>: the files of
    \<open>internal/proxy\<close> the core calls, and the counters. Each abstract specification (a circuit's phase, a
    client's own bucket, a token's backend) is stated beside the operations that implement it.
  \<^item> \<open>Proxy\<close>, \<open>Proxy_Frames\<close>, \<open>Proxy_Requests\<close>, \<open>Proxy_Properties\<close>, \<open>Forwarding\<close>: \<open>proxy.go\<close> and \<open>hashing.go\<close>. A request
    runs in pieces (\<open>admit\<close>, \<open>begin_request\<close>, \<open>resume\<close>), between which others run; the world they share is one
    record. Frame lemmas say what a piece leaves alone, account lemmas by how much it moves each counter.
  \<^item> \<open>Observability\<close>, \<open>Server\<close>, \<open>App\<close>, \<open>Lifecycle\<close>: \<open>pool.go\<close>, \<open>probes.go\<close>, \<open>logging.go\<close>; \<open>internal/server\<close>;
    \<open>internal/app\<close>; the goroutines of \<open>App.Run\<close> and the reload signals, with \<open>cmd/lb\<close>.
  \<^item> \<open>System\<close>: any number of requests, reloads and probes in any order. Every shared counter is exact, every
    reference valid, and every request comes to an answer.
  \<^item> \<open>Copy_Buffers\<close>, \<open>Balancer_Command\<close>: \<open>bufferpool.go\<close>, whose buffers no two responses share; \<open>cmd/lb/main.go\<close> and the
    choice of the logger. A configuration that loads starts, but for its secret and its addresses.

  The tools.
  \<^item> \<open>Mock_Profile\<close>, \<open>Mock_Faults\<close>, \<open>Mock_Cache\<close>, \<open>Mock_Server\<close>: \<open>cmd/mockbackend\<close>. The cache implements the locale
    \<open>session_memory\<close>; the server's requests interleave with the admin port, and its limits hold throughout.
  \<^item> \<open>Mock_Process\<close>, \<open>Mock_Metrics\<close>: its \<open>run\<close> and \<open>main\<close>, with what a shutdown waits for (\<open>drains\<close>: some schedule ends
    every request, whatever clients do), and its exposition byte by byte, which reads back as its counters.
  \<^item> \<open>Load_Results\<close>, \<open>Load_Counters\<close>, \<open>Load_Requests\<close>, \<open>Load_Report\<close>: \<open>cmd/loadgen\<close>. What is reported and printed depends on
    what was observed alone (locale \<open>accumulating\<close>, interpreted for counts and for groups); a request carries its
    own session's cookies; the histogram is to scale.
  \<^item> \<open>Demo_Config\<close>, \<open>Demo_Console\<close>, \<open>Demo_Session\<close>, \<open>Demo_Measure\<close>: \<open>cmd/demo\<close>, the edits of the configuration file
    byte by byte, the faults it asks the mock backends for, which those accept, a session from its first
    prompt to leaving, and what it measures and shows. \<open>Demo_Faults\<close> puts the console and a mock backend
    together: they agree on every fault, and for how long; \<open>Demo_Wire\<close> is the form between them, byte by byte.
  \<^item> \<open>Demo_Terminal\<close>: \<open>console.go\<close>, \<open>run.go\<close> and the actions as they appear: what is written, read and run. Nothing
    typed becomes part of a command, and colour changes nothing but the colour.
  \<^item> \<open>Routes\<close>: the ports of the mock backend and the balancer's metrics port, and what their paths reach.

  How much is atomic. A piece of a process is the code between two waits (the network, a timer, a
  channel) or between two operations on shared memory where others may see the state in between: the
  reservation of a retry is three steps, a connection's accepting and closing are two each. What runs
  under a mutex is one step. Between two waits of a request of the proxy or of the mock backend, its calls
  on shared components are taken together; each component's own theory shows what holds under any
  interleaving of single calls.

  Integers. Where the code's arithmetic can wrap, it does in the model: the hash functions and the turn
  counter of round robin are 64-bit words, body limits and parsed sizes go through \<open>wrap64\<close>. Counters of
  requests are integers: each is proved equal to a number of requests or bounded. No recursion needs fuel:
  every loop is structural or has a measure, and the runs of the state machines are finite sequences of
  steps of any length.

  Parameters, with what is assumed of them where it is: the YAML decoder and the binding of sockets (any
  outcome); the random generators (a tape of draws); the clock (readings that do not run backwards, where a
  lemma says so); \<open>math.Log\<close> (zero at one, negative below), \<open>math.Exp\<close>, \<open>strconv.ParseFloat\<close>
  and \<open>FormatFloat\<close> (a number reads back as it was written, where a lemma says so); HMAC-SHA256 (it tells
  the pool's addresses apart); what happens to an exchange on the wire; what the \<open>flag\<close> package found;
  what files, Docker and the balancer answer the demo console.

  Not modelled: registering collectors and the balancer's exposition of \<open>/metrics\<close>, JSON documents, the log's
  handlers and pprof routes (calls of libraries); the HTTP transports beyond their settings and what their
  sockets do; how the \<open>flag\<close> package reads a command line; the questions of the console's remaining actions,
  beyond what their answers do. The sign of floating-point zeros and overflow of
  arithmetic to infinity are left out, as \<open>Float64\<close> says.
\<close>

end
